(* ===== verification/Prelude.thy ===== *)
theory Prelude
  imports Main "HOL-Library.Word"
begin

text \<open>
  Shared vocabulary of the development: names for the machine integers of the C++ sources, raw
  memory with the block transfers the code performs by \<^verbatim>\<open>memcpy\<close>, the little-endian layout of
  integers that those transfers rely on, ordered maps (\<^verbatim>\<open>std::map\<close>) as sorted association lists,
  and the contracts (locales) that several components instantiate: a fixed-width integer codec,
  an ordered map, an operation that keeps an invariant along a run, and a machine that is never stuck.
\<close>

unbundle bit_operations_syntax

section \<open>Collections and names\<close>

named_theorems mem_laws \<open>reading memory after writing memory\<close>
named_theorems omap_laws \<open>ordered maps\<close>

type_synonym u8 = "8 word"
type_synonym u16 = "16 word"
type_synonym u32 = "32 word"
type_synonym u64 = "64 word"

text \<open>A byte array, addressed by offset. Bounds are written out where the code accesses it.\<close>

type_synonym mem = "nat \<Rightarrow> u8"

section \<open>Little-endian integers\<close>

fun le_bytes :: "nat \<Rightarrow> nat \<Rightarrow> u8 list" where
  "le_bytes 0 v = []"
| "le_bytes (Suc n) v = of_nat (v mod 256) # le_bytes n (v div 256)"

fun le_val :: "u8 list \<Rightarrow> nat" where
  "le_val [] = 0"
| "le_val (b # bs) = unat b + 256 * le_val bs"

section \<open>Block transfers\<close>

definition mem_read :: "mem \<Rightarrow> nat \<Rightarrow> nat \<Rightarrow> u8 list" where
  "mem_read m a n = map m [a..<a + n]"

definition mem_write :: "mem \<Rightarrow> nat \<Rightarrow> u8 list \<Rightarrow> mem" where
  "mem_write m a bs = (\<lambda>i. if a \<le> i \<and> i < a + length bs then bs ! (i - a) else m i)"

section \<open>Ordered maps\<close>

text \<open>
  \<^verbatim>\<open>std::map<K, V>\<close>: the entries in increasing key order, which is the order in which the code
  iterates over it.
\<close>

type_synonym ('k, 'v) omap = "('k \<times> 'v) list"

fun om_find :: "('k::linorder, 'v) omap \<Rightarrow> 'k \<Rightarrow> 'v option" where
  "om_find [] k = None"
| "om_find ((k', v) # m) k = (if k = k' then Some v else om_find m k)"

fun om_set :: "('k::linorder, 'v) omap \<Rightarrow> 'k \<Rightarrow> 'v \<Rightarrow> ('k, 'v) omap" where
  "om_set [] k v = [(k, v)]"
| "om_set ((k', v') # m) k v =
     (if k < k' then (k, v) # (k', v') # m
      else if k = k' then (k, v) # m
      else (k', v') # om_set m k v)"

fun om_erase :: "('k::linorder, 'v) omap \<Rightarrow> 'k \<Rightarrow> ('k, 'v) omap" where
  "om_erase [] k = []"
| "om_erase ((k', v') # m) k = (if k = k' then m else (k', v') # om_erase m k)"

definition om_ok :: "('k::linorder, 'v) omap \<Rightarrow> bool" where
  "om_ok m \<longleftrightarrow> sorted_wrt (<) (map fst m)"

section \<open>Lemmas on little-endian integers\<close>

lemma length_le_bytes [simp]: "length (le_bytes n v) = n"
  by (induction n arbitrary: v) auto

lemma unat_of_nat_byte [simp]: "unat (of_nat (v mod 256) :: u8) = v mod 256"
  by (simp add: unat_of_nat)

lemma le_val_le_bytes: "le_val (le_bytes n v) = v mod 256 ^ n"
proof (induction n arbitrary: v)
  case 0
  then show ?case by simp
next
  case (Suc n)
  then show ?case by (simp add: mod_mult2_eq)
qed

lemma le_val_bound: "le_val bs < 256 ^ length bs"
proof (induction bs)
  case Nil
  then show ?case by simp
next
  case (Cons b bs)
  have "unat b < 256" using unsigned_less [of b, where ?'a = nat] by simp
  with Cons show ?case by simp
qed

lemma le_bytes_le_val: "le_bytes (length bs) (le_val bs) = bs"
proof (induction bs)
  case Nil
  then show ?case by simp
next
  case (Cons b bs)
  have "unat b < 256" using unsigned_less [of b, where ?'a = nat] by simp
  with Cons show ?case by simp
qed

section \<open>Lemmas on block transfers\<close>

lemma length_mem_read [simp]: "length (mem_read m a n) = n"
  by (simp add: mem_read_def)

lemma mem_read_0 [simp]: "mem_read m a 0 = []"
  by (simp add: mem_read_def)

lemma nth_mem_read [simp]: "i < n \<Longrightarrow> mem_read m a n ! i = m (a + i)"
  by (simp add: mem_read_def)

lemma mem_write_Nil [simp]: "mem_write m a [] = m"
  by (auto simp: mem_write_def fun_eq_iff)

lemma mem_read_write_same [mem_laws]:
  "n = length bs \<Longrightarrow> mem_read (mem_write m a bs) a n = bs"
  by (intro nth_equalityI) (auto simp: mem_write_def)

lemma mem_read_write_disjoint [mem_laws]:
  "a + n \<le> b \<or> b + length bs \<le> a \<Longrightarrow> mem_read (mem_write m b bs) a n = mem_read m a n"
  by (intro nth_equalityI) (auto simp: mem_write_def)

lemma mem_write_outside [mem_laws]:
  "i < a \<or> a + length bs \<le> i \<Longrightarrow> mem_write m a bs i = m i"
  by (auto simp: mem_write_def)

lemma mem_write_at [mem_laws]:
  "i < length bs \<Longrightarrow> mem_write m a bs (a + i) = bs ! i"
  by (auto simp: mem_write_def)

lemma mem_write_read_same [mem_laws]: "mem_write m a (mem_read m a n) = m"
  by (auto simp: mem_write_def fun_eq_iff)

lemma mem_write_write_same [mem_laws]:
  "length bs = length bs' \<Longrightarrow> mem_write (mem_write m a bs) a bs' = mem_write m a bs'"
  by (auto simp: mem_write_def fun_eq_iff)

lemma mem_write_commute:
  "a + length bs \<le> b \<or> b + length cs \<le> a \<Longrightarrow>
     mem_write (mem_write m a bs) b cs = mem_write (mem_write m b cs) a bs"
  by (auto simp: mem_write_def fun_eq_iff)

lemma mem_read_append: "mem_read m a (n + k) = mem_read m a n @ mem_read m (a + n) k"
  by (intro nth_equalityI) (auto simp: nth_append)

section \<open>The fixed-width integer contract\<close>

text \<open>
  What a client of \<^verbatim>\<open>memcpy(&v, p, sizeof(T))\<close> relies on: the bytes written for a value have
  the type's size and reading them gives the value back. The clients are the message buffers
  and the property streams; the providers are the four unsigned widths.
\<close>

locale int_codec =
  fixes enc :: "'a \<Rightarrow> u8 list" and dec :: "u8 list \<Rightarrow> 'a" and width :: nat
  assumes enc_length: "length (enc x) = width"
    and dec_enc: "dec (enc x) = x"
    and enc_dec: "length bs = width \<Longrightarrow> enc (dec bs) = bs"
begin

lemma enc_inj: "enc x = enc y \<Longrightarrow> x = y"
  by (metis dec_enc)

lemma read_back: "dec (mem_read (mem_write m a (enc x)) a width) = x"
  by (simp add: mem_laws enc_length dec_enc)

lemma read_later:
  "a + width \<le> b \<Longrightarrow> dec (mem_read (mem_write (mem_write m a (enc x)) b bs) a width) = x"
  by (simp add: mem_read_write_disjoint read_back)

lemma stream_back: "dec (take width (enc x @ rest)) = x \<and> drop width (enc x @ rest) = rest"
  by (simp add: enc_length dec_enc)

end

definition word_bytes :: "nat \<Rightarrow> 'a::len word \<Rightarrow> u8 list" where
  "word_bytes n w = le_bytes n (unat w)"

definition bytes_word :: "u8 list \<Rightarrow> 'a::len word" where
  "bytes_word bs = of_nat (le_val bs)"

lemma length_word_bytes [simp]: "length (word_bytes n w) = n"
  by (simp add: word_bytes_def)

lemma word_bytes_codec:
  assumes "LENGTH('a) = 8 * n"
  shows "int_codec (word_bytes n :: 'a::len word \<Rightarrow> u8 list) bytes_word n"
proof
  have pow: "(256::nat) ^ n = 2 ^ LENGTH('a)"
    using assms by (simp add: power_mult)
  fix x :: "'a word" and bs :: "u8 list"
  show "length (word_bytes n x) = n" by simp
  show "bytes_word (word_bytes n x) = x"
    using unsigned_less [of x, where ?'a = nat] by (simp add: bytes_word_def word_bytes_def le_val_le_bytes pow)
  assume len: "length bs = n"
  then have "le_val bs < 2 ^ LENGTH('a)" using le_val_bound [of bs] pow by simp
  then have "unat (of_nat (le_val bs) :: 'a word) = le_val bs" by (simp add: unat_of_nat)
  then show "word_bytes n (bytes_word bs :: 'a word) = bs"
    using le_bytes_le_val [of bs] len by (simp add: bytes_word_def word_bytes_def)
qed

interpretation c8: int_codec "word_bytes 1 :: u8 \<Rightarrow> u8 list" bytes_word 1
  by (rule word_bytes_codec) simp

interpretation c16: int_codec "word_bytes 2 :: u16 \<Rightarrow> u8 list" bytes_word 2
  by (rule word_bytes_codec) simp

interpretation c32: int_codec "word_bytes 4 :: u32 \<Rightarrow> u8 list" bytes_word 4
  by (rule word_bytes_codec) simp

interpretation c64: int_codec "word_bytes 8 :: u64 \<Rightarrow> u8 list" bytes_word 8
  by (rule word_bytes_codec) simp

section \<open>The ordered map contract\<close>

text \<open>
  What the code relies on of \<^verbatim>\<open>std::map\<close>: lookups after an insertion or an erasure, and that
  both keep the keys in strictly increasing order.
\<close>

locale ordered_map =
  fixes find :: "'m \<Rightarrow> 'k \<Rightarrow> 'v option"
    and set_at :: "'m \<Rightarrow> 'k \<Rightarrow> 'v \<Rightarrow> 'm"
    and erase :: "'m \<Rightarrow> 'k \<Rightarrow> 'm"
    and ok :: "'m \<Rightarrow> bool"
  assumes find_set: "ok m \<Longrightarrow> find (set_at m k v) k' = (if k' = k then Some v else find m k')"
    and find_erase: "ok m \<Longrightarrow> find (erase m k) k' = (if k' = k then None else find m k')"
    and ok_set: "ok m \<Longrightarrow> ok (set_at m k v)"
    and ok_erase: "ok m \<Longrightarrow> ok (erase m k)"
begin

lemma find_set_same: "ok m \<Longrightarrow> find (set_at m k v) k = Some v"
  by (simp add: find_set)

lemma find_set_other: "ok m \<Longrightarrow> k' \<noteq> k \<Longrightarrow> find (set_at m k v) k' = find m k'"
  by (simp add: find_set)

lemma find_erase_same: "ok m \<Longrightarrow> find (erase m k) k = None"
  by (simp add: find_erase)

lemma find_erase_set: "ok m \<Longrightarrow> find (erase (set_at m k v) k) k' = find (erase m k) k'"
  by (simp add: find_set find_erase ok_set)

end

lemma om_find_None: "om_find m k = None \<longleftrightarrow> k \<notin> fst ` set m"
  by (induction m k rule: om_find.induct) auto

lemma om_find_map_of: "om_find m k = map_of m k"
  by (induction m k rule: om_find.induct) auto

lemma om_find_SomeD: "om_find m k = Some v \<Longrightarrow> (k, v) \<in> set m"
  by (simp add: om_find_map_of map_of_SomeD)

lemma om_ok_Nil [simp, omap_laws]: "om_ok []"
  by (simp add: om_ok_def)

lemma om_ok_Cons: "om_ok ((k, v) # m) \<longleftrightarrow> (\<forall>k' \<in> fst ` set m. k < k') \<and> om_ok m"
  by (auto simp: om_ok_def)

lemma om_find_in: "om_ok m \<Longrightarrow> (k, v) \<in> set m \<Longrightarrow> om_find m k = Some v"
  by (induction m) (fastforce simp: om_ok_Cons image_iff)+

lemma om_find_iff: "om_ok m \<Longrightarrow> om_find m k = Some v \<longleftrightarrow> (k, v) \<in> set m"
  by (rule iffI) (erule om_find_SomeD, erule (1) om_find_in)

lemma om_set_in: "x \<in> set (om_set m k v) \<Longrightarrow> x = (k, v) \<or> x \<in> set m"
  by (induction m k v rule: om_set.induct) (auto split: if_splits)

lemma om_set_keys: "fst ` set (om_set m k v) = insert k (fst ` set m)"
  by (induction m k v rule: om_set.induct) auto

lemma om_erase_keys: "om_ok m \<Longrightarrow> fst ` set (om_erase m k) = fst ` set m - {k}"
  by (induction m k rule: om_erase.induct) (auto simp: om_ok_Cons)

lemma om_ok_set [omap_laws]: "om_ok m \<Longrightarrow> om_ok (om_set m k v)"
  by (induction m k v rule: om_set.induct) (auto simp: om_ok_Cons om_set_keys)

lemma om_erase_subset: "set (om_erase m k) \<subseteq> set m"
  by (induction m k rule: om_erase.induct) auto

lemma om_ok_erase [omap_laws]: "om_ok m \<Longrightarrow> om_ok (om_erase m k)"
  by (induction m k rule: om_erase.induct)
    (use om_erase_subset in \<open>fastforce simp: om_ok_Cons\<close>)+

lemma om_find_set [omap_laws]:
  "om_find (om_set m k v) k' = (if k' = k then Some v else om_find m k')"
  by (induction m k v rule: om_set.induct) auto

lemma om_find_erase [omap_laws]:
  "om_ok m \<Longrightarrow> om_find (om_erase m k) k' = (if k' = k then None else om_find m k')"
proof (induction m k rule: om_erase.induct)
  case (2 k0 v0 m k)
  then have "k0 \<notin> fst ` set m" by (auto simp: om_ok_Cons)
  then have "om_find m k0 = None" by (simp add: om_find_None)
  with 2 show ?case by (auto simp: om_ok_Cons)
qed simp

interpretation om: ordered_map om_find om_set om_erase om_ok
  by unfold_locales (simp_all add: omap_laws)

section \<open>Invariants along a run\<close>

text \<open>The states an operation reaches over a sequence of inputs.\<close>

fun run :: "('s \<Rightarrow> 'e \<Rightarrow> 's) \<Rightarrow> 's \<Rightarrow> 'e list \<Rightarrow> 's" where
  "run step s [] = s"
| "run step s (e # es) = run step (step s e) es"

lemma run_append: "run step s (xs @ ys) = run step (run step s xs) ys"
  by (induction xs arbitrary: s) auto

locale kept_invariant =
  fixes step :: "'s \<Rightarrow> 'e \<Rightarrow> 's" and inv :: "'s \<Rightarrow> bool"
  assumes step_keeps: "inv s \<Longrightarrow> inv (step s e)"
begin

lemma run_keeps: "inv s \<Longrightarrow> inv (run step s es)"
  by (induction es arbitrary: s) (auto simp: step_keeps)

end

text \<open>
  A machine whose steps may be undefined (\<open>None\<close>), in an environment that only takes allowed steps.
\<close>

inductive reached :: "('e \<Rightarrow> 's \<Rightarrow> 's option) \<Rightarrow> ('s \<Rightarrow> 'e \<Rightarrow> bool) \<Rightarrow> 's \<Rightarrow> 's \<Rightarrow> bool"
  for step :: "'e \<Rightarrow> 's \<Rightarrow> 's option" and allowed :: "'s \<Rightarrow> 'e \<Rightarrow> bool" and s0 :: 's where
  reached_start: "reached step allowed s0 s0"
| reached_step: "reached step allowed s0 s \<Longrightarrow> allowed s e \<Longrightarrow> step e s = Some s' \<Longrightarrow>
     reached step allowed s0 s'"

locale safe_machine =
  fixes step :: "'e \<Rightarrow> 's \<Rightarrow> 's option" and allowed :: "'s \<Rightarrow> 'e \<Rightarrow> bool" and ok :: "'s \<Rightarrow> bool"
  assumes progress: "ok s \<Longrightarrow> allowed s e \<Longrightarrow> \<exists>s'. step e s = Some s' \<and> ok s'"
begin

lemma reached_ok: "reached step allowed s0 s \<Longrightarrow> ok s0 \<Longrightarrow> ok s"
proof (induction rule: reached.induct)
  case reached_start
  then show ?case .
next
  case (reached_step s e s')
  then show ?case using progress [of s e] by auto
qed

lemma never_stuck:
  assumes "reached step allowed s0 s" "ok s0" "allowed s e"
  shows "\<exists>s'. step e s = Some s' \<and> reached step allowed s0 s'"
  using progress [OF reached_ok [OF assms(1,2)] assms(3)] assms(1,3) by (blast intro: reached_step)

end

section \<open>Signed readings of words\<close>

lemma unat_u64: "unat (w :: u64) < 18446744073709551616"
  using unsigned_less [of w, where ?'a = nat] by simp

lemma unat_pred: "a < w \<Longrightarrow> unat (w - 1) < unat w" for w :: "'a::len word"
  by (rule measure_unat) auto

lemma sint_eq_unat:
  fixes w :: "'a::len word"
  assumes "unat w < 2 ^ (LENGTH('a) - 1)"
  shows "sint w = int (unat w)"
proof -
  have "int (unat w) < int (2 ^ (LENGTH('a) - 1))" using assms by (simp only: of_nat_less_iff)
  then have "int (unat w) < 2 ^ (LENGTH('a) - 1)" by simp
  moreover have "- (2 ^ (LENGTH('a) - 1)) \<le> int (unat w)" by (rule order_trans [of _ 0]) simp_all
  ultimately have "signed_take_bit (LENGTH('a) - 1) (int (unat w)) = int (unat w)"
    by (intro signed_take_bit_int_eq_self)
  then show ?thesis by (simp only: sint_uint uint_nat One_nat_def)
qed

lemma sint_diff_unat:
  fixes x y :: "'a::len word"
  assumes x: "unat x < 2 ^ (LENGTH('a) - 1)" and y: "unat y < 2 ^ (LENGTH('a) - 1)"
  shows "sint (x - y) = int (unat x) - int (unat y)"
proof -
  have "int (unat x) < int (2 ^ (LENGTH('a) - 1))" "int (unat y) < int (2 ^ (LENGTH('a) - 1))"
    using x y by (simp_all only: of_nat_less_iff)
  then have "int (unat x) < 2 ^ (LENGTH('a) - 1)" "int (unat y) < 2 ^ (LENGTH('a) - 1)" by simp_all
  then have "- (2 ^ (LENGTH('a) - 1)) \<le> int (unat x) - int (unat y)"
    "int (unat x) - int (unat y) < 2 ^ (LENGTH('a) - 1)" by linarith+
  then have "signed_take_bit (LENGTH('a) - 1) (int (unat x) - int (unat y)) = int (unat x) - int (unat y)"
    by (intro signed_take_bit_int_eq_self)
  then show ?thesis by (simp only: sint_word_diff sint_eq_unat [OF x] sint_eq_unat [OF y])
qed

section \<open>Lists\<close>

lemma remove1_keeps_distinct: "distinct xs \<Longrightarrow> distinct (remove1 x xs)"
  by (rule distinct_remove1)

end
