(* ===== verification/Strings.thy ===== *)
theory Strings
  imports Prelude
begin

text \<open>
  The string utilities of \<^verbatim>\<open>utils/tools.cpp\<close>. A \<^verbatim>\<open>std::string\<close> is a list of bytes; the searches it
  offers (\<^verbatim>\<open>find\<close>, \<^verbatim>\<open>find_first_not_of\<close>, \<^verbatim>\<open>find_last_not_of\<close>) return \<open>None\<close> for \<^verbatim>\<open>npos\<close>. The two
  utilities that loop on \<^verbatim>\<open>find\<close> need not end, so their models return \<open>None\<close> for "does not return".
\<close>

section \<open>Searching\<close>

function str_find :: "string \<Rightarrow> string \<Rightarrow> nat \<Rightarrow> nat option" where
  "str_find s sub i =
     (if length s < i + length sub then None
      else if take (length sub) (drop i s) = sub then Some i
      else str_find s sub (Suc i))"
  by pat_completeness auto
termination
  by (relation "measure (\<lambda>(s, sub, i). Suc (length s) - i)") auto

declare str_find.simps [simp del]

fun find_first_not_of :: "string \<Rightarrow> char \<Rightarrow> nat option" where
  "find_first_not_of [] t = None"
| "find_first_not_of (c # cs) t =
     (if c \<noteq> t then Some 0 else map_option Suc (find_first_not_of cs t))"

definition find_last_not_of :: "string \<Rightarrow> char \<Rightarrow> nat option" where
  "find_last_not_of s t =
     (case find_first_not_of (rev s) t of None \<Rightarrow> None | Some i \<Rightarrow> Some (length s - 1 - i))"

section \<open>Trimming\<close>

definition trim_right :: "string \<Rightarrow> char \<Rightarrow> string" where
  "trim_right source t =
     (case find_last_not_of source t of None \<Rightarrow> take 0 source | Some i \<Rightarrow> take (i + 1) source)"

definition trim_left :: "string \<Rightarrow> char \<Rightarrow> string" where
  "trim_left source t =
     (case find_first_not_of source t of None \<Rightarrow> drop (length source) source | Some i \<Rightarrow> drop i source)"

definition trimString :: "string \<Rightarrow> string" where
  "trimString str = trim_left (trim_right str (CHR '' '')) (CHR '' '')"

section \<open>Replacing and splitting\<close>

partial_function (option) replace_loop :: "string \<Rightarrow> string \<Rightarrow> string \<Rightarrow> nat \<Rightarrow> string option" where
  "replace_loop str sought replacement start =
     (case str_find str sought start of
        None \<Rightarrow> Some str
      | Some pos \<Rightarrow>
          replace_loop (take pos str @ replacement @ drop (pos + length sought) str)
            sought replacement (pos + length replacement))"

definition replaceString :: "string \<Rightarrow> string \<Rightarrow> string \<Rightarrow> string option" where
  "replaceString str sought replacement = replace_loop str sought replacement 0"

partial_function (option) explode_loop ::
    "string \<Rightarrow> string \<Rightarrow> int \<Rightarrow> nat \<Rightarrow> string list \<Rightarrow> string list option" where
  "explode_loop inString separator limit start returnVector =
     (if limit - 1 \<noteq> -1 then
        (case str_find inString separator start of
           None \<Rightarrow> Some (returnVector @ [drop start inString])
         | Some end' \<Rightarrow>
             explode_loop inString separator (limit - 1) (end' + length separator)
               (returnVector @ [take (end' - start) (drop start inString)]))
      else Some (returnVector @ [drop start inString]))"

definition explodeString :: "string \<Rightarrow> string \<Rightarrow> int \<Rightarrow> string list option" where
  "explodeString inString separator limit = explode_loop inString separator limit 0 []"

section \<open>Letter case\<close>

text \<open>\<^verbatim>\<open>tolower\<close> and \<^verbatim>\<open>toupper\<close> of the C locale.\<close>

definition tolower :: "char \<Rightarrow> char" where
  "tolower c = (if 65 \<le> (of_char c :: nat) \<and> (of_char c :: nat) \<le> 90 then char_of (of_char c + 32 :: nat) else c)"

definition toupper :: "char \<Rightarrow> char" where
  "toupper c = (if 97 \<le> (of_char c :: nat) \<and> (of_char c :: nat) \<le> 122 then char_of (of_char c - 32 :: nat) else c)"

definition toLowerCaseString :: "string \<Rightarrow> string" where
  "toLowerCaseString source = map tolower source"

definition asLowerCaseString :: "string \<Rightarrow> string" where
  "asLowerCaseString source = toLowerCaseString source"

definition asUpperCaseString :: "string \<Rightarrow> string" where
  "asUpperCaseString source = map toupper source"

fun ucfirst :: "string \<Rightarrow> string" where
  "ucfirst [] = []"
| "ucfirst (i # str) = (if i \<noteq> CHR '' '' then toupper i # str else i # ucfirst str)"

text \<open>
  \<^verbatim>\<open>ucwords\<close> and \<^verbatim>\<open>capitalizeWords\<close> walk over the string by index and update it in place, so a step
  reads the already updated previous character.
\<close>

function ucwords_from :: "nat \<Rightarrow> string \<Rightarrow> string" where
  "ucwords_from i str =
     (if i < length str
      then ucwords_from (Suc i)
             (if str ! (i - 1) = CHR '' '' then str[i := toupper (str ! i)] else str)
      else str)"
  by pat_completeness auto
termination
  by (relation "measure (\<lambda>(i, str). length str - i)") auto

declare ucwords_from.simps [simp del]

definition ucwords :: "string \<Rightarrow> string" where
  "ucwords str = (if length str = 0 then str else ucwords_from 1 (str[0 := toupper (str ! 0)]))"

function capitalize_from :: "nat \<Rightarrow> nat \<Rightarrow> string \<Rightarrow> string" where
  "capitalize_from i sz source =
     (if i < sz
      then capitalize_from (Suc i) sz
             (if i = 0 then source[i := toupper (source ! i)]
              else if source ! (i - 1) = CHR '' '' \<or> source ! (i - 1) = CHR 0x27
              then source[i := toupper (source ! i)]
              else source)
      else source)"
  by pat_completeness auto
termination
  by (relation "measure (\<lambda>(i, sz, source). sz - i)") auto

declare capitalize_from.simps [simp del]

definition capitalizeWords :: "string \<Rightarrow> string" where
  "capitalizeWords source =
     (let source' = toLowerCaseString source;
          sz = unat (of_nat (length source') :: u8)
      in capitalize_from 0 sz source')"

definition booleanString :: "string \<Rightarrow> bool" where
  "booleanString str =
     (case str of [] \<Rightarrow> False
      | c # _ \<Rightarrow> let ch = tolower c in ch \<noteq> CHR ''f'' \<and> ch \<noteq> CHR ''n'' \<and> ch \<noteq> CHR ''0'')"

fun getFirstLine :: "string \<Rightarrow> string" where
  "getFirstLine [] = []"
| "getFirstLine (c # str) = (if c = CHR 0x0A then [] else c # getFirstLine str)"

section \<open>Numbers as text\<close>

fun dec_string :: "nat \<Rightarrow> string" where
  "dec_string n =
     (if n < 10 then [char_of (48 + n)] else dec_string (n div 10) @ [char_of (48 + n mod 10)])"

declare dec_string.simps [simp del]

definition convertIPToString :: "u32 \<Rightarrow> string" where
  "convertIPToString ip =
     dec_string (unat (ip AND 0xFF)) @ ''.'' @ dec_string (unat (drop_bit 8 ip AND 0xFF)) @ ''.''
       @ dec_string (unat (drop_bit 16 ip AND 0xFF)) @ ''.'' @ dec_string (unat (drop_bit 24 ip))"

section \<open>Character names\<close>

datatype NameEval_t =
    VALID | INVALID | INVALID_LENGTH | INVALID_TOKEN_LENGTH | INVALID_FORBIDDEN | INVALID_CHARACTER

definition prohibitedWords :: "string list" where
  "prohibitedWords =
     [''owner'', ''gamemaster'', ''hoster'', ''admin'', ''staff'', ''tibia'', ''account'', ''god'',
      ''anal'', ''ass'', ''fuck'', ''sex'', ''hitler'', ''pussy'', ''dick'', ''rape'', ''cm'', ''gm'',
      ''tutor'', ''counsellor'', ''god'']"

text \<open>The regular expression \<^verbatim>\<open>^[a-zA-Z' ]+$\<close>.\<close>

definition valid_char :: "char \<Rightarrow> bool" where
  "valid_char c \<longleftrightarrow>
     (let n = of_char c :: nat in 97 \<le> n \<and> n \<le> 122 \<or> 65 \<le> n \<and> n \<le> 90 \<or> n = 0x27 \<or> n = 0x20)"

fun check_tokens :: "string list \<Rightarrow> NameEval_t" where
  "check_tokens [] = VALID"
| "check_tokens (str # toks) =
     (if length str < 2 then INVALID_TOKEN_LENGTH
      else if str \<in> set prohibitedWords then INVALID_FORBIDDEN
      else check_tokens toks)"

text \<open>\<open>split\<close> stands for \<^verbatim>\<open>boost::split(toks, name, boost::is_any_of(" '"))\<close>.\<close>

definition validateName :: "(string \<Rightarrow> string list) \<Rightarrow> string \<Rightarrow> NameEval_t" where
  "validateName split name =
     (let toks = split name in
      if length name < 3 \<or> length name > 14 then INVALID_LENGTH
      else if \<not> (name \<noteq> [] \<and> list_all valid_char name) then INVALID_CHARACTER
      else check_tokens toks)"

section \<open>What the loops compute\<close>

text \<open>Reference definitions: replacement from left to right, and joining with a separator.\<close>

fun subst_all :: "string \<Rightarrow> string \<Rightarrow> string \<Rightarrow> string" where
  "subst_all a b [] = []"
| "subst_all a b (c # cs) =
     (if a \<noteq> [] \<and> take (length a) (c # cs) = a
      then b @ subst_all a b (drop (length a) (c # cs))
      else c # subst_all a b cs)"

fun join :: "string \<Rightarrow> string list \<Rightarrow> string" where
  "join sep [] = []"
| "join sep [p] = p"
| "join sep (p # q # ps) = p @ sep @ join sep (q # ps)"

definition occurs_at :: "string \<Rightarrow> string \<Rightarrow> nat \<Rightarrow> bool" where
  "occurs_at a s q \<longleftrightarrow> q + length a \<le> length s \<and> take (length a) (drop q s) = a"

section \<open>Searching lemmas\<close>

lemma str_find_Some:
  "str_find s a i = Some p \<Longrightarrow> i \<le> p \<and> occurs_at a s p \<and> (\<forall>q. i \<le> q \<and> q < p \<longrightarrow> \<not> occurs_at a s q)"
proof (induction s a i rule: str_find.induct)
  case (1 s a i)
  show ?case
  proof (cases "length s < i + length a \<or> take (length a) (drop i s) = a")
    case True
    with "1.prems" show ?thesis
      by (auto simp: str_find.simps [of s a i] occurs_at_def split: if_splits)
  next
    case False
    with 1 have "Suc i \<le> p \<and> occurs_at a s p \<and> (\<forall>q. Suc i \<le> q \<and> q < p \<longrightarrow> \<not> occurs_at a s q)"
      by (simp add: str_find.simps [of s a i])
    moreover from False have "\<not> occurs_at a s i" by (auto simp: occurs_at_def)
    ultimately show ?thesis by (metis Suc_leD Suc_leI le_neq_implies_less)
  qed
qed

lemma str_find_None: "str_find s a i = None \<Longrightarrow> i \<le> q \<Longrightarrow> \<not> occurs_at a s q"
proof (induction s a i rule: str_find.induct)
  case (1 s a i)
  show ?case
  proof (cases "length s < i + length a")
    case True
    with "1.prems" show ?thesis by (auto simp: occurs_at_def)
  next
    case False
    with 1 show ?thesis
      by (cases "q = i") (auto simp: str_find.simps [of s a i] occurs_at_def split: if_splits)
  qed
qed

lemma str_find_shift: "str_find (u @ v) a (length u + i) = map_option ((+) (length u)) (str_find v a i)"
proof (induction v a i rule: str_find.induct)
  case (1 v a i)
  then show ?case
    by (simp add: str_find.simps [of "u @ v" a "length u + i"] str_find.simps [of v a i])
qed

lemma occurs_at_split:
  assumes "occurs_at a s p"
  shows "s = take p s @ a @ drop (p + length a) s" and "length (take p s) = p"
proof -
  from assms have a: "take (length a) (drop p s) = a" and len: "p + length a \<le> length s"
    by (auto simp: occurs_at_def)
  have "s = take p s @ take (length a) (drop p s) @ drop (length a) (drop p s)"
    by (simp only: append_take_drop_id)
  then show "s = take p s @ a @ drop (p + length a) s"
    unfolding a drop_drop by (simp only: add.commute)
  from len show "length (take p s) = p" by simp
qed

lemma occurs_at_Suc: "occurs_at a (c # s) (Suc q) \<longleftrightarrow> occurs_at a s q"
  by (simp add: occurs_at_def)

lemma occurs_at_prefix: "occurs_at a x q \<Longrightarrow> occurs_at a (x @ y) q"
  by (auto simp: occurs_at_def)

text \<open>One step of a search loop that has consumed \<open>u\<close> and still has \<open>v\<close> before it.\<close>

lemma search_step:
  assumes "a \<noteq> []"
  obtains (none) "str_find (u @ v) a (length u) = None" and "\<forall>q. \<not> occurs_at a v q"
  | (some) x y where "v = x @ a @ y" and "str_find (u @ v) a (length u) = Some (length u + length x)"
      and "\<forall>q < length x. \<not> occurs_at a v q" and "length y < length v"
proof (cases "str_find v a 0")
  case None
  then show thesis
    using none str_find_shift [of u v a 0] str_find_None [OF None] by simp
next
  case (Some p)
  from str_find_Some [OF Some] have occ: "occurs_at a v p" and
    before: "\<forall>q < p. \<not> occurs_at a v q" by auto
  let ?x = "take p v" and ?y = "drop (p + length a) v"
  have v: "v = ?x @ a @ ?y" and lx: "length ?x = p" by (rule occurs_at_split [OF occ])+
  have "length v = p + length a + length ?y" using v lx by (metis add.assoc length_append)
  then have "length ?y < length v" using assms by (cases a) auto
  then show thesis
    using some [OF v] lx before Some str_find_shift [of u v a 0] by simp
qed

section \<open>Replacing\<close>

lemma subst_all_none: "\<forall>q. \<not> occurs_at a v q \<Longrightarrow> subst_all a b v = v"
proof (induction v)
  case Nil
  then show ?case by simp
next
  case (Cons c v)
  from Cons.prems have "\<not> occurs_at a (c # v) 0" by blast
  then have "\<not> (a \<noteq> [] \<and> take (length a) (c # v) = a)"
    by (metis occurs_at_def add_0 drop_0 length_take min.cobounded1)
  moreover from Cons.prems have "\<forall>q. \<not> occurs_at a v q" by (metis occurs_at_Suc)
  ultimately show ?case using Cons.IH by auto
qed

lemma subst_all_at:
  assumes "a \<noteq> []" and "\<forall>q < length x. \<not> occurs_at a (x @ a @ y) q"
  shows "subst_all a b (x @ a @ y) = x @ b @ subst_all a b y"
  using assms(2)
proof (induction x)
  case Nil
  obtain c cs where "a @ y = c # cs" using assms(1) by (cases a) auto
  moreover have "take (length a) (a @ y) = a" "drop (length a) (a @ y) = y" by simp_all
  ultimately show ?case using assms(1) by simp
next
  case (Cons c x)
  then have "\<not> occurs_at a (c # x @ a @ y) 0" by auto
  then have "take (length a) (c # x @ a @ y) \<noteq> a" by (auto simp: occurs_at_def)
  moreover have "\<forall>q < length x. \<not> occurs_at a (x @ a @ y) q"
    using Cons.prems by (metis append_Cons length_Cons not_less_eq occurs_at_Suc)
  ultimately show ?case using Cons.IH by simp
qed

lemma replace_loop_subst_all:
  assumes "a \<noteq> []"
  shows "replace_loop (u @ v) a b (length u) = Some (u @ subst_all a b v)"
proof (induction "length v" arbitrary: u v rule: less_induct)
  case less
  from assms show ?case
  proof (cases rule: search_step [of a u v])
    case none
    then show ?thesis by (subst replace_loop.simps) (simp add: subst_all_none)
  next
    case (some x y)
    have "replace_loop ((u @ x @ b) @ y) a b (length (u @ x @ b)) = Some ((u @ x @ b) @ subst_all a b y)"
      using less some(4) by blast
    with some show ?thesis
      by (subst replace_loop.simps) (simp add: subst_all_at [OF assms] add.assoc)
  qed
qed

text \<open>
  With a non-empty search string, \<^verbatim>\<open>replaceString\<close> returns, and its in-place loop computes the
  left-to-right replacement of every occurrence.
\<close>

theorem replaceString_subst_all:
  assumes "sought \<noteq> []"
  shows "replaceString str sought replacement = Some (subst_all sought replacement str)"
  using replace_loop_subst_all [OF assms, of "[]" str replacement] by (simp add: replaceString_def)

theorem replaceString_subst_all_witness:
  "''|'' \<noteq> ([] :: string) \<and>
   replaceString ''a|b|'' ''|'' ''||'' = Some (subst_all ''|'' ''||'' ''a|b|'') \<and>
   subst_all ''|'' ''||'' ''a|b|'' = ''a||b||''"
proof -
  have ne: "''|'' \<noteq> ([] :: string)" by simp
  show ?thesis using ne replaceString_subst_all [OF ne, of "''a|b|''" "''||''"] by simp
qed

text \<open>
  With an empty search string the loop finds a match at every start position it reaches: it
  never returns.
\<close>

lemma replace_loop_empty:
  assumes "replace_loop str sought b start = Some r"
  shows "\<not> (sought = [] \<and> start \<le> length str)"
proof (rule replace_loop.raw_induct
    [where P = "\<lambda>str sought b start r. \<not> (sought = [] \<and> start \<le> length str)", OF _ assms])
  fix f :: "string \<Rightarrow> string \<Rightarrow> string \<Rightarrow> nat \<Rightarrow> string option"
    and str sought b :: string and start :: nat and r :: string
  assume IH: "\<And>str sought b start r. f str sought b start = Some r \<Longrightarrow>
      \<not> (sought = [] \<and> start \<le> length str)"
    and eq: "(case str_find str sought start of None \<Rightarrow> Some str
      | Some pos \<Rightarrow> f (take pos str @ b @ drop (pos + length sought) str) sought b (pos + length b))
      = Some r"
  show "\<not> (sought = [] \<and> start \<le> length str)"
  proof
    assume "sought = [] \<and> start \<le> length str"
    then show False
      using eq IH [of "take start str @ b @ drop start str" "[]" b "start + length b" r]
      by (simp add: str_find.simps)
  qed
qed

text \<open>
  With an empty search string \<^verbatim>\<open>replaceString\<close> does not return, whatever the other arguments.
\<close>

theorem replaceString_empty_diverges: "replaceString str [] replacement = None"
proof (cases "replaceString str [] replacement")
  case None
  then show ?thesis .
next
  case (Some r)
  then show ?thesis using replace_loop_empty by (fastforce simp: replaceString_def)
qed

section \<open>Splitting\<close>

lemma join_Cons: "ps \<noteq> [] \<Longrightarrow> join sep (p # ps) = p @ sep @ join sep ps"
  by (cases ps) auto

lemma not_found_iff: "str_find p sep 0 = None \<longleftrightarrow> (\<forall>q. \<not> occurs_at sep p q)"
  using str_find_None [of p sep 0] str_find_Some [of p sep 0] by (cases "str_find p sep 0") auto

lemma explode_loop_pieces:
  assumes "sep \<noteq> []"
  shows "\<exists>ps. explode_loop (u @ v) sep limit (length u) acc = Some (acc @ ps) \<and> ps \<noteq> []
     \<and> join sep ps = v \<and> (limit < 0 \<longrightarrow> (\<forall>p \<in> set ps. str_find p sep 0 = None))
     \<and> (0 \<le> limit \<longrightarrow> int (length ps) \<le> limit + 1)"
proof (induction "length v" arbitrary: u v limit acc rule: less_induct)
  case less
  show ?case
  proof (cases "limit = 0")
    case True
    then show ?thesis by (subst explode_loop.simps) simp
  next
    case False
    from assms show ?thesis
    proof (cases rule: search_step [of sep u v])
      case none
      with False show ?thesis
        by (subst explode_loop.simps) (auto simp: not_found_iff)
    next
      case (some x y)
      obtain ps where ps: "explode_loop ((u @ x @ sep) @ y) sep (limit - 1) (length (u @ x @ sep))
            (acc @ [x]) = Some ((acc @ [x]) @ ps)" "ps \<noteq> []" "join sep ps = y"
          "limit - 1 < 0 \<longrightarrow> (\<forall>p \<in> set ps. str_find p sep 0 = None)"
          "0 \<le> limit - 1 \<longrightarrow> int (length ps) \<le> limit"
        using less [OF some(4), of "u @ x @ sep" "limit - 1" "acc @ [x]"] by auto
      have "\<not> occurs_at sep x q" for q
        using some(1,3) assms occurs_at_prefix [of sep x q "sep @ y"]
        by (cases "q < length x") (auto simp: occurs_at_def)
      then have "str_find x sep 0 = None" by (simp add: not_found_iff)
      moreover have "explode_loop (u @ v) sep limit (length u) acc = Some (acc @ x # ps)"
        using False some(1,2) ps(1) by (subst explode_loop.simps) (simp add: add.assoc)
      ultimately show ?thesis
        using False some(1) ps by (intro exI [of _ "x # ps"]) (auto simp: join_Cons)
    qed
  qed
qed

text \<open>
  With a non-empty separator \<^verbatim>\<open>explodeString\<close> returns pieces that joined by the separator are the
  input; with a negative limit no piece contains the separator, with a limit \<open>l \<ge> 0\<close> there are at
  most \<open>l + 1\<close> pieces.
\<close>

theorem explodeString_join:
  assumes "separator \<noteq> []"
  shows "\<exists>ps. explodeString inString separator limit = Some ps \<and> join separator ps = inString
     \<and> (limit < 0 \<longrightarrow> (\<forall>p \<in> set ps. str_find p separator 0 = None))
     \<and> (0 \<le> limit \<longrightarrow> int (length ps) \<le> limit + 1)"
  using explode_loop_pieces [OF assms, of "[]" inString limit "[]"]
  by (auto simp: explodeString_def)

theorem explodeString_join_witness:
  "''; '' \<noteq> ([] :: string) \<and> (\<exists>ps. explodeString ''1; 2; 3'' ''; '' (-1) = Some ps
     \<and> join ''; '' ps = ''1; 2; 3'')"
proof -
  have ne: "''; '' \<noteq> ([] :: string)" by simp
  show ?thesis using ne explodeString_join [OF ne, of "''1; 2; 3''" "-1"] by auto
qed

section \<open>Trimming\<close>

lemma find_first_not_of_dropWhile:
  "(case find_first_not_of s t of None \<Rightarrow> [] | Some i \<Rightarrow> drop i s) = dropWhile ((=) t) s"
  by (induction s t rule: find_first_not_of.induct) (auto split: option.splits)

lemma find_first_not_of_bound: "find_first_not_of s t = Some i \<Longrightarrow> i < length s"
  by (induction s t arbitrary: i rule: find_first_not_of.induct) (auto split: if_splits)

lemma trim_left_dropWhile: "trim_left s t = dropWhile ((=) t) s"
  using find_first_not_of_dropWhile [of s t] by (simp add: trim_left_def split: option.splits)

lemma trim_right_dropWhile: "trim_right s t = rev (dropWhile ((=) t) (rev s))"
proof (cases "find_first_not_of (rev s) t")
  case None
  then show ?thesis
    using find_first_not_of_dropWhile [of "rev s" t]
    by (simp add: trim_right_def find_last_not_of_def)
next
  case (Some i)
  then have "i < length s" using find_first_not_of_bound by fastforce
  then have "Suc (length s - Suc i) = length s - i" by simp
  moreover have "take (length s - i) s = rev (drop i (rev s))" by (simp add: rev_drop)
  ultimately show ?thesis
    using Some find_first_not_of_dropWhile [of "rev s" t]
    by (simp add: trim_right_def find_last_not_of_def)
qed

text \<open>
  \<^verbatim>\<open>trimString\<close> removes exactly the leading and the trailing blanks: the input is blanks, the
  result and blanks, and the result neither starts nor ends with a blank.
\<close>

theorem trimString_spec:
  "\<exists>i j. str = replicate i (CHR '' '') @ trimString str @ replicate j (CHR '' '')
     \<and> (trimString str = [] \<or> hd (trimString str) \<noteq> CHR '' '' \<and> last (trimString str) \<noteq> CHR '' '')"
proof -
  let ?b = "CHR '' ''"
  let ?r = "trim_right str ?b"
  have "rev str = takeWhile ((=) ?b) (rev str) @ dropWhile ((=) ?b) (rev str)" by simp
  then have "str = ?r @ rev (takeWhile ((=) ?b) (rev str))"
    unfolding trim_right_dropWhile by (metis rev_append rev_rev_ident)
  moreover have "rev (takeWhile ((=) ?b) (rev str)) = replicate (length (takeWhile ((=) ?b) (rev str))) ?b"
    by (rule replicate_eqI) (auto dest: set_takeWhileD)
  ultimately obtain j where j: "str = ?r @ replicate j ?b" by metis
  have "takeWhile ((=) ?b) ?r = replicate (length (takeWhile ((=) ?b) ?r)) ?b"
    by (rule replicate_eqI) (auto dest: set_takeWhileD)
  then obtain i where i: "?r = replicate i ?b @ trimString str"
    unfolding trimString_def trim_left_dropWhile by (metis takeWhile_dropWhile_id)
  have "trimString str = [] \<or> hd (trimString str) \<noteq> ?b"
    unfolding trimString_def trim_left_dropWhile by (metis hd_dropWhile)
  moreover have "?r = [] \<or> last ?r \<noteq> ?b"
    unfolding trim_right_dropWhile by (metis hd_dropWhile hd_rev rev_is_Nil_conv rev_rev_ident)
  then have "trimString str = [] \<or> last (trimString str) \<noteq> ?b"
    using i by (metis append_is_Nil_conv last_appendR)
  ultimately show ?thesis using i j by (metis append.assoc)
qed

section \<open>Capitalising\<close>

text \<open>Reference definition: a letter is raised at the start and after a blank or an apostrophe.\<close>

definition word_break :: "char \<Rightarrow> bool" where
  "word_break c \<longleftrightarrow> c = CHR '' '' \<or> c = CHR 0x27"

fun cap_words :: "bool \<Rightarrow> string \<Rightarrow> string" where
  "cap_words start [] = []"
| "cap_words start (c # cs) = (if start then toupper c else c) # cap_words (word_break c) cs"

lemma of_char_toupper:
  "of_char (toupper c) = (if 97 \<le> (of_char c :: nat) \<and> (of_char c :: nat) \<le> 122
     then of_char c - 32 else of_char c :: nat)"
  by (auto simp: toupper_def of_char_of)

lemma word_break_of_char: "word_break c \<longleftrightarrow> of_char c = (32::nat) \<or> of_char c = (39::nat)"
proof -
  have "of_char c = (32::nat) \<longleftrightarrow> c = CHR '' ''" "of_char c = (39::nat) \<longleftrightarrow> c = CHR 0x27"
    using of_char_eq_iff [where ?'a = nat, of c "CHR '' ''"]
      of_char_eq_iff [where ?'a = nat, of c "CHR 0x27"] by simp_all
  then show ?thesis by (simp add: word_break_def)
qed

lemma word_break_toupper [simp]: "word_break (toupper c) = word_break c"
  by (auto simp: word_break_of_char of_char_toupper)

lemma capitalize_from_append:
  "capitalize_from (length u) (length u + length v) (u @ v @ w)
     = u @ cap_words (u = [] \<or> word_break (last u)) v @ w"
proof (induction v arbitrary: u)
  case Nil
  then show ?case by (simp add: capitalize_from.simps)
next
  case (Cons c v)
  let ?start = "u = [] \<or> word_break (last u)"
  let ?c = "if ?start then toupper c else c"
  have prev: "u \<noteq> [] \<Longrightarrow> (u @ c # v @ w) ! (length u - 1) = last u"
    by (simp add: nth_append last_conv_nth)
  have "capitalize_from (length u) (length u + length (c # v)) (u @ (c # v) @ w)
      = capitalize_from (Suc (length u)) (length u + length (c # v)) (u @ ?c # v @ w)"
    using prev by (subst capitalize_from.simps) (auto simp: word_break_def)
  also have "\<dots> = capitalize_from (length (u @ [?c])) (length (u @ [?c]) + length v) ((u @ [?c]) @ v @ w)"
    by simp
  also have "\<dots> = (u @ [?c]) @ cap_words (word_break ?c) v @ w"
    by (subst Cons.IH) simp
  finally show ?case by simp
qed

lemma length_toLowerCaseString [simp]: "length (toLowerCaseString s) = length s"
  by (simp add: toLowerCaseString_def)

text \<open>
  \<^verbatim>\<open>capitalizeWords\<close> lowers the string and then capitalises words only in its first
  \<open>length mod 256\<close> characters, because the loop bound is an 8-bit integer; the rest stays lower case.
\<close>

theorem capitalizeWords_prefix:
  "capitalizeWords source =
     (let lower = toLowerCaseString source; n = length source mod 256
      in cap_words True (take n lower) @ drop n lower)"
proof -
  let ?l = "toLowerCaseString source"
  let ?n = "length source mod 256"
  have sz: "unat (of_nat (length ?l) :: u8) = ?n" by (simp add: unat_of_nat)
  have "length (take ?n ?l) = ?n" by simp
  then show ?thesis
    using capitalize_from_append [of "[]" "take ?n ?l" "drop ?n ?l"]
    using sz by (simp add: capitalizeWords_def Let_def)
qed

section \<open>Addresses as text\<close>

definition dec_val :: "string \<Rightarrow> nat" where
  "dec_val = foldl (\<lambda>a c. a * 10 + (of_char c - 48)) 0"

lemma dec_val_dec_string: "dec_val (dec_string n) = n"
proof (induction n rule: dec_string.induct)
  case (1 n)
  show ?case
  proof (cases "n < 10")
    case True
    then show ?thesis by (simp add: dec_string.simps [of n] dec_val_def of_char_of)
  next
    case False
    with 1 have "foldl (\<lambda>a c. a * 10 + (of_char c - 48)) 0 (dec_string (n div 10)) = n div 10"
      by (simp add: dec_val_def)
    with False show ?thesis by (simp add: dec_string.simps [of n] dec_val_def of_char_of)
  qed
qed

lemma dec_string_digits: "c \<in> set (dec_string n) \<Longrightarrow> 48 \<le> (of_char c :: nat) \<and> (of_char c :: nat) \<le> 57"
proof (induction n rule: dec_string.induct)
  case (1 n)
  then show ?case
    by (cases "n < 10") (auto simp: dec_string.simps [of n] of_char_of)
qed

lemma dec_string_no_dot: "CHR ''.'' \<notin> set (dec_string n)"
  using dec_string_digits [of "CHR ''.''" n] by auto

lemma dec_string_inj: "dec_string a = dec_string b \<Longrightarrow> a = b"
  by (metis dec_val_dec_string)

lemma split_at_first:
  "x \<notin> set u \<Longrightarrow> x \<notin> set v \<Longrightarrow> u @ x # s = v @ x # t \<Longrightarrow> u = v \<and> s = t"
proof (induction u arbitrary: v)
  case Nil
  then show ?case by (cases v) auto
next
  case (Cons c u)
  then show ?case by (cases v) auto
qed

lemma dec_string_dot_inj:
  assumes "dec_string a @ ''.'' @ s = dec_string b @ ''.'' @ t"
  shows "a = b \<and> s = t"
  using split_at_first [OF dec_string_no_dot [of a] dec_string_no_dot [of b]] assms
  by (auto dest: dec_string_inj)

lemma dec_string_length_byte: "n < 256 \<Longrightarrow> length (dec_string n) \<le> 3"
  by (subst dec_string.simps, subst dec_string.simps, subst dec_string.simps) auto

lemma ip_bytes_inj:
  fixes x y :: u32
  assumes "x AND 0xFF = y AND 0xFF" and "drop_bit 8 x AND 0xFF = drop_bit 8 y AND 0xFF"
    and "drop_bit 16 x AND 0xFF = drop_bit 16 y AND 0xFF" and "drop_bit 24 x = drop_bit 24 y"
  shows "x = y"
proof (rule bit_word_eqI)
  fix n
  assume "n < LENGTH(32)"
  then consider "n < 8" | "8 \<le> n" "n < 16" | "16 \<le> n" "n < 24" | "24 \<le> n" by fastforce
  then show "bit x n = bit y n"
  proof cases
    case 1
    have "bit (x AND mask 8) n = bit (y AND mask 8) n" using assms(1) by (simp add: mask_eq_exp_minus_1)
    with 1 show ?thesis by (simp add: bit_simps)
  next
    case 2
    have "bit (drop_bit 8 x AND mask 8) (n - 8) = bit (drop_bit 8 y AND mask 8) (n - 8)"
      using assms(2) by (simp add: mask_eq_exp_minus_1)
    with 2 show ?thesis by (auto simp: bit_simps less_diff_conv2)
  next
    case 3
    have "bit (drop_bit 16 x AND mask 8) (n - 16) = bit (drop_bit 16 y AND mask 8) (n - 16)"
      using assms(3) by (simp add: mask_eq_exp_minus_1)
    with 3 show ?thesis by (auto simp: bit_simps less_diff_conv2)
  next
    case 4
    have "bit (drop_bit 24 x) (n - 24) = bit (drop_bit 24 y) (n - 24)" using assms(4) by simp
    with 4 show ?thesis by (simp add: bit_simps)
  qed
qed

lemma byte_of_word_bound:
  "unat (x AND 0xFF :: u32) < 256" "unat (drop_bit 24 x :: u32) < 256"
proof -
  have "x AND 0xFF \<le> (0xFF :: u32)" by (rule word_and_le1)
  then show "unat (x AND 0xFF :: u32) < 256" by (simp add: word_le_nat_alt)
  have "unat x < 2 ^ 32" using unsigned_less [of x, where ?'a = nat] by simp
  then show "unat (drop_bit 24 x :: u32) < 256"
    by (simp add: unsigned_drop_bit_eq drop_bit_nat_def take_bit_nat_eq_self less_mult_imp_div_less)
qed

text \<open>
  The dotted text of an address fits the 17-byte buffer it is printed into, with its
  terminator, and determines the address.
\<close>

theorem convertIPToString_fits_and_injective:
  "length (convertIPToString ip) + 1 \<le> 17 \<and>
   (convertIPToString ip = convertIPToString ip' \<longrightarrow> ip = ip')"
proof
  show "length (convertIPToString ip) + 1 \<le> 17"
    using dec_string_length_byte [OF byte_of_word_bound(1) [of ip]]
      dec_string_length_byte [OF byte_of_word_bound(1) [of "drop_bit 8 ip"]]
      dec_string_length_byte [OF byte_of_word_bound(1) [of "drop_bit 16 ip"]]
      dec_string_length_byte [OF byte_of_word_bound(2) [of ip]]
    by (simp add: convertIPToString_def)
  show "convertIPToString ip = convertIPToString ip' \<longrightarrow> ip = ip'"
  proof
    assume "convertIPToString ip = convertIPToString ip'"
    then have "unat (ip AND 0xFF) = unat (ip' AND 0xFF)
      \<and> unat (drop_bit 8 ip AND 0xFF) = unat (drop_bit 8 ip' AND 0xFF)
      \<and> unat (drop_bit 16 ip AND 0xFF) = unat (drop_bit 16 ip' AND 0xFF)
      \<and> unat (drop_bit 24 ip) = unat (drop_bit 24 ip')"
      unfolding convertIPToString_def by (metis dec_string_dot_inj dec_string_inj)
    then show "ip = ip'" using ip_bytes_inj [of ip ip'] by (simp only: word_unat_eq_iff)
  qed
qed

theorem convertIPToString_fits_and_injective_witness:
  "convertIPToString 0x0100007F = ''127.0.0.1'' \<and> length (convertIPToString 0x0100007F) + 1 \<le> 17"
proof -
  have "convertIPToString 0x0100007F = ''127.0.0.1''" by code_simp
  then show ?thesis using convertIPToString_fits_and_injective [of "0x0100007F" 0] by simp
qed

section \<open>Names\<close>

lemma check_tokens_VALID:
  "check_tokens toks = VALID \<longleftrightarrow> (\<forall>t \<in> set toks. 2 \<le> length t \<and> t \<notin> set prohibitedWords)"
  by (induction toks rule: check_tokens.induct) auto

text \<open>
  \<^verbatim>\<open>validateName\<close> accepts a name exactly when it has 3 to 14 letters, apostrophes and blanks
  and each of its parts has at least two characters and is not a prohibited word.
\<close>

theorem validateName_VALID:
  "validateName split name = VALID \<longleftrightarrow>
     3 \<le> length name \<and> length name \<le> 14 \<and> list_all valid_char name
     \<and> list_all (\<lambda>t. 2 \<le> length t \<and> t \<notin> set prohibitedWords) (split name)"
  by (auto simp: validateName_def Let_def check_tokens_VALID list_all_iff)

end
