(* ===== verification/Geometry.thy ===== *)
theory Geometry
  imports Strings
begin

text \<open>
  Map coordinates: \<^verbatim>\<open>game/movement/position.h\<close>, \<^verbatim>\<open>position.cpp\<close> and the direction helpers of
  \<^verbatim>\<open>utils/tools.cpp\<close>. Coordinates keep their widths, so stepping off the map's edge wraps around
  as the C++ does.
\<close>

section \<open>Directions and positions\<close>

datatype Direction =
    DIRECTION_NORTH | DIRECTION_EAST | DIRECTION_SOUTH | DIRECTION_WEST
  | DIRECTION_SOUTHWEST | DIRECTION_SOUTHEAST | DIRECTION_NORTHWEST | DIRECTION_NORTHEAST
  | DIRECTION_NONE

definition DIRECTION_DIAGONAL_MASK :: u8 where
  "DIRECTION_DIAGONAL_MASK = 4"

fun direction_value :: "Direction \<Rightarrow> u8" where
  "direction_value DIRECTION_NORTH = 0"
| "direction_value DIRECTION_EAST = 1"
| "direction_value DIRECTION_SOUTH = 2"
| "direction_value DIRECTION_WEST = 3"
| "direction_value DIRECTION_SOUTHWEST = DIRECTION_DIAGONAL_MASK OR 0"
| "direction_value DIRECTION_SOUTHEAST = DIRECTION_DIAGONAL_MASK OR 1"
| "direction_value DIRECTION_NORTHWEST = DIRECTION_DIAGONAL_MASK OR 2"
| "direction_value DIRECTION_NORTHEAST = DIRECTION_DIAGONAL_MASK OR 3"
| "direction_value DIRECTION_NONE = 8"

datatype Position = Position (pos_x: u16) (pos_y: u16) (pos_z: u8)

definition getX :: "Position \<Rightarrow> int" where "getX p = uint (pos_x p)"
definition getY :: "Position \<Rightarrow> int" where "getY p = uint (pos_y p)"
definition getZ :: "Position \<Rightarrow> int" where "getZ p = uint (pos_z p)"

definition getOffsetX :: "Position \<Rightarrow> Position \<Rightarrow> int" where
  "getOffsetX p1 p2 = getX p1 - getX p2"

definition getOffsetY :: "Position \<Rightarrow> Position \<Rightarrow> int" where
  "getOffsetY p1 p2 = getY p1 - getY p2"

definition getOffsetZ :: "Position \<Rightarrow> Position \<Rightarrow> int" where
  "getOffsetZ p1 p2 = getZ p1 - getZ p2"

definition getDistanceX :: "Position \<Rightarrow> Position \<Rightarrow> int" where
  "getDistanceX p1 p2 = \<bar>getOffsetX p1 p2\<bar>"

definition getDistanceY :: "Position \<Rightarrow> Position \<Rightarrow> int" where
  "getDistanceY p1 p2 = \<bar>getOffsetY p1 p2\<bar>"

definition getDistanceZ :: "Position \<Rightarrow> Position \<Rightarrow> int" where
  "getDistanceZ p1 p2 = \<bar>getOffsetZ p1 p2\<bar>"

definition areInRange2 :: "int \<Rightarrow> int \<Rightarrow> Position \<Rightarrow> Position \<Rightarrow> bool" where
  "areInRange2 deltax deltay p1 p2 \<longleftrightarrow> getDistanceX p1 p2 \<le> deltax \<and> getDistanceY p1 p2 \<le> deltay"

definition areInRange3 :: "int \<Rightarrow> int \<Rightarrow> int \<Rightarrow> Position \<Rightarrow> Position \<Rightarrow> bool" where
  "areInRange3 deltax deltay deltaz p1 p2 \<longleftrightarrow>
     getDistanceX p1 p2 \<le> deltax \<and> getDistanceY p1 p2 \<le> deltay \<and> getDistanceZ p1 p2 \<le> deltaz"

definition pos_less :: "Position \<Rightarrow> Position \<Rightarrow> bool" where
  "pos_less q p \<longleftrightarrow>
     (if pos_z q < pos_z p then True else if pos_z q > pos_z p then False
      else if pos_y q < pos_y p then True else if pos_y q > pos_y p then False
      else if pos_x q < pos_x p then True else if pos_x q > pos_x p then False
      else False)"

definition pos_greater :: "Position \<Rightarrow> Position \<Rightarrow> bool" where
  "pos_greater q p \<longleftrightarrow> \<not> pos_less q p"

definition pos_eq :: "Position \<Rightarrow> Position \<Rightarrow> bool" where
  "pos_eq q p \<longleftrightarrow> pos_x p = pos_x q \<and> pos_y p = pos_y q \<and> pos_z p = pos_z q"

definition pos_neq :: "Position \<Rightarrow> Position \<Rightarrow> bool" where
  "pos_neq q p \<longleftrightarrow> pos_x p \<noteq> pos_x q \<or> pos_y p \<noteq> pos_y q \<or> pos_z p \<noteq> pos_z q"

definition pos_plus :: "Position \<Rightarrow> Position \<Rightarrow> Position" where
  "pos_plus q p1 = Position (pos_x q + pos_x p1) (pos_y q + pos_y p1) (pos_z q + pos_z p1)"

definition pos_minus :: "Position \<Rightarrow> Position \<Rightarrow> Position" where
  "pos_minus q p1 = Position (pos_x q - pos_x p1) (pos_y q - pos_y p1) (pos_z q - pos_z p1)"

definition pos_toString :: "Position \<Rightarrow> string" where
  "pos_toString p = ''( '' @ dec_string (nat (getX p)) @ '' / '' @ dec_string (nat (getY p))
     @ '' / '' @ dec_string (nat (getZ p)) @ '' )''"

text \<open>\<^verbatim>\<open>std::setw(n) << std::setfill('0')\<close>.\<close>

definition pad0 :: "nat \<Rightarrow> string \<Rightarrow> string" where
  "pad0 n s = replicate (n - length s) (CHR ''0'') @ s"

definition pos_print :: "Position \<Rightarrow> string" where
  "pos_print pos = ''( '' @ pad0 5 (dec_string (unat (pos_x pos)))
     @ '' / '' @ pad0 5 (dec_string (unat (pos_y pos)))
     @ '' / '' @ pad0 3 (dec_string (nat (getZ pos))) @ '' )''"

fun direction_print :: "Direction \<Rightarrow> string" where
  "direction_print DIRECTION_NORTH = ''North''"
| "direction_print DIRECTION_EAST = ''East''"
| "direction_print DIRECTION_WEST = ''West''"
| "direction_print DIRECTION_SOUTH = ''South''"
| "direction_print DIRECTION_SOUTHWEST = ''South-West''"
| "direction_print DIRECTION_SOUTHEAST = ''South-East''"
| "direction_print DIRECTION_NORTHWEST = ''North-West''"
| "direction_print DIRECTION_NORTHEAST = ''North-East''"
| "direction_print DIRECTION_NONE = []"

section \<open>Direction helpers\<close>

definition getDirection :: "string \<Rightarrow> Direction" where
  "getDirection str =
     (if str \<in> {''north'', ''n'', ''0''} then DIRECTION_NORTH
      else if str \<in> {''east'', ''e'', ''1''} then DIRECTION_EAST
      else if str \<in> {''south'', ''s'', ''2''} then DIRECTION_SOUTH
      else if str \<in> {''west'', ''w'', ''3''} then DIRECTION_WEST
      else if str \<in> {''southwest'', ''south west'', ''south-west'', ''sw'', ''4''} then DIRECTION_SOUTHWEST
      else if str \<in> {''southeast'', ''south east'', ''south-east'', ''se'', ''5''} then DIRECTION_SOUTHEAST
      else if str \<in> {''northwest'', ''north west'', ''north-west'', ''nw'', ''6''} then DIRECTION_NORTHWEST
      else if str \<in> {''northeast'', ''north east'', ''north-east'', ''ne'', ''7''} then DIRECTION_NORTHEAST
      else DIRECTION_NORTH)"

fun getNextPosition :: "Direction \<Rightarrow> Position \<Rightarrow> Position" where
  "getNextPosition DIRECTION_NORTH (Position a b c) = Position a (b - 1) c"
| "getNextPosition DIRECTION_SOUTH (Position a b c) = Position a (b + 1) c"
| "getNextPosition DIRECTION_WEST (Position a b c) = Position (a - 1) b c"
| "getNextPosition DIRECTION_EAST (Position a b c) = Position (a + 1) b c"
| "getNextPosition DIRECTION_SOUTHWEST (Position a b c) = Position (a - 1) (b + 1) c"
| "getNextPosition DIRECTION_NORTHWEST (Position a b c) = Position (a - 1) (b - 1) c"
| "getNextPosition DIRECTION_NORTHEAST (Position a b c) = Position (a + 1) (b - 1) c"
| "getNextPosition DIRECTION_SOUTHEAST (Position a b c) = Position (a + 1) (b + 1) c"
| "getNextPosition DIRECTION_NONE p = p"

definition getDirectionTo :: "Position \<Rightarrow> Position \<Rightarrow> Direction" where
  "getDirectionTo from to =
     (let x_offset = getOffsetX from to;
          dir = (if x_offset < 0 then DIRECTION_EAST else DIRECTION_WEST);
          x_offset' = (if x_offset < 0 then \<bar>x_offset\<bar> else x_offset);
          y_offset = getOffsetY from to
      in if y_offset \<ge> 0 then
           (if y_offset > x_offset' then DIRECTION_NORTH
            else if y_offset = x_offset' then
              (if dir = DIRECTION_EAST then DIRECTION_NORTHEAST else DIRECTION_NORTHWEST)
            else dir)
         else
           (let y_offset' = \<bar>y_offset\<bar> in
            if y_offset' > x_offset' then DIRECTION_SOUTH
            else if y_offset' = x_offset' then
              (if dir = DIRECTION_EAST then DIRECTION_SOUTHEAST else DIRECTION_SOUTHWEST)
            else dir))"

section \<open>The order on positions\<close>

text \<open>The order of the source, as the library's linear order.\<close>

lemma pos_less_lex:
  "pos_less q p \<longleftrightarrow> pos_z q < pos_z p \<or> pos_z q = pos_z p \<and>
     (pos_y q < pos_y p \<or> pos_y q = pos_y p \<and> pos_x q < pos_x p)"
  by (auto simp: pos_less_def)

instantiation Position :: linorder
begin

definition less_Position :: "Position \<Rightarrow> Position \<Rightarrow> bool" where
  "less_Position q p \<longleftrightarrow> pos_less q p"

definition less_eq_Position :: "Position \<Rightarrow> Position \<Rightarrow> bool" where
  "less_eq_Position q p \<longleftrightarrow> pos_less q p \<or> q = p"

instance
proof
  fix p q r :: Position
  show "p < q \<longleftrightarrow> p \<le> q \<and> \<not> q \<le> p"
    by (auto simp: less_Position_def less_eq_Position_def pos_less_lex)
  show "p \<le> p" by (simp add: less_eq_Position_def)
  show "p \<le> q \<Longrightarrow> q \<le> r \<Longrightarrow> p \<le> r"
    unfolding less_eq_Position_def pos_less_lex by (elim disjE conjE) auto
  show "p \<le> q \<Longrightarrow> q \<le> p \<Longrightarrow> p = q"
    by (auto simp: less_eq_Position_def pos_less_lex)
  show "p \<le> q \<or> q \<le> p"
    unfolding less_eq_Position_def pos_less_lex by (auto intro: Position.expand)
qed

end

lemma pos_eq_iff: "pos_eq q p \<longleftrightarrow> q = p"
  by (auto simp: pos_eq_def Position.expand)

lemma pos_neq_iff: "pos_neq q p \<longleftrightarrow> q \<noteq> p"
  by (auto simp: pos_neq_def Position.expand)

text \<open>
  \<^verbatim>\<open>operator<\<close> is a strict total order, but \<^verbatim>\<open>operator>\<close> is its complement: it holds of a position
  and itself, and is the reverse of \<^verbatim>\<open>operator<\<close> only on different positions.
\<close>

theorem position_order:
  "pos_greater p p \<and> (pos_greater q p \<longleftrightarrow> pos_less p q \<or> q = p)
   \<and> \<not> pos_less p p \<and> (pos_less q p \<or> pos_less p q \<or> q = p)"
  unfolding pos_greater_def less_Position_def [symmetric] by auto

section \<open>Stepping\<close>

fun opposite :: "Direction \<Rightarrow> Direction" where
  "opposite DIRECTION_NORTH = DIRECTION_SOUTH"
| "opposite DIRECTION_SOUTH = DIRECTION_NORTH"
| "opposite DIRECTION_EAST = DIRECTION_WEST"
| "opposite DIRECTION_WEST = DIRECTION_EAST"
| "opposite DIRECTION_SOUTHWEST = DIRECTION_NORTHEAST"
| "opposite DIRECTION_NORTHEAST = DIRECTION_SOUTHWEST"
| "opposite DIRECTION_SOUTHEAST = DIRECTION_NORTHWEST"
| "opposite DIRECTION_NORTHWEST = DIRECTION_SOUTHEAST"
| "opposite DIRECTION_NONE = DIRECTION_NONE"

lemma step_back: "getNextPosition (opposite d) (getNextPosition d p) = p"
  by (cases p; cases d) auto

lemma uint_pred16:
  assumes "(a :: u16) \<noteq> 0"
  shows "uint (a - 1) = uint a - 1"
proof -
  have "uint a \<noteq> 0" using assms by (simp add: unsigned_eq_0_iff)
  moreover have "0 \<le> uint a" by (rule uint_ge_0)
  ultimately have "0 < uint a" by linarith
  then show ?thesis
    using unsigned_less [of a, where ?'a = int] by (simp add: uint_word_ariths)
qed

lemma uint_succ16:
  assumes "(a :: u16) \<noteq> 0xFFFF"
  shows "uint (a + 1) = uint a + 1"
proof -
  have max: "uint (0xFFFF :: u16) = 0xFFFF" by simp
  have "uint a \<noteq> 0xFFFF" using assms unfolding word_uint_eq_iff max .
  then show ?thesis
    using unsigned_less [of a, where ?'a = int] by (simp add: uint_word_ariths)
qed

text \<open>A position with a neighbour in every direction.\<close>

definition interior :: "Position \<Rightarrow> bool" where
  "interior p \<longleftrightarrow> pos_x p \<noteq> 0 \<and> pos_x p \<noteq> 0xFFFF \<and> pos_y p \<noteq> 0 \<and> pos_y p \<noteq> 0xFFFF"

text \<open>
  Stepping one tile and stepping back returns to the start, also across the edge of the
  16-bit coordinates; away from the edge \<^verbatim>\<open>getDirectionTo\<close> recovers the direction of the step.
\<close>

theorem step_roundtrip:
  "getNextPosition (opposite d) (getNextPosition d p) = p
   \<and> (interior p \<and> d \<noteq> DIRECTION_NONE \<longrightarrow> getDirectionTo p (getNextPosition d p) = d)"
  by (cases p; cases d)
    (auto simp: interior_def getDirectionTo_def getOffsetX_def getOffsetY_def getX_def getY_def
      uint_pred16 uint_succ16 Let_def)

theorem step_roundtrip_witness:
  "interior (Position 1000 1000 7) \<and> DIRECTION_NORTHEAST \<noteq> DIRECTION_NONE \<and>
   getDirectionTo (Position 1000 1000 7) (getNextPosition DIRECTION_NORTHEAST (Position 1000 1000 7))
     = DIRECTION_NORTHEAST"
proof -
  have "interior (Position 1000 1000 7)" by (simp add: interior_def)
  then show ?thesis using step_roundtrip [of DIRECTION_NORTHEAST "Position 1000 1000 7"] by simp
qed

section \<open>Ranges\<close>

lemma distance_sym:
  "getDistanceX p q = getDistanceX q p" "getDistanceY p q = getDistanceY q p"
  "getDistanceZ p q = getDistanceZ q p"
  by (auto simp: getDistanceX_def getDistanceY_def getDistanceZ_def getOffsetX_def getOffsetY_def
      getOffsetZ_def)

lemma areInRange3_sym: "areInRange3 dx dy dz p q = areInRange3 dx dy dz q p"
  by (simp add: areInRange3_def distance_sym)

lemma areInRange3_refl: "0 \<le> dx \<Longrightarrow> 0 \<le> dy \<Longrightarrow> 0 \<le> dz \<Longrightarrow> areInRange3 dx dy dz p p"
  by (simp add: areInRange3_def getDistanceX_def getDistanceY_def getDistanceZ_def getOffsetX_def
      getOffsetY_def getOffsetZ_def)

text \<open>The text forms of a direction are read back, with any of its spellings.\<close>

lemma getDirection_print_all:
  "list_all (\<lambda>d. getDirection (toLowerCaseString (direction_print d)) = d)
     [DIRECTION_NORTH, DIRECTION_EAST, DIRECTION_SOUTH, DIRECTION_WEST, DIRECTION_SOUTHWEST,
      DIRECTION_SOUTHEAST, DIRECTION_NORTHWEST, DIRECTION_NORTHEAST]"
  by code_simp

lemma getDirection_print:
  "d \<noteq> DIRECTION_NONE \<Longrightarrow> getDirection (toLowerCaseString (direction_print d)) = d"
  using getDirection_print_all by (cases d) auto

end
