(* ===== verification/Digest.thy ===== *)
theory Digest
  imports Strings
begin

text \<open>
  Checksums and digests of \<^verbatim>\<open>utils/tools.cpp\<close>: the Adler-32 checksum of a packet, the streaming
  SHA-1 of a password and the one-time token computed from it. The transcriptions keep the loops of
  the source; the lemmas compare them with reference definitions.
\<close>

section \<open>Adler-32\<close>

definition adler_mod :: u32 where "adler_mod = 65521"

definition adler_byte :: "u32 \<times> u32 \<Rightarrow> u8 \<Rightarrow> u32 \<times> u32" where
  "adler_byte s d = (case s of (a, b) \<Rightarrow> let a' = a + ucast d in (a', b + a'))"

function adler_loop :: "u8 list \<Rightarrow> u32 \<times> u32 \<Rightarrow> u32 \<times> u32" where
  "adler_loop data s =
     (if length data > 0 then
        (let tmp = (if length data > 5552 then 5552 else length data) in
         case foldl adler_byte s (take tmp data) of
           (a, b) \<Rightarrow> adler_loop (drop tmp data) (a mod adler_mod, b mod adler_mod))
      else s)"
  by pat_completeness auto
termination
  by (relation "measure (\<lambda>(data, s). length data)") auto

declare adler_loop.simps [simp del]

definition adlerChecksum :: "u8 list \<Rightarrow> u32" where
  "adlerChecksum data =
     (if length data > 24590 then 0
      else case adler_loop data (1, 0) of (a, b) \<Rightarrow> push_bit 16 b OR a)"

section \<open>SHA-1\<close>

definition circularShift :: "nat \<Rightarrow> u32 \<Rightarrow> u32" where
  "circularShift bits v = push_bit bits v OR drop_bit (32 - bits) v"

type_synonym sha_state = "u32 \<times> u32 \<times> u32 \<times> u32 \<times> u32"

definition sha_word :: "u8 list \<Rightarrow> nat \<Rightarrow> u32" where
  "sha_word block i =
     (let offset = 4 * i in
      push_bit 24 (ucast (block ! offset)) OR push_bit 16 (ucast (block ! (offset + 1)))
        OR push_bit 8 (ucast (block ! (offset + 2))) OR ucast (block ! (offset + 3)))"

definition sha_schedule :: "u8 list \<Rightarrow> u32 list" where
  "sha_schedule block =
     foldl (\<lambda>W i. W @ [circularShift 1 (W ! (i - 3) XOR W ! (i - 8) XOR W ! (i - 14) XOR W ! (i - 16))])
       (map (sha_word block) [0..<16]) [16..<80]"

definition sha_round :: "(u32 \<Rightarrow> u32 \<Rightarrow> u32 \<Rightarrow> u32) \<Rightarrow> u32 \<Rightarrow> u32 list \<Rightarrow> sha_state \<Rightarrow> nat \<Rightarrow> sha_state" where
  "sha_round f k W s i =
     (case s of (A, B, C, D, E) \<Rightarrow>
        (circularShift 5 A + f B C D + E + W ! i + k, A, circularShift 30 B, C, D))"

definition processSHA1MessageBlock :: "u8 list \<Rightarrow> sha_state \<Rightarrow> sha_state" where
  "processSHA1MessageBlock block H =
     (let W = sha_schedule block;
          s1 = foldl (sha_round (\<lambda>B C D. (B AND C) OR (NOT B AND D)) 0x5A827999 W) H [0..<20];
          s2 = foldl (sha_round (\<lambda>B C D. B XOR C XOR D) 0x6ED9EBA1 W) s1 [20..<40];
          s3 = foldl (sha_round (\<lambda>B C D. (B AND C) OR (B AND D) OR (C AND D)) 0x8F1BBCDC W) s2 [40..<60];
          s4 = foldl (sha_round (\<lambda>B C D. B XOR C XOR D) 0xCA62C1D6 W) s3 [60..<80]
      in case H of (h0, h1, h2, h3, h4) \<Rightarrow> case s4 of (A, B, C, D, E) \<Rightarrow>
           (h0 + A, h1 + B, h2 + C, h3 + D, h4 + E))"

text \<open>The variables of \<^verbatim>\<open>transformToSHA1\<close>; the block starts uninitialised.\<close>

record sha_vars =
  sha_H :: sha_state
  sha_block :: "u8 list"
  sha_index :: nat
  length_low :: u32
  length_high :: u32

definition sha_init :: "u8 list \<Rightarrow> sha_vars" where
  "sha_init block = \<lparr>sha_H = (0x67452301, 0xEFCDAB89, 0x98BADCFE, 0x10325476, 0xC3D2E1F0),
     sha_block = block, sha_index = 0, length_low = 0, length_high = 0\<rparr>"

definition sha_feed :: "sha_vars \<Rightarrow> u8 \<Rightarrow> sha_vars" where
  "sha_feed v ch =
     (let v1 = v\<lparr>sha_block := (sha_block v)[sha_index v := ch], sha_index := sha_index v + 1\<rparr>;
          v2 = v1\<lparr>length_low := length_low v1 + 8\<rparr>;
          v3 = (if length_low v2 = 0 then v2\<lparr>length_high := length_high v2 + 1\<rparr> else v2)
      in if sha_index v3 = 64
         then v3\<lparr>sha_H := processSHA1MessageBlock (sha_block v3) (sha_H v3), sha_index := 0\<rparr>
         else v3)"

text \<open>\<^verbatim>\<open>while (index < stop) messageBlock[index++] = 0;\<close>\<close>

definition sha_zeros :: "nat \<Rightarrow> sha_vars \<Rightarrow> sha_vars" where
  "sha_zeros stop v =
     v\<lparr>sha_block := take (sha_index v) (sha_block v) @ replicate (stop - sha_index v) 0
          @ drop (max stop (sha_index v)) (sha_block v),
       sha_index := max stop (sha_index v)\<rparr>"

definition be_bytes :: "u32 \<Rightarrow> u8 list" where
  "be_bytes w = [ucast (drop_bit 24 w), ucast (drop_bit 16 w), ucast (drop_bit 8 w), ucast w]"

definition sha_finish :: "sha_vars \<Rightarrow> sha_state" where
  "sha_finish v =
     (let v1 = v\<lparr>sha_block := (sha_block v)[sha_index v := 0x80], sha_index := sha_index v + 1\<rparr>;
          v2 = (if sha_index v1 > 56
                then (let w = sha_zeros 64 v1 in
                      w\<lparr>sha_H := processSHA1MessageBlock (sha_block w) (sha_H w), sha_index := 0\<rparr>)
                else v1);
          v3 = sha_zeros 56 v2;
          block = take 56 (sha_block v3) @ be_bytes (length_high v3) @ be_bytes (length_low v3)
      in processSHA1MessageBlock block (sha_H v3))"

definition hex_digit :: "nat \<Rightarrow> char" where
  "hex_digit n = ''0123456789abcdef'' ! n"

definition hex_byte :: "u8 \<Rightarrow> string" where
  "hex_byte b = [hex_digit (unat (drop_bit 4 b)), hex_digit (unat (b AND 15))]"

definition sha_hex :: "sha_state \<Rightarrow> string" where
  "sha_hex H = (case H of (h0, h1, h2, h3, h4) \<Rightarrow>
     concat (map hex_byte (concat (map be_bytes [h0, h1, h2, h3, h4]))))"

definition transformToSHA1 :: "u8 list \<Rightarrow> string" where
  "transformToSHA1 input = sha_hex (sha_finish (foldl sha_feed (sha_init (replicate 64 0)) input))"

section \<open>One-time tokens\<close>

definition AUTHENTICATOR_DIGITS :: nat where "AUTHENTICATOR_DIGITS = 6"

text \<open>
  \<^verbatim>\<open>std::stol(s, nullptr, 16)\<close> on a string of lower-case hexadecimal digits; the exception it throws
  on a string that starts with no digit is \<open>None\<close>.
\<close>

definition hex_val :: "char \<Rightarrow> nat option" where
  "hex_val c =
     (let n = of_char c :: nat in
      if 48 \<le> n \<and> n \<le> 57 then Some (n - 48) else if 97 \<le> n \<and> n \<le> 102 then Some (n - 87) else None)"

fun stol16_from :: "nat \<Rightarrow> string \<Rightarrow> nat" where
  "stol16_from a [] = a"
| "stol16_from a (c # cs) = (case hex_val c of None \<Rightarrow> a | Some d \<Rightarrow> stol16_from (16 * a + d) cs)"

definition stol16 :: "string \<Rightarrow> nat option" where
  "stol16 s = (case s of [] \<Rightarrow> None
     | c # cs \<Rightarrow> (case hex_val c of None \<Rightarrow> None | Some d \<Rightarrow> Some (stol16_from d cs)))"

fun ticks_bytes :: "nat \<Rightarrow> u32 \<Rightarrow> u8 list" where
  "ticks_bytes 0 ticks = []"
| "ticks_bytes (Suc i) ticks = ticks_bytes i (drop_bit 8 ticks) @ [ucast (ticks AND 0xFF)]"

fun hex_to_bytes :: "string \<Rightarrow> u8 list option" where
  "hex_to_bytes (c # d # s) =
     (case stol16 [c, d] of None \<Rightarrow> None
      | Some v \<Rightarrow> (case hex_to_bytes s of None \<Rightarrow> None | Some bs \<Rightarrow> Some (of_nat v # bs)))"
| "hex_to_bytes [c] =
     (case stol16 [c] of None \<Rightarrow> None | Some v \<Rightarrow> Some [of_nat v])"
| "hex_to_bytes [] = Some []"

definition key_pad :: "u8 \<Rightarrow> u8 list \<Rightarrow> u8 list" where
  "key_pad c key = map (\<lambda>k. c XOR k) key @ replicate (64 - length key) c"

definition string_bytes :: "string \<Rightarrow> u8 list" where
  "string_bytes s = map of_char s"

definition last_digits :: "nat \<Rightarrow> string" where
  "last_digits truncHash =
     (let message = dec_string truncHash; hashLen = length message;
          tail = drop (hashLen - min hashLen AUTHENTICATOR_DIGITS) message
      in replicate (AUTHENTICATOR_DIGITS - min hashLen AUTHENTICATOR_DIGITS) (CHR ''0'') @ tail)"

text \<open>A key of more than 64 bytes is written past the end of the pads.\<close>

definition generateToken :: "u8 list \<Rightarrow> u32 \<Rightarrow> string option" where
  "generateToken key ticks =
     (if length key > 64 then None
      else
        (let message = 0 # ticks_bytes 7 ticks;
             inner = transformToSHA1 (key_pad 0x36 key @ message)
         in case hex_to_bytes inner of None \<Rightarrow> None | Some bs \<Rightarrow>
            (let digest = transformToSHA1 (key_pad 0x5C key @ bs) in
             case stol16 (take 1 (drop 39 digest)) of None \<Rightarrow> None | Some v \<Rightarrow>
             (let offset = unat (of_nat v AND 0xF :: u32) in
              case stol16 (take 8 (drop (2 * offset) digest)) of None \<Rightarrow> None | Some h \<Rightarrow>
                Some (last_digits (unat (of_nat h AND 0x7FFFFFFF :: u32)))))))"

section \<open>Adler-32 computes the checksum without overflow\<close>

text \<open>Reference: the two sums over unbounded numbers, reduced once at the end.\<close>

definition adler_nat :: "nat \<times> nat \<Rightarrow> u8 \<Rightarrow> nat \<times> nat" where
  "adler_nat s d = (case s of (a, b) \<Rightarrow> (a + unat d, b + (a + unat d)))"

definition adler_ref :: "u8 list \<Rightarrow> nat" where
  "adler_ref data = (case foldl adler_nat (1, 0) data of (a, b) \<Rightarrow> 65536 * (b mod 65521) + a mod 65521)"

lemma adler_nat_step: "foldl adler_nat (a, b) (d # ds) = foldl adler_nat (a + unat d, b + (a + unat d)) ds"
  by (simp add: adler_nat_def)

lemma adler_byte_of_nat:
  "foldl adler_byte (of_nat a, of_nat b) ds =
     (case foldl adler_nat (a, b) ds of (a', b') \<Rightarrow> (of_nat a', of_nat b'))"
proof (induction ds arbitrary: a b)
  case Nil
  then show ?case by simp
next
  case (Cons d ds)
  have "adler_byte (of_nat a, of_nat b) d = (of_nat (a + unat d), of_nat (b + (a + unat d)))"
    by (simp add: adler_byte_def Let_def)
  then show ?case by (simp only: foldl_Cons Cons.IH adler_nat_def prod.case)
qed

lemma adler_nat_mod:
  assumes "a mod 65521 = a' mod 65521" and "b mod 65521 = b' mod 65521"
    and "foldl adler_nat (a, b) ds = (p, q)" and "foldl adler_nat (a', b') ds = (p', q')"
  shows "p mod 65521 = p' mod 65521 \<and> q mod 65521 = q' mod 65521"
  using assms
proof (induction ds arbitrary: a b a' b')
  case Nil
  then show ?case by simp
next
  case (Cons d ds)
  have "(a + unat d) mod 65521 = (a' + unat d) mod 65521"
    using Cons.prems(1) by (rule mod_add_cong) simp
  moreover from Cons.prems(2) this have "(b + (a + unat d)) mod 65521 = (b' + (a' + unat d)) mod 65521"
    by (rule mod_add_cong)
  ultimately show ?case
    using Cons.IH Cons.prems(3,4) unfolding adler_nat_step by blast
qed

lemma adler_nat_bound:
  "foldl adler_nat (a, b) ds = (p, q) \<Longrightarrow>
     p \<le> a + 255 * length ds \<and> 2 * q \<le> 2 * b + 2 * length ds * a + 255 * length ds * (length ds + 1)"
proof (induction ds arbitrary: a b)
  case Nil
  then show ?case by simp
next
  case (Cons d ds)
  have d: "unat d \<le> 255" using unsigned_less [of d, where ?'a = nat] by simp
  let ?n = "length ds" and ?a = "a + unat d"
  let ?m = "length (d # ds)"
  from Cons.prems have IH: "p \<le> ?a + 255 * ?n \<and> 2 * q \<le> 2 * (b + ?a) + 2 * ?n * ?a + 255 * ?n * (?n + 1)"
    unfolding adler_nat_step by (rule Cons.IH)
  have "2 * (b + ?a) + 2 * ?n * ?a + 255 * ?n * (?n + 1)
      = 2 * b + 2 * ?m * a + 255 * ?n * (?n + 1) + 2 * (?m * unat d)"
    by (simp add: algebra_simps)
  also have "\<dots> \<le> 2 * b + 2 * ?m * a + 255 * ?n * (?n + 1) + 2 * (?m * 255)"
    using d by (intro add_left_mono mult_left_mono) auto
  also have "\<dots> = 2 * b + 2 * ?m * a + 255 * ?m * (?m + 1)" by (simp add: algebra_simps)
  finally show ?case using IH d by simp
qed

lemma adler_chunk:
  assumes "a < 65521" and "b < 65521" and "length ds \<le> 5552"
    and "foldl adler_nat (a, b) ds = (p, q)"
  shows "p < 2 ^ 32 \<and> q < 2 ^ 32"
proof -
  let ?n = "length ds"
  from adler_nat_bound [OF assms(4)] have p: "p \<le> a + 255 * ?n"
    and q: "2 * q \<le> 2 * b + 2 * ?n * a + 255 * ?n * (?n + 1)" by auto
  have "2 * ?n * a \<le> 2 * 5552 * 65520" using assms(1,3) by (intro mult_mono) auto
  moreover have "255 * ?n * (?n + 1) \<le> 255 * 5552 * 5553" using assms(3) by (intro mult_mono) auto
  ultimately have "2 * q \<le> 2 * b + 2 * 5552 * 65520 + 255 * 5552 * 5553" using q by linarith
  then show ?thesis using p assms(1-3) by simp
qed

lemma mod_adler_mod: "p < 2 ^ 32 \<Longrightarrow> (of_nat p :: u32) mod adler_mod = of_nat (p mod 65521)"
  by (simp add: word_unat_eq_iff adler_mod_def unat_mod_distrib unat_of_nat take_bit_nat_eq_self
      del: of_nat_mod)

lemma adler_loop_ref:
  assumes "a < 65521" and "b < 65521" and "foldl adler_nat (a, b) data = (p, q)"
  shows "adler_loop data (of_nat a, of_nat b) = (of_nat (p mod 65521), of_nat (q mod 65521))"
  using assms
proof (induction "length data" arbitrary: data a b p q rule: less_induct)
  case less
  show ?case
  proof (cases "data = []")
    case True
    with less.prems show ?thesis by (simp add: adler_loop.simps)
  next
    case False
    let ?tmp = "if length data > 5552 then 5552 else length data"
    obtain p1 q1 where c: "foldl adler_nat (a, b) (take ?tmp data) = (p1, q1)" by fastforce
    have small: "p1 < 2 ^ 32" "q1 < 2 ^ 32" using adler_chunk [OF less.prems(1,2) _ c] by auto
    have whole: "foldl adler_nat (p1, q1) (drop ?tmp data) = (p, q)"
      using less.prems(3) c by (metis append_take_drop_id foldl_append)
    obtain p2 q2 where r: "foldl adler_nat (p1 mod 65521, q1 mod 65521) (drop ?tmp data) = (p2, q2)"
      by fastforce
    have "adler_loop (drop ?tmp data) (of_nat (p1 mod 65521), of_nat (q1 mod 65521))
        = (of_nat (p2 mod 65521), of_nat (q2 mod 65521))"
      using False less.hyps r by (simp split: if_splits)
    moreover have "p2 mod 65521 = p mod 65521 \<and> q2 mod 65521 = q mod 65521"
      using adler_nat_mod [OF _ _ r whole] by simp
    ultimately show ?thesis
      using False c small
      by (subst adler_loop.simps) (simp add: adler_byte_of_nat mod_adler_mod del: of_nat_mod)
  qed
qed

lemma or_high_low: "(b :: u32) < 65536 \<Longrightarrow> a < 65536 \<Longrightarrow> unat (push_bit 16 b OR a) = 65536 * unat b + unat a"
proof -
  assume "b < 65536" and "a < 65536"
  then have nb: "unat b < 65536" and na: "unat a < 65536" by (simp_all add: word_less_nat_alt)
  have "take_bit 16 a = a" using na by (simp add: take_bit_eq_mod word_unat_eq_iff unat_mod_distrib)
  then have "push_bit 16 b OR a = push_bit 16 b + a"
    by (metis (no_types, lifting) bit_push_bit_iff bit_take_bit_iff disjunctive_add not_le)
  moreover have "unat (push_bit 16 b) = 65536 * unat b"
    using nb by (simp add: push_bit_eq_mult unat_word_ariths)
  ultimately show ?thesis using na nb by (simp add: unat_word_ariths)
qed

text \<open>
  On every packet the buffer can hold, the chunked 32-bit loop of \<^verbatim>\<open>adlerChecksum\<close> computes the
  Adler-32 checksum: summing 5552 bytes before each reduction never overflows 32 bits.
\<close>

theorem adlerChecksum_reference:
  assumes "length data \<le> 24590"
  shows "unat (adlerChecksum data) = adler_ref data"
proof -
  obtain p q where pq: "foldl adler_nat (1, 0) data = (p, q)" by fastforce
  let ?p = "p mod 65521" and ?q = "q mod 65521"
  have "adler_loop data (of_nat 1, of_nat 0) = (of_nat ?p, of_nat ?q)"
    by (rule adler_loop_ref [OF _ _ pq]) simp_all
  then have "adlerChecksum data = push_bit 16 (of_nat ?q) OR of_nat ?p"
    using assms by (simp add: adlerChecksum_def)
  moreover have "unat (of_nat ?p :: u32) = ?p" "unat (of_nat ?q :: u32) = ?q"
    by (simp_all add: unat_of_nat take_bit_nat_eq_self del: of_nat_mod)
  moreover from this have "(of_nat ?p :: u32) < 65536" "(of_nat ?q :: u32) < 65536"
    by (simp_all add: word_less_nat_alt del: of_nat_mod)
  ultimately show ?thesis using pq or_high_low by (simp add: adler_ref_def)
qed

theorem adlerChecksum_reference_witness:
  "length (string_bytes ''Wikipedia'') \<le> 24590 \<and>
   unat (adlerChecksum (string_bytes ''Wikipedia'')) = adler_ref (string_bytes ''Wikipedia'')"
proof -
  have "length (string_bytes ''Wikipedia'') \<le> 24590" by (simp add: string_bytes_def)
  then show ?thesis using adlerChecksum_reference by blast
qed

section \<open>The streaming digest is the digest of the padded message\<close>

function sha_blocks :: "sha_state \<Rightarrow> u8 list \<Rightarrow> sha_state \<times> u8 list" where
  "sha_blocks H bs =
     (if 64 \<le> length bs then sha_blocks (processSHA1MessageBlock (take 64 bs) H) (drop 64 bs)
      else (H, bs))"
  by pat_completeness auto
termination
  by (relation "measure (\<lambda>(H, bs). length bs)") auto

declare sha_blocks.simps [simp del]

definition sha_pad :: "u8 list \<Rightarrow> u8 list" where
  "sha_pad input =
     input @ [0x80] @ replicate ((119 - length input mod 64) mod 64) 0
       @ be_bytes (of_nat (8 * length input div 2 ^ 32)) @ be_bytes (of_nat (8 * length input))"

definition sha_start :: sha_state where
  "sha_start = (0x67452301, 0xEFCDAB89, 0x98BADCFE, 0x10325476, 0xC3D2E1F0)"

lemma length_be_bytes [simp]: "length (be_bytes w) = 4"
  by (simp add: be_bytes_def)

lemma sha_blocks_short: "length bs < 64 \<Longrightarrow> sha_blocks H bs = (H, bs)"
  by (simp add: sha_blocks.simps)

lemma sha_blocks_block:
  "length b = 64 \<Longrightarrow> sha_blocks H (b @ bs) = sha_blocks (processSHA1MessageBlock b H) bs"
  by (subst sha_blocks.simps) simp

text \<open>What is buffered is the part of the input after its last whole block.\<close>

definition sha_ok :: "sha_vars \<Rightarrow> u8 list \<Rightarrow> bool" where
  "sha_ok v r \<longleftrightarrow> length (sha_block v) = 64 \<and> sha_index v = length r \<and> length r < 64
     \<and> take (length r) (sha_block v) = r"

definition count_ok :: "sha_vars \<Rightarrow> nat \<Rightarrow> bool" where
  "count_ok v n \<longleftrightarrow> length_low v = of_nat (8 * n) \<and> length_high v = of_nat (8 * n div 2 ^ 32)"

lemma bits_carry:
  "(8 * Suc n) div 2 ^ 32 = 8 * n div 2 ^ 32 + (if (of_nat (8 * Suc n) :: u32) = 0 then 1 else 0 :: nat)"
proof -
  have "(of_nat (8 * Suc n) :: u32) = 0 \<longleftrightarrow> 2 ^ 32 dvd 8 * Suc n"
    by (simp only: word_of_nat_eq_0_iff) simp
  moreover have "(2 ^ 32 dvd 8 * Suc n) = ((2 ^ 29 :: nat) dvd Suc n)"
    using nat_mult_dvd_cancel_disj [of 8 "2 ^ 29" "Suc n"] by simp
  moreover have "8 * k div 2 ^ 32 = k div 2 ^ 29" for k :: nat
    using div_mult_mult1 [of 8 k "2 ^ 29"] by simp
  moreover have "Suc n div 2 ^ 29 = n div 2 ^ 29 + (if (2 ^ 29 :: nat) dvd Suc n then 1 else 0)"
    by (simp add: div_Suc dvd_eq_mod_eq_0)
  ultimately show ?thesis by simp
qed

lemma sha_feed_count: "count_ok v n \<Longrightarrow> count_ok (sha_feed v c) (Suc n)"
proof -
  assume ok: "count_ok v n"
  have low: "length_low v + 8 = of_nat (8 * Suc n)" using ok by (simp add: count_ok_def)
  have "length_high v + (if length_low v + 8 = 0 then 1 else 0) = of_nat (8 * Suc n div 2 ^ 32)"
    unfolding low bits_carry using ok by (auto simp: count_ok_def)
  with low show ?thesis
    by (cases "length_low v + 8 = 0") (simp_all add: count_ok_def sha_feed_def Let_def)
qed

lemma sha_feed_block:
  assumes "sha_ok v r" and "sha_blocks (sha_H v) (r @ [c]) = (H', r')"
  shows "sha_ok (sha_feed v c) r' \<and> sha_H (sha_feed v c) = H'"
proof (cases "length r = 63")
  case True
  then have r: "take 63 (sha_block v) = r" "length (sha_block v) = 64" "sha_index v = 63"
    using assms(1) by (auto simp: sha_ok_def)
  then have "(sha_block v)[63 := c] = r @ [c]"
    by (simp add: upd_conv_take_nth_drop)
  moreover have "sha_blocks (sha_H v) (r @ [c]) = (processSHA1MessageBlock (r @ [c]) (sha_H v), [])"
    using sha_blocks_block [of "r @ [c]" "sha_H v" "[]"] True by (simp add: sha_blocks_short)
  ultimately show ?thesis
    using assms True r(2,3) by (simp add: sha_ok_def sha_feed_def Let_def)
next
  case False
  with assms(1) have l: "length r < 63" by (auto simp: sha_ok_def)
  then have "sha_blocks (sha_H v) (r @ [c]) = (sha_H v, r @ [c])" by (simp add: sha_blocks_short)
  with assms l show ?thesis
    by (auto simp: sha_ok_def sha_feed_def Let_def take_Suc_conv_app_nth)
qed

lemma sha_blocks_append:
  "sha_blocks H bs = (H', r) \<Longrightarrow> sha_blocks H (bs @ cs) = sha_blocks H' (r @ cs)"
proof (induction H bs rule: sha_blocks.induct)
  case (1 H bs)
  show ?case
  proof (cases "64 \<le> length bs")
    case True
    then have "sha_blocks H (bs @ cs) = sha_blocks (processSHA1MessageBlock (take 64 bs) H) (drop 64 bs @ cs)"
      by (subst sha_blocks.simps) simp
    with 1 True show ?thesis by (simp add: sha_blocks.simps [of H bs])
  next
    case False
    with 1 show ?thesis by (simp add: sha_blocks_short)
  qed
qed

lemma sha_feed_all:
  assumes "sha_ok v r" "count_ok v n" "sha_blocks (sha_H v) (r @ input) = (H', r')"
  shows "sha_ok (foldl sha_feed v input) r' \<and> count_ok (foldl sha_feed v input) (n + length input)
           \<and> sha_H (foldl sha_feed v input) = H'"
  using assms
proof (induction input arbitrary: v r n)
  case Nil
  then have "length r < 64" by (simp add: sha_ok_def)
  with Nil show ?case by (simp add: sha_blocks_short)
next
  case (Cons c cs)
  obtain H1 r1 where one: "sha_blocks (sha_H v) (r @ [c]) = (H1, r1)" by fastforce
  from sha_feed_block [OF Cons.prems(1) one] have f: "sha_ok (sha_feed v c) r1" "sha_H (sha_feed v c) = H1"
    by auto
  have "sha_blocks H1 (r1 @ cs) = (H', r')"
    using sha_blocks_append [OF one, of cs] Cons.prems(3) by simp
  with Cons.IH [OF f(1) sha_feed_count [OF Cons.prems(2)]] f show ?case by simp
qed

text \<open>The two cases of the padding: it fits in the last block, or it takes one more.\<close>

lemma sha_finish_ref:
  assumes ok: "sha_ok v r" and cnt: "count_ok v n" and len: "n mod 64 = length r"
  shows "sha_blocks (sha_H v) (r @ [0x80] @ replicate ((119 - n mod 64) mod 64) 0
           @ be_bytes (of_nat (8 * n div 2 ^ 32)) @ be_bytes (of_nat (8 * n))) = (sha_finish v, [])"
proof -
  define tl where "tl = be_bytes (length_high v) @ be_bytes (length_low v)"
  have tl: "length tl = 8" by (simp add: tl_def)
  have r: "length r < 64" "sha_index v = length r" "length (sha_block v) = 64"
    "take (length r) (sha_block v) = r"
    using ok by (auto simp: sha_ok_def)
  have t1: "take (Suc (length r)) ((sha_block v)[length r := 0x80]) = r @ [0x80]"
    using r by (simp add: take_Suc_conv_app_nth)
  have "sha_blocks (sha_H v) (r @ [0x80] @ replicate ((119 - n mod 64) mod 64) 0 @ tl) = (sha_finish v, [])"
  proof (cases "length r < 56")
    case True
    then have k: "(119 - n mod 64) mod 64 = 55 - length r" using len by (simp add: mod_if)
    have "sha_finish v = processSHA1MessageBlock (r @ [0x80] @ replicate (55 - length r) 0 @ tl) (sha_H v)"
      using True r t1 by (simp add: sha_finish_def sha_zeros_def Let_def tl_def)
    then show ?thesis
      using sha_blocks_block [of "r @ [0x80] @ replicate (55 - length r) 0 @ tl" "sha_H v" "[]"] True tl
      by (simp add: k sha_blocks_short)
  next
    case False
    then have "(119 - n mod 64) mod 64 = (63 - length r) + 56" using len r by (simp add: mod_if)
    then have k: "replicate ((119 - n mod 64) mod 64) (0::u8) = replicate (63 - length r) 0 @ replicate 56 0"
      by (simp only: replicate_add)
    have "sha_finish v = processSHA1MessageBlock (replicate 56 0 @ tl)
            (processSHA1MessageBlock (r @ [0x80] @ replicate (63 - length r) 0) (sha_H v))"
      using False r t1 by (simp add: sha_finish_def sha_zeros_def Let_def tl_def max_def)
    then show ?thesis
      using sha_blocks_block [of "r @ [0x80] @ replicate (63 - length r) 0" "sha_H v" "replicate 56 0 @ tl"]
        sha_blocks_block [of "replicate 56 0 @ tl" "processSHA1MessageBlock (r @ [0x80] @ replicate (63 - length r) 0) (sha_H v)" "[]"]
        False tl r
      unfolding k by (simp add: sha_blocks_short)
  qed
  then show ?thesis using cnt by (simp add: tl_def count_ok_def)
qed

lemma sha_rest_length:
  "sha_blocks H bs = (H', r) \<Longrightarrow> length r = length bs mod 64"
proof (induction H bs rule: sha_blocks.induct)
  case (1 H bs)
  then show ?case
    by (cases "64 \<le> length bs") (simp_all add: sha_blocks.simps [of H bs] le_mod_geq)
qed

section \<open>The digest and the token as strings\<close>

definition is_hex :: "char \<Rightarrow> bool" where
  "is_hex c \<longleftrightarrow> c \<in> set ''0123456789abcdef''"

lemma hex_digit_is_hex: "n < 16 \<Longrightarrow> is_hex (hex_digit n)"
  unfolding is_hex_def hex_digit_def by (rule nth_mem) simp

lemma byte_nibbles: "unat (drop_bit 4 (b::u8)) < 16" "unat (b AND 15) < 16"
proof -
  have "unat b < 256" using unsigned_less [of b, where ?'a = nat] by simp
  then show "unat (drop_bit 4 b) < 16" by (simp only: unsigned_drop_bit_eq) (simp add: drop_bit_eq_div take_bit_nat_eq_self)
  have "b AND 15 \<le> 15" by (rule word_and_le1)
  then show "unat (b AND 15) < 16" by (simp add: word_le_nat_alt)
qed

lemma hex_byte_is_hex: "\<forall>c \<in> set (hex_byte b). is_hex c"
  by (simp add: hex_byte_def hex_digit_is_hex byte_nibbles)

lemma length_hex_bytes: "length (concat (map hex_byte bs)) = 2 * length bs"
  by (induction bs) (simp_all add: hex_byte_def)

lemma sha_hex_shape: "length (sha_hex H) = 40 \<and> (\<forall>c \<in> set (sha_hex H). is_hex c)"
  using hex_byte_is_hex
  by (auto simp: sha_hex_def length_hex_bytes split: prod.split)

lemma transformToSHA1_shape:
  "length (transformToSHA1 input) = 40 \<and> (\<forall>c \<in> set (transformToSHA1 input). is_hex c)"
  unfolding transformToSHA1_def by (rule sha_hex_shape)

lemma hex_val_is_hex: "is_hex c \<Longrightarrow> \<exists>d. hex_val c = Some d"
  unfolding is_hex_def hex_val_def by (auto simp: Let_def)

lemma stol16_hex: "s \<noteq> [] \<Longrightarrow> \<forall>c \<in> set s. is_hex c \<Longrightarrow> \<exists>v. stol16 s = Some v"
  using hex_val_is_hex by (cases s) (auto simp: stol16_def split: option.split)

lemma hex_to_bytes_hex: "\<forall>c \<in> set s. is_hex c \<Longrightarrow> \<exists>bs. hex_to_bytes s = Some bs"
proof (induction s rule: hex_to_bytes.induct)
  case (1 c d s)
  obtain v where v: "stol16 [c, d] = Some v" using stol16_hex [of "[c, d]"] "1.prems" by auto
  with 1 obtain bs where "hex_to_bytes s = Some bs" by auto
  with v show ?case by simp
next
  case (2 c)
  then obtain v where "stol16 [c] = Some v" using stol16_hex [of "[c]"] by auto
  then show ?case by simp
qed simp

lemma length_last_digits: "length (last_digits n) = 6"
  by (simp add: last_digits_def Let_def AUTHENTICATOR_DIGITS_def)

section \<open>Properties\<close>

text \<open>
  C40. The streaming \<^verbatim>\<open>transformToSHA1\<close> is the block digest of the padded message, for every input
  and whatever the uninitialised message block held: the hexadecimal text is that of the chaining
  value obtained by compressing, in order, the 64-byte blocks of the input followed by 0x80, the
  fewest zeros that leave room, and the 64-bit big-endian bit count (carried by hand between the
  two 32-bit counters). No input byte is left over.
\<close>

theorem transformToSHA1_padded_blocks:
  "\<exists>H. sha_blocks sha_start (sha_pad input) = (H, []) \<and> transformToSHA1 input = sha_hex H
     \<and> (\<forall>junk. length junk = 64 \<longrightarrow>
          sha_finish (foldl sha_feed (sha_init junk) input) = H)"
proof -
  obtain H r where b: "sha_blocks sha_start input = (H, r)" by fastforce
  have fin: "sha_blocks sha_start (sha_pad input) = (sha_finish (foldl sha_feed (sha_init junk) input), [])"
    if "length junk = 64" for junk
  proof -
    let ?v = "foldl sha_feed (sha_init junk) input"
    have "sha_ok (sha_init junk) []" "count_ok (sha_init junk) 0" "sha_H (sha_init junk) = sha_start"
      using that by (simp_all add: sha_ok_def count_ok_def sha_init_def sha_start_def)
    then have v: "sha_ok ?v r" "count_ok ?v (length input)" "sha_H ?v = H"
      using sha_feed_all [of "sha_init junk" "[]" 0 input H r] b by auto
    show ?thesis
      unfolding sha_pad_def sha_blocks_append [OF b]
      using sha_finish_ref [OF v(1,2)] sha_rest_length [OF b] v(3) by simp
  qed
  let ?H = "sha_finish (foldl sha_feed (sha_init (replicate 64 0)) input)"
  have fin0: "sha_blocks sha_start (sha_pad input) = (?H, [])" by (rule fin) (rule length_replicate)
  have "sha_finish (foldl sha_feed (sha_init junk) input) = ?H" if "length junk = 64" for junk
    using trans [OF sym [OF fin [OF that]] fin0] by (simp only: prod.inject)
  with fin0 show ?thesis unfolding transformToSHA1_def by blast
qed

theorem transformToSHA1_padded_blocks_witness:
  "length (replicate 64 (7::u8)) = 64
   \<and> transformToSHA1 [97] = sha_hex (sha_finish (foldl sha_feed (sha_init (replicate 64 7)) [97]))"
  using transformToSHA1_padded_blocks [of "[97]"] by (metis length_replicate)

text \<open>
  With a key of at most 64 bytes \<^verbatim>\<open>generateToken\<close> always returns (no \<^verbatim>\<open>std::stol\<close> in it throws,
  every substring it takes exists) and its token has exactly six characters, whatever the tick.
\<close>

theorem generateToken_six_digits:
  assumes "length key \<le> 64"
  shows "\<exists>token. generateToken key ticks = Some token \<and> length token = 6"
proof -
  let ?inner = "transformToSHA1 (key_pad 0x36 key @ 0 # ticks_bytes 7 ticks)"
  obtain bs where bs: "hex_to_bytes ?inner = Some bs"
    using hex_to_bytes_hex transformToSHA1_shape by blast
  let ?digest = "transformToSHA1 (key_pad 0x5C key @ bs)"
  have len: "length ?digest = 40" and hex: "\<forall>c \<in> set ?digest. is_hex c"
    using transformToSHA1_shape by auto
  have sub: "\<exists>v. stol16 (take n (drop i ?digest)) = Some v" if "0 < n" "i < 40" for i n
    using that len hex by (intro stol16_hex) (auto dest: in_set_takeD in_set_dropD)
  obtain v where v: "stol16 (take 1 (drop 39 ?digest)) = Some v"
    using sub [of 1 39] by auto
  define offset where "offset = unat (of_nat v AND 0xF :: u32)"
  have "offset \<le> 15"
    unfolding offset_def using word_and_le1 [of "of_nat v" "0xF :: u32"] by (simp add: word_le_nat_alt)
  then obtain h where "stol16 (take 8 (drop (2 * offset) ?digest)) = Some h"
    using sub [of 8 "2 * offset"] by auto
  then show ?thesis
    using assms bs v by (simp add: generateToken_def Let_def offset_def length_last_digits)
qed

theorem generateToken_six_digits_witness:
  "\<exists>token. generateToken (replicate 20 0x31) 1 = Some token \<and> length token = 6"
  using generateToken_six_digits [of "replicate 20 0x31" 1] by simp

end
