(* ===== verification/NetMessage.thy ===== *)
theory NetMessage
  imports Geometry Digest
begin

text \<open>
  The message buffers of the network layer: \<^verbatim>\<open>server/network/message/networkmessage.h\<close>,
  \<^verbatim>\<open>networkmessage.cpp\<close> and the \<^verbatim>\<open>OutputMessage\<close> class of \<^verbatim>\<open>outputmessage.h\<close>. Lengths and positions
  are 16-bit and wrap; the buffer is an array of \<open>NETWORKMESSAGE_MAXSIZE\<close> bytes. Operations whose
  own checks do not keep them inside the array return \<open>None\<close> when they leave it.
\<close>

section \<open>State\<close>

definition NETWORKMESSAGE_MAXSIZE :: nat where "NETWORKMESSAGE_MAXSIZE = 24590"
definition HEADER_LENGTH :: nat where "HEADER_LENGTH = 2"
definition CHECKSUM_LENGTH :: nat where "CHECKSUM_LENGTH = 4"
definition XTEA_MULTIPLE :: nat where "XTEA_MULTIPLE = 8"

definition MAX_BODY_LENGTH :: nat where
  "MAX_BODY_LENGTH = NETWORKMESSAGE_MAXSIZE - HEADER_LENGTH - CHECKSUM_LENGTH - XTEA_MULTIPLE"

definition MAX_PROTOCOL_BODY_LENGTH :: nat where
  "MAX_PROTOCOL_BODY_LENGTH = MAX_BODY_LENGTH - 10"

definition INITIAL_BUFFER_POSITION :: u16 where "INITIAL_BUFFER_POSITION = 8"

record netmsg =
  msg_length :: u16
  msg_position :: u16
  msg_overrun :: bool
  msg_buffer :: mem

definition new_message :: "mem \<Rightarrow> netmsg" where
  "new_message b = \<lparr>msg_length = 0, msg_position = INITIAL_BUFFER_POSITION, msg_overrun = False,
     msg_buffer = b\<rparr>"

definition msg_reset :: "'a netmsg_scheme \<Rightarrow> 'a netmsg_scheme" where
  "msg_reset m = m\<lparr>msg_length := 0, msg_position := INITIAL_BUFFER_POSITION, msg_overrun := False\<rparr>"

section \<open>Checks\<close>

definition canAdd :: "'a netmsg_scheme \<Rightarrow> nat \<Rightarrow> bool" where
  "canAdd m n \<longleftrightarrow> n + unat (msg_position m) < MAX_BODY_LENGTH"

definition canRead :: "int \<Rightarrow> 'a netmsg_scheme \<Rightarrow> bool \<times> 'a netmsg_scheme" where
  "canRead n m =
     (if uint (msg_position m) + n > uint (msg_length m) + 8
          \<or> n \<ge> int NETWORKMESSAGE_MAXSIZE - uint (msg_position m)
      then (False, m\<lparr>msg_overrun := True\<rparr>)
      else (True, m))"

section \<open>Reading\<close>

definition getByte :: "'a netmsg_scheme \<Rightarrow> u8 \<times> 'a netmsg_scheme" where
  "getByte m =
     (case canRead 1 m of
        (False, m') \<Rightarrow> (0, m')
      | (True, m') \<Rightarrow>
          (msg_buffer m' (unat (msg_position m')), m'\<lparr>msg_position := msg_position m' + 1\<rparr>))"

definition getPreviousByte :: "'a netmsg_scheme \<Rightarrow> (u8 \<times> 'a netmsg_scheme) option" where
  "getPreviousByte m =
     (let p = msg_position m - 1 in
      if unat p < NETWORKMESSAGE_MAXSIZE
      then Some (msg_buffer m (unat p), m\<lparr>msg_position := p\<rparr>) else None)"

text \<open>\<^verbatim>\<open>get<T>()\<close>, with the size of \<^verbatim>\<open>T\<close> in bytes.\<close>

definition get :: "nat \<Rightarrow> 'a netmsg_scheme \<Rightarrow> 'w::len word \<times> 'a netmsg_scheme" where
  "get n m =
     (case canRead (int n) m of
        (False, m') \<Rightarrow> (0, m')
      | (True, m') \<Rightarrow>
          (bytes_word (mem_read (msg_buffer m') (unat (msg_position m')) n),
           m'\<lparr>msg_position := msg_position m' + of_nat n\<rparr>))"

definition getString :: "u16 \<Rightarrow> 'a netmsg_scheme \<Rightarrow> u8 list \<times> 'a netmsg_scheme" where
  "getString stringLen m =
     (case (if stringLen = 0 then get 2 m else (stringLen, m)) of
        (len, m') \<Rightarrow>
          (case canRead (uint len) m' of
             (False, m'') \<Rightarrow> ([], m'')
           | (True, m'') \<Rightarrow>
               (mem_read (msg_buffer m'') (unat (msg_position m'')) (unat len),
                m''\<lparr>msg_position := msg_position m'' + len\<rparr>)))"

definition getPosition :: "'a netmsg_scheme \<Rightarrow> Position \<times> 'a netmsg_scheme" where
  "getPosition m =
     (case get 2 m of (x, m1) \<Rightarrow>
      case get 2 m1 of (y, m2) \<Rightarrow>
      case getByte m2 of (z, m3) \<Rightarrow> (Position x y z, m3))"

text \<open>\<^verbatim>\<open>skipBytes\<close> takes a signed 16-bit count, added to the position at 16 bits.\<close>

definition skipBytes :: "u16 \<Rightarrow> 'a netmsg_scheme \<Rightarrow> 'a netmsg_scheme" where
  "skipBytes count m = m\<lparr>msg_position := msg_position m + count\<rparr>"

section \<open>Writing\<close>

definition put_bytes :: "u8 list \<Rightarrow> 'a netmsg_scheme \<Rightarrow> 'a netmsg_scheme" where
  "put_bytes bs m =
     m\<lparr>msg_buffer := mem_write (msg_buffer m) (unat (msg_position m)) bs,
       msg_position := msg_position m + of_nat (length bs),
       msg_length := msg_length m + of_nat (length bs)\<rparr>"

definition addByte :: "u8 \<Rightarrow> 'a netmsg_scheme \<Rightarrow> 'a netmsg_scheme" where
  "addByte v m = (if \<not> canAdd m 1 then m else put_bytes [v] m)"

definition add :: "nat \<Rightarrow> 'w::len word \<Rightarrow> 'a netmsg_scheme \<Rightarrow> 'a netmsg_scheme" where
  "add n v m = (if \<not> canAdd m n then m else put_bytes (word_bytes n v) m)"

definition addBytes :: "u8 list \<Rightarrow> 'a netmsg_scheme \<Rightarrow> 'a netmsg_scheme" where
  "addBytes bytes m =
     (if \<not> canAdd m (length bytes) \<or> length bytes > 8192 then m else put_bytes bytes m)"

definition addPaddingBytes :: "nat \<Rightarrow> 'a netmsg_scheme \<Rightarrow> 'a netmsg_scheme" where
  "addPaddingBytes n m =
     (if \<not> canAdd m n then m
      else m\<lparr>msg_buffer := mem_write (msg_buffer m) (unat (msg_position m)) (replicate n 0x33),
             msg_length := msg_length m + of_nat n\<rparr>)"

definition addString :: "u8 list \<Rightarrow> 'a netmsg_scheme \<Rightarrow> 'a netmsg_scheme" where
  "addString v m =
     (if \<not> canAdd m (length v + 2) \<or> length v > 8192 then m
      else put_bytes v (add 2 (of_nat (length v) :: u16) m))"

definition addPosition :: "Position \<Rightarrow> 'a netmsg_scheme \<Rightarrow> 'a netmsg_scheme" where
  "addPosition p m = addByte (pos_z p) (add 2 (pos_y p) (add 2 (pos_x p) m))"

text \<open>\<open>clientId\<close> is the client identifier of an item type, loaded with the item table.\<close>

definition addItemId :: "(u16 \<Rightarrow> u16) \<Rightarrow> u16 \<Rightarrow> 'a netmsg_scheme \<Rightarrow> 'a netmsg_scheme" where
  "addItemId clientId itemId m = add 2 (clientId itemId) m"

section \<open>Headers\<close>

definition getLengthHeader :: "'a netmsg_scheme \<Rightarrow> u16" where
  "getLengthHeader m = ucast (ucast (msg_buffer m 0) OR push_bit 8 (ucast (msg_buffer m 1)) :: u32)"

definition decodeHeader :: "'a netmsg_scheme \<Rightarrow> int \<times> 'a netmsg_scheme" where
  "decodeHeader m =
     (let newSize = ucast (msg_buffer m 0) OR push_bit 8 (ucast (msg_buffer m 1)) :: u32;
          m' = m\<lparr>msg_length := ucast newSize\<rparr>
      in (uint (msg_length m'), m'))"

definition setLength :: "u16 \<Rightarrow> 'a netmsg_scheme \<Rightarrow> 'a netmsg_scheme" where
  "setLength n m = m\<lparr>msg_length := n\<rparr>"

definition setBufferPosition :: "u16 \<Rightarrow> 'a netmsg_scheme \<Rightarrow> 'a netmsg_scheme" where
  "setBufferPosition p m = m\<lparr>msg_position := p\<rparr>"

text \<open>\<^verbatim>\<open>getBodyBuffer\<close> returns the offset of the body and moves the position behind the header.\<close>

definition getBodyBuffer :: "'a netmsg_scheme \<Rightarrow> nat \<times> 'a netmsg_scheme" where
  "getBodyBuffer m = (HEADER_LENGTH, m\<lparr>msg_position := 2\<rparr>)"

section \<open>Outgoing messages\<close>

record outmsg = netmsg +
  outputBufferStart :: u16

definition new_output :: "mem \<Rightarrow> outmsg" where
  "new_output b = \<lparr>msg_length = 0, msg_position = INITIAL_BUFFER_POSITION, msg_overrun = False,
     msg_buffer = b, outputBufferStart = INITIAL_BUFFER_POSITION\<rparr>"

text \<open>\<^verbatim>\<open>add_header<T>\<close> asserts that the header fits before the current start.\<close>

definition add_header :: "nat \<Rightarrow> 'w::len word \<Rightarrow> outmsg \<Rightarrow> outmsg option" where
  "add_header n v m =
     (if unat (outputBufferStart m) < n then None
      else let start = outputBufferStart m - of_nat n in
        Some (m\<lparr>outputBufferStart := start,
                msg_buffer := mem_write (msg_buffer m) (unat start) (word_bytes n v),
                msg_length := msg_length m + of_nat n\<rparr>))"

definition writeMessageLength :: "outmsg \<Rightarrow> outmsg option" where
  "writeMessageLength m = add_header 2 (msg_length m) m"

definition addCryptoHeader :: "u8 \<Rightarrow> u32 \<Rightarrow> outmsg \<Rightarrow> (outmsg \<times> u32) option" where
  "addCryptoHeader addChecksum sequence m =
     (let body = mem_read (msg_buffer m) (unat (outputBufferStart m)) (unat (msg_length m));
          headed = (if addChecksum = 1 then map_option (\<lambda>m'. (m', sequence)) (add_header 4 (adlerChecksum body) m)
                    else if addChecksum = 2 then map_option (\<lambda>m'. (m', sequence + 1)) (add_header 4 sequence m)
                    else Some (m, sequence))
      in case headed of None \<Rightarrow> None
         | Some (m', seq') \<Rightarrow> map_option (\<lambda>m''. (m'', seq')) (writeMessageLength m'))"

text \<open>\<^verbatim>\<open>append\<close> copies the body of another message behind this one's; it checks nothing.\<close>

definition append_msg :: "'b netmsg_scheme \<Rightarrow> outmsg \<Rightarrow> outmsg option" where
  "append_msg msg m =
     (let msgLen = unat (msg_length msg) in
      if unat (msg_position m) + msgLen \<le> NETWORKMESSAGE_MAXSIZE \<and> 8 + msgLen \<le> NETWORKMESSAGE_MAXSIZE
      then Some (put_bytes (mem_read (msg_buffer msg) 8 msgLen) m)
      else None)"

section \<open>Positions do not wrap\<close>

lemmas size_defs = NETWORKMESSAGE_MAXSIZE_def HEADER_LENGTH_def CHECKSUM_LENGTH_def XTEA_MULTIPLE_def
  MAX_BODY_LENGTH_def

lemma unat_plus_of_nat: "unat (w::u16) + n < 65536 \<Longrightarrow> unat (w + of_nat n) = unat w + n"
  by (simp add: unat_word_ariths unat_of_nat take_bit_nat_eq_self)

lemma canAdd_le: "canAdd m n \<Longrightarrow> k \<le> n \<Longrightarrow> canAdd m k"
  by (simp add: canAdd_def)

lemma canAdd_unat: "canAdd m n \<Longrightarrow> unat (msg_position m + of_nat n) = unat (msg_position m) + n"
  by (rule unat_plus_of_nat) (simp add: canAdd_def size_defs)

lemma put_bytes_Nil [simp]: "put_bytes [] m = m"
  by (simp add: put_bytes_def)

lemma put_bytes_append:
  assumes "canAdd m (length as)"
  shows "put_bytes bs (put_bytes as m) = put_bytes (as @ bs) m"
proof -
  have "mem_write (mem_write b p as) (p + length as) bs = mem_write b p (as @ bs)" for b p
    by (auto simp: mem_write_def fun_eq_iff nth_append)
  then show ?thesis
    using canAdd_unat [OF assms] by (simp add: put_bytes_def add.assoc)
qed

lemma canAdd_put:
  "canAdd m (length as) \<Longrightarrow> canAdd (put_bytes as m) n \<longleftrightarrow> canAdd m (length as + n)"
  using canAdd_unat [of m "length as"] by (simp add: canAdd_def put_bytes_def add_ac)

section \<open>Reading what is there\<close>

definition readable :: "'a netmsg_scheme \<Rightarrow> u8 list \<Rightarrow> bool" where
  "readable m bs \<longleftrightarrow>
     mem_read (msg_buffer m) (unat (msg_position m)) (length bs) = bs
     \<and> unat (msg_position m) + length bs \<le> unat (msg_length m) + 8
     \<and> unat (msg_position m) + length bs < NETWORKMESSAGE_MAXSIZE"

definition advance :: "nat \<Rightarrow> 'a netmsg_scheme \<Rightarrow> 'a netmsg_scheme" where
  "advance n m = m\<lparr>msg_position := msg_position m + of_nat n\<rparr>"

lemma advance_simps [simp]:
  "msg_buffer (advance n m) = msg_buffer m" "msg_length (advance n m) = msg_length m"
  "msg_overrun (advance n m) = msg_overrun m"
  "msg_position (advance n m) = msg_position m + of_nat n"
  by (simp_all add: advance_def)

lemma advance_advance: "advance k (advance n m) = advance (n + k) m"
  by (simp add: advance_def add.assoc)

lemma canRead_iff:
  "canRead (int n) m =
     (if unat (msg_position m) + n \<le> unat (msg_length m) + 8
         \<and> unat (msg_position m) + n < NETWORKMESSAGE_MAXSIZE
      then (True, m) else (False, m\<lparr>msg_overrun := True\<rparr>))"
proof -
  obtain p where "uint (msg_position m) = int p" "unat (msg_position m) = p" by (metis uint_nat)
  moreover obtain l where "uint (msg_length m) = int l" "unat (msg_length m) = l" by (metis uint_nat)
  ultimately show ?thesis by (auto simp: canRead_def)
qed

lemma readable_canRead: "readable m bs \<Longrightarrow> n = length bs \<Longrightarrow> canRead (int n) m = (True, m)"
  by (simp add: readable_def canRead_iff)

lemma readable_append:
  assumes "readable m (as @ bs)"
  shows "readable m as" and "readable (advance (length as) m) bs"
proof -
  have split: "mem_read (msg_buffer m) (unat (msg_position m)) (length as) @
      mem_read (msg_buffer m) (unat (msg_position m) + length as) (length bs) = as @ bs"
    using assms by (simp add: readable_def flip: mem_read_append)
  have "unat (msg_position m + of_nat (length as)) = unat (msg_position m) + length as"
    using assms by (intro unat_plus_of_nat) (simp add: readable_def size_defs)
  then show "readable m as" and "readable (advance (length as) m) bs"
    using assms split by (simp_all add: readable_def)
qed

lemma get_readable:
  assumes "readable m bs" "n = length bs"
  shows "get n m = (bytes_word bs, advance n m)"
proof -
  have "mem_read (msg_buffer m) (unat (msg_position m)) n = bs"
    using assms by (simp add: readable_def)
  then show ?thesis
    using readable_canRead [OF assms] by (simp add: get_def advance_def)
qed

lemma bytes_word_word_bytes:
  "bytes_word (word_bytes 2 (a::u16)) = a" "bytes_word (word_bytes 4 (b::u32)) = b"
  "bytes_word (word_bytes 8 (c::u64)) = c"
  by (rule c16.dec_enc c32.dec_enc c64.dec_enc)+

section \<open>The contract of a message field\<close>

text \<open>
  A writer, a reader and the bytes that pass between them: the writer appends exactly those bytes
  when they fit, and the reader, when it stands before them, returns the value and moves behind
  them. Whole messages follow from it (\<open>put_fetch\<close>).
\<close>

locale wire_field =
  fixes put :: "'v \<Rightarrow> 'a netmsg_scheme \<Rightarrow> 'a netmsg_scheme"
    and fetch :: "'a netmsg_scheme \<Rightarrow> 'v \<times> 'a netmsg_scheme"
    and enc :: "'v \<Rightarrow> u8 list"
    and ok :: "'v \<Rightarrow> bool"
  assumes put_enc: "ok v \<Longrightarrow> canAdd m (length (enc v)) \<Longrightarrow> put v m = put_bytes (enc v) m"
    and fetch_enc: "ok v \<Longrightarrow> readable m (enc v) \<Longrightarrow> fetch m = (v, advance (length (enc v)) m)"
begin

lemma fetch_then:
  "ok v \<Longrightarrow> readable m (enc v @ rest) \<Longrightarrow>
     fetch m = (v, advance (length (enc v)) m) \<and> readable (advance (length (enc v)) m) rest"
  using fetch_enc readable_append by blast

lemma put_fetch:
  assumes "ok v" "canAdd m (length (enc v))" "unat (msg_position m) = unat (msg_length m) + 8"
  shows "fetch (setBufferPosition (msg_position m) (put v m)) = (v, put v m)"
proof -
  let ?n = "length (enc v)"
  have p: "put v m = put_bytes (enc v) m" using assms put_enc by blast
  have "unat (msg_length m + of_nat ?n) = unat (msg_length m) + ?n"
    using assms(2,3) by (intro unat_plus_of_nat) (simp add: canAdd_def size_defs)
  then have "readable (setBufferPosition (msg_position m) (put v m)) (enc v)"
    using assms(2,3)
    by (auto simp: readable_def p setBufferPosition_def put_bytes_def mem_laws canAdd_def size_defs)
  then have "fetch (setBufferPosition (msg_position m) (put v m))
      = (v, advance ?n (setBufferPosition (msg_position m) (put v m)))"
    by (rule fetch_enc [OF assms(1)])
  also have "advance ?n (setBufferPosition (msg_position m) (put v m)) = put v m"
    by (simp add: p advance_def setBufferPosition_def put_bytes_def)
  finally show ?thesis .
qed

end

definition string_enc :: "u8 list \<Rightarrow> u8 list" where
  "string_enc v = word_bytes 2 (of_nat (length v) :: u16) @ v"

definition position_enc :: "Position \<Rightarrow> u8 list" where
  "position_enc p = word_bytes 2 (pos_x p) @ word_bytes 2 (pos_y p) @ [pos_z p]"

lemma getByte_readable: "readable m [v] \<Longrightarrow> getByte m = (v, advance 1 m)"
  using readable_canRead [of m "[v]" 1]
  by (simp add: getByte_def readable_def advance_def mem_read_def)

lemma add_enc: "canAdd m n \<Longrightarrow> add n v m = put_bytes (word_bytes n v) m"
  by (simp add: add_def)

interpretation byte_field: wire_field addByte getByte "\<lambda>v. [v]" "\<lambda>_. True"
  by unfold_locales (simp_all add: addByte_def getByte_readable)

interpretation u16_field: wire_field "add 2" "get 2" "word_bytes 2 :: u16 \<Rightarrow> _" "\<lambda>_. True"
  by unfold_locales (simp_all add: add_enc get_readable bytes_word_word_bytes)

interpretation u32_field: wire_field "add 4" "get 4" "word_bytes 4 :: u32 \<Rightarrow> _" "\<lambda>_. True"
  by unfold_locales (simp_all add: add_enc get_readable bytes_word_word_bytes)

interpretation u64_field: wire_field "add 8" "get 8" "word_bytes 8 :: u64 \<Rightarrow> _" "\<lambda>_. True"
  by unfold_locales (simp_all add: add_enc get_readable bytes_word_word_bytes)

interpretation string_field: wire_field addString "getString 0" string_enc "\<lambda>v. length v \<le> 8192"
proof
  fix v :: "u8 list" and m :: "'a netmsg_scheme"
  assume len: "length v \<le> 8192"
  then have u: "uint (of_nat (length v) :: u16) = int (length v)"
    "unat (of_nat (length v) :: u16) = length v"
    by (simp_all add: unsigned_of_nat take_bit_nat_eq_self flip: of_nat_take_bit)
  {
    assume fits: "canAdd m (length (string_enc v))"
    then have "canAdd m (length v + 2)" "canAdd m 2" "canAdd m (length (word_bytes 2 (of_nat (length v) :: u16)))"
      by (simp_all add: string_enc_def canAdd_def)
    then show "addString v m = put_bytes (string_enc v) m"
      using len by (simp add: addString_def add_enc put_bytes_append string_enc_def)
  }
  assume r: "readable m (string_enc v)"
  from u16_field.fetch_then [OF _ r [unfolded string_enc_def]]
  have g: "get 2 m = (of_nat (length v) :: u16, advance 2 m)" "readable (advance 2 m) v"
    by simp_all
  have "getString 0 m = (v, advance (length v) (advance 2 m))"
    using readable_canRead [OF g(2) refl] g(2)
    by (simp add: getString_def g(1) u readable_def advance_def)
  then show "getString 0 m = (v, advance (length (string_enc v)) m)"
    by (simp add: advance_advance string_enc_def)
qed

interpretation position_field: wire_field addPosition getPosition position_enc "\<lambda>_. True"
proof
  fix p :: Position and m :: "'a netmsg_scheme"
  {
    assume "canAdd m (length (position_enc p))"
    then show "addPosition p m = put_bytes (position_enc p) m"
      by (simp add: addPosition_def position_enc_def add_enc addByte_def canAdd_put put_bytes_append
          canAdd_le [of m 5])
  }
  assume r: "readable m (position_enc p)"
  from u16_field.fetch_then [OF _ r [unfolded position_enc_def]]
  have g1: "get 2 m = (pos_x p, advance 2 m)"
    "readable (advance 2 m) (word_bytes 2 (pos_y p) @ [pos_z p])" by simp_all
  from u16_field.fetch_then [OF _ g1(2)]
  have g2: "get 2 (advance 2 m) = (pos_y p, advance 4 m)" "readable (advance 4 m) [pos_z p]"
    by (simp_all add: advance_advance)
  from byte_field.fetch_enc [OF _ g2(2)] have "getByte (advance 4 m) = (pos_z p, advance 5 m)"
    by (simp add: advance_advance)
  with g1 g2 show "getPosition m = (p, advance (length (position_enc p)) m)"
    by (cases p) (simp add: getPosition_def position_enc_def)
qed

section \<open>Whole messages\<close>

text \<open>The fields a message is made of, by the calls that write and read them.\<close>

datatype field = Byte u8 | U16 u16 | U32 u32 | U64 u64 | Str "u8 list" | Pos Position

datatype shape = SByte | SU16 | SU32 | SU64 | SStr | SPos

fun shape_of :: "field \<Rightarrow> shape" where
  "shape_of (Byte _) = SByte"
| "shape_of (U16 _) = SU16"
| "shape_of (U32 _) = SU32"
| "shape_of (U64 _) = SU64"
| "shape_of (Str _) = SStr"
| "shape_of (Pos _) = SPos"

fun put_field :: "field \<Rightarrow> 'a netmsg_scheme \<Rightarrow> 'a netmsg_scheme" where
  "put_field (Byte v) m = addByte v m"
| "put_field (U16 v) m = add 2 v m"
| "put_field (U32 v) m = add 4 v m"
| "put_field (U64 v) m = add 8 v m"
| "put_field (Str v) m = addString v m"
| "put_field (Pos v) m = addPosition v m"

fun fetch_field :: "shape \<Rightarrow> 'a netmsg_scheme \<Rightarrow> field \<times> 'a netmsg_scheme" where
  "fetch_field SByte m = apfst Byte (getByte m)"
| "fetch_field SU16 m = apfst U16 (get 2 m)"
| "fetch_field SU32 m = apfst U32 (get 4 m)"
| "fetch_field SU64 m = apfst U64 (get 8 m)"
| "fetch_field SStr m = apfst Str (getString 0 m)"
| "fetch_field SPos m = apfst Pos (getPosition m)"

fun fetch_fields :: "shape list \<Rightarrow> 'a netmsg_scheme \<Rightarrow> field list \<times> 'a netmsg_scheme" where
  "fetch_fields [] m = ([], m)"
| "fetch_fields (s # ss) m =
     (case fetch_field s m of (v, m1) \<Rightarrow> apfst ((#) v) (fetch_fields ss m1))"

fun field_enc :: "field \<Rightarrow> u8 list" where
  "field_enc (Byte v) = [v]"
| "field_enc (U16 v) = word_bytes 2 v"
| "field_enc (U32 v) = word_bytes 4 v"
| "field_enc (U64 v) = word_bytes 8 v"
| "field_enc (Str v) = string_enc v"
| "field_enc (Pos v) = position_enc v"

fun field_ok :: "field \<Rightarrow> bool" where
  "field_ok (Str v) = (length v \<le> 8192)"
| "field_ok _ = True"

lemma put_field_enc:
  "field_ok f \<Longrightarrow> canAdd m (length (field_enc f)) \<Longrightarrow> put_field f m = put_bytes (field_enc f) m"
  by (cases f) (simp_all add: byte_field.put_enc u16_field.put_enc u32_field.put_enc u64_field.put_enc
      string_field.put_enc position_field.put_enc)

lemma fetch_field_enc:
  "field_ok f \<Longrightarrow> readable m (field_enc f) \<Longrightarrow>
     fetch_field (shape_of f) m = (f, advance (length (field_enc f)) m)"
  by (cases f) (simp_all add: byte_field.fetch_enc u16_field.fetch_enc u32_field.fetch_enc
      u64_field.fetch_enc string_field.fetch_enc position_field.fetch_enc)

lemma put_fields_enc:
  "\<forall>f \<in> set fs. field_ok f \<Longrightarrow> canAdd m (length (concat (map field_enc fs))) \<Longrightarrow>
     fold put_field fs m = put_bytes (concat (map field_enc fs)) m"
proof (induction fs arbitrary: m)
  case (Cons f fs)
  then have one: "canAdd m (length (field_enc f))" by (auto elim: canAdd_le)
  with Cons show ?case by (simp add: put_field_enc canAdd_put put_bytes_append)
qed simp

lemma fetch_fields_enc:
  "\<forall>f \<in> set fs. field_ok f \<Longrightarrow> readable m (concat (map field_enc fs)) \<Longrightarrow>
     fetch_fields (map shape_of fs) m = (fs, advance (length (concat (map field_enc fs))) m)"
proof (induction fs arbitrary: m)
  case Nil
  then show ?case by (simp add: advance_def)
next
  case (Cons f fs)
  then have "readable m (field_enc f)" "readable (advance (length (field_enc f)) m) (concat (map field_enc fs))"
    using readable_append [of m "field_enc f" "concat (map field_enc fs)"] by simp_all
  with Cons show ?case by (simp add: fetch_field_enc advance_advance)
qed

text \<open>
  C36. Whatever sequence of fields (bytes, 16-, 32- and 64-bit integers, strings, positions) is
  written to a fresh message, if together they fit the body and no string is longer than 8192
  bytes, then none is dropped, the length counts exactly their bytes, and the matching sequence
  of reads from the start of the body returns the same values, ends where the writes ended and
  never sets the overrun flag.
\<close>

theorem message_roundtrip:
  assumes "\<forall>f \<in> set fs. field_ok f"
    and "8 + length (concat (map field_enc fs)) < MAX_BODY_LENGTH"
  shows "unat (msg_length (fold put_field fs (new_message b))) = length (concat (map field_enc fs))
    \<and> fetch_fields (map shape_of fs)
        (setBufferPosition INITIAL_BUFFER_POSITION (fold put_field fs (new_message b)))
      = (fs, fold put_field fs (new_message b))
    \<and> \<not> msg_overrun (fold put_field fs (new_message b))"
proof -
  let ?bs = "concat (map field_enc fs)"
  have fits: "canAdd (new_message b) (length ?bs)"
    using assms(2) by (simp add: canAdd_def new_message_def INITIAL_BUFFER_POSITION_def)
  have m: "fold put_field fs (new_message b) = put_bytes ?bs (new_message b)"
    using put_fields_enc [OF assms(1) fits] .
  have len: "unat (of_nat (length ?bs) :: u16) = length ?bs"
    using unat_plus_of_nat [of 0 "length ?bs"] assms(2) by (simp add: size_defs)
  let ?r = "setBufferPosition INITIAL_BUFFER_POSITION (put_bytes ?bs (new_message b))"
  have "readable ?r ?bs"
    using assms(2) len
    by (simp add: readable_def setBufferPosition_def put_bytes_def new_message_def mem_laws
        INITIAL_BUFFER_POSITION_def size_defs)
  then have "fetch_fields (map shape_of fs) ?r = (fs, advance (length ?bs) ?r)"
    by (rule fetch_fields_enc [OF assms(1)])
  moreover have "advance (length ?bs) ?r = put_bytes ?bs (new_message b)"
    by (simp add: advance_def setBufferPosition_def put_bytes_def new_message_def)
  ultimately show ?thesis
    using len unfolding m by (simp add: put_bytes_def new_message_def)
qed

theorem message_roundtrip_witness:
  "fst (fetch_fields [SU16, SStr, SPos]
      (setBufferPosition INITIAL_BUFFER_POSITION
         (fold put_field [U16 7, Str [104, 105], Pos (Position 1 2 3)] (new_message (\<lambda>_. 0)))))
   = [U16 7, Str [104, 105], Pos (Position 1 2 3)]"
  using message_roundtrip [of "[U16 7, Str [104, 105], Pos (Position 1 2 3)]" "\<lambda>_. 0"]
  by (simp add: size_defs string_enc_def position_enc_def)

section \<open>Accesses stay inside the buffer\<close>

definition write_within :: "'a netmsg_scheme \<Rightarrow> 'a netmsg_scheme \<Rightarrow> bool" where
  "write_within m m' \<longleftrightarrow>
     (\<forall>i. i < unat (msg_position m) \<or> MAX_BODY_LENGTH \<le> i \<longrightarrow> msg_buffer m' i = msg_buffer m i)
     \<and> unat (msg_position m) \<le> unat (msg_position m')
     \<and> (unat (msg_position m) < MAX_BODY_LENGTH \<longrightarrow> unat (msg_position m') < MAX_BODY_LENGTH)
     \<and> msg_position m' - msg_position m = msg_length m' - msg_length m"

lemma write_within_refl: "write_within m m"
  by (simp add: write_within_def)

lemma write_within_trans: "write_within a b \<Longrightarrow> write_within b c \<Longrightarrow> write_within a c"
proof -
  assume ab: "write_within a b" and bc: "write_within b c"
  have split: "w - u = (w - v) + (v - u)" for u v w :: u16 by simp
  have "msg_position c - msg_position a = msg_length c - msg_length a"
    using ab bc unfolding write_within_def
    by (simp only: split [of "msg_position c" "msg_position a" "msg_position b"]
        split [of "msg_length c" "msg_length a" "msg_length b"])
  with ab bc show ?thesis by (auto simp: write_within_def)
qed

lemma put_bytes_within: "canAdd m (length bs) \<Longrightarrow> write_within m (put_bytes bs m)"
  using canAdd_unat [of m "length bs"]
  by (auto simp: write_within_def put_bytes_def canAdd_def mem_write_def)

lemma add_within: "write_within m (add n v m)"
  by (auto simp: add_def write_within_refl put_bytes_within)

lemma addByte_within: "write_within m (addByte v m)"
  by (auto simp: addByte_def write_within_refl put_bytes_within)

lemma addString_within: "write_within m (addString v m)"
proof (cases "canAdd m (length v + 2) \<and> length v \<le> 8192")
  case True
  then have "addString v m = put_bytes (string_enc v) m"
    by (intro string_field.put_enc) (simp_all add: string_enc_def)
  with True show ?thesis by (simp add: put_bytes_within string_enc_def)
next
  case False
  then show ?thesis by (auto simp: addString_def write_within_refl)
qed

lemma addPosition_within: "write_within m (addPosition p m)"
  unfolding addPosition_def by (meson write_within_trans add_within addByte_within)

lemma put_field_within: "write_within m (put_field f m)"
  by (cases f) (simp_all add: add_within addByte_within addString_within addPosition_within)

interpretation writes: kept_invariant "\<lambda>m f. put_field f m" "write_within m0" for m0
  by unfold_locales (blast intro: write_within_trans put_field_within)

text \<open>
  C37. No sequence of field writes, of any length and with any contents, leaves the body: nothing
  is written before the position the sequence started from nor at or behind \<open>MAX_BODY_LENGTH\<close>
  (14 bytes before the end of the array), the position never wraps and never moves backwards, it
  stays below that limit once it is, and position and length always grow by the same amount.
\<close>

theorem writes_stay_in_body:
  "write_within m (run (\<lambda>m f. put_field f m) m fs)"
  by (rule writes.run_keeps) (rule write_within_refl)

text \<open>
  A reader that looks only at the bytes of the received message that are inside the array, and
  that moves the position forward inside the message.
\<close>

definition same_message :: "'a netmsg_scheme \<Rightarrow> mem \<Rightarrow> bool" where
  "same_message m b \<longleftrightarrow>
     (\<forall>i < min (unat (msg_length m) + 8) NETWORKMESSAGE_MAXSIZE. b i = msg_buffer m i)"

definition read_within :: "('a netmsg_scheme \<Rightarrow> 'v \<times> 'a netmsg_scheme) \<Rightarrow> 'a netmsg_scheme \<Rightarrow> bool" where
  "read_within f m \<longleftrightarrow>
     msg_length (snd (f m)) = msg_length m \<and> msg_buffer (snd (f m)) = msg_buffer m
     \<and> unat (msg_position m) \<le> unat (msg_position (snd (f m)))
     \<and> (unat (msg_position m) \<le> unat (msg_length m) + 8 \<longrightarrow>
          unat (msg_position (snd (f m))) \<le> unat (msg_length m) + 8)
     \<and> (\<forall>b. same_message m b \<longrightarrow> f (m\<lparr>msg_buffer := b\<rparr>) = (fst (f m), (snd (f m))\<lparr>msg_buffer := b\<rparr>))"

lemma read_within_bind:
  assumes "read_within f m" and "\<And>v m'. read_within (g v) m'"
  shows "read_within (\<lambda>m. case f m of (v, m') \<Rightarrow> g v m') m"
proof -
  obtain v m1 where f: "f m = (v, m1)" by fastforce
  with assms(1) have m1: "msg_length m1 = msg_length m" "msg_buffer m1 = msg_buffer m"
    by (auto simp: read_within_def)
  then have "same_message m1 b = same_message m b" for b by (simp add: same_message_def)
  then show ?thesis
    using assms(1) assms(2) [of v m1] m1 unfolding read_within_def f
    by (auto simp: f)
qed

lemma read_within_return: "read_within (\<lambda>m. (v, m)) m"
  by (simp add: read_within_def)

lemma same_message_read:
  "same_message m b \<Longrightarrow> unat (msg_position m) + n \<le> unat (msg_length m) + 8 \<Longrightarrow>
     unat (msg_position m) + n < NETWORKMESSAGE_MAXSIZE \<Longrightarrow>
     mem_read b (unat (msg_position m)) n = mem_read (msg_buffer m) (unat (msg_position m)) n"
  by (intro nth_equalityI) (auto simp: same_message_def)

lemma read_bytes_within:
  "read_within (\<lambda>m. case canRead (int n) m of
       (False, m') \<Rightarrow> (d, m')
     | (True, m') \<Rightarrow> (h (mem_read (msg_buffer m') (unat (msg_position m')) n),
          m'\<lparr>msg_position := msg_position m' + of_nat n\<rparr>)) m"
proof (cases "unat (msg_position m) + n \<le> unat (msg_length m) + 8
    \<and> unat (msg_position m) + n < NETWORKMESSAGE_MAXSIZE")
  case True
  then have "unat (msg_position m + of_nat n) = unat (msg_position m) + n"
    by (intro unat_plus_of_nat) (simp add: size_defs)
  with True show ?thesis
    by (auto simp: read_within_def canRead_iff same_message_read)
next
  case False
  then show ?thesis by (auto simp: read_within_def canRead_iff)
qed

lemma get_within: "read_within (get n) m"
  using read_bytes_within [where n = n and d = 0 and h = bytes_word and m = m] by (simp add: get_def [abs_def])

lemma getByte_within: "read_within getByte m"
proof -
  have "getByte = (\<lambda>m::'a netmsg_scheme. case canRead (int 1) m of
       (False, m') \<Rightarrow> (0, m')
     | (True, m') \<Rightarrow> (hd (mem_read (msg_buffer m') (unat (msg_position m')) 1),
          m'\<lparr>msg_position := msg_position m' + of_nat 1\<rparr>))"
    by (auto simp: getByte_def fun_eq_iff mem_read_def split: prod.split bool.split)
  then show ?thesis using read_bytes_within [where n = 1 and d = 0 and h = hd and m = m] by simp
qed

lemma getString_within: "read_within (getString 0) m"
proof -
  have "getString 0 = (\<lambda>m::'a netmsg_scheme. case get 2 m of (len, m') \<Rightarrow>
     (case canRead (int (unat (len :: u16))) m' of
        (False, m'') \<Rightarrow> ([], m'')
      | (True, m'') \<Rightarrow> (mem_read (msg_buffer m'') (unat (msg_position m'')) (unat len),
          m''\<lparr>msg_position := msg_position m'' + of_nat (unat len)\<rparr>)))"
    by (simp add: getString_def fun_eq_iff split: prod.split bool.split)
  moreover have "read_within (\<lambda>m'. case canRead (int (unat (len :: u16))) m' of
        (False, m'') \<Rightarrow> ([], m'')
      | (True, m'') \<Rightarrow> (mem_read (msg_buffer m'') (unat (msg_position m'')) (unat len),
          m''\<lparr>msg_position := msg_position m'' + of_nat (unat len)\<rparr>)) m'"
    for len and m' :: "'a netmsg_scheme"
    using read_bytes_within [where n = "unat len" and d = "[]" and h = "\<lambda>bs. bs"] .
  ultimately show ?thesis by (simp only: read_within_bind get_within)
qed

lemma getPosition_within: "read_within getPosition m"
  unfolding getPosition_def [abs_def]
  by (intro read_within_bind get_within getByte_within read_within_return)

lemma read_within_map: "read_within f m \<Longrightarrow> read_within (\<lambda>m. apfst h (f m)) m"
  using read_within_bind [of f m "\<lambda>v m. (h v, m)", OF _ read_within_return]
  by (simp add: case_prod_beta apfst_def map_prod_def)

lemma fetch_field_within: "read_within (fetch_field s) m"
  by (cases s) (simp_all add: fetch_field.simps [abs_def] read_within_map get_within getByte_within
      getString_within getPosition_within)


end
