(* ===== verification/Xtea.thy ===== *)
theory Xtea
  imports Prelude
begin

text \<open>
  \<^verbatim>\<open>security/xtea.cpp\<close>: the block cipher of the game protocol. The data pointer is an offset into a
  byte array that ends at \<open>lim\<close>; an access past the end is undefined in C++ and is \<open>None\<close> here.
\<close>

section \<open>The cipher\<close>

type_synonym key = "u32 \<times> u32 \<times> u32 \<times> u32"

definition key_at :: "key \<Rightarrow> u32 \<Rightarrow> u32" where
  "key_at k i = (case k of (k0, k1, k2, k3) \<Rightarrow>
     if i = 0 then k0 else if i = 1 then k1 else if i = 2 then k2 else k3)"

definition delta :: u32 where
  "delta = 0x9E3779B9"

definition load32 :: "mem \<Rightarrow> nat \<Rightarrow> u32" where
  "load32 m a = ucast (m a) OR push_bit 8 (ucast (m (a + 1)))
     OR push_bit 16 (ucast (m (a + 2))) OR push_bit 24 (ucast (m (a + 3)))"

definition store32 :: "u32 \<Rightarrow> u8 list" where
  "store32 w = [ucast w, ucast (drop_bit 8 w), ucast (drop_bit 16 w), ucast (drop_bit 24 w)]"

type_synonym round = "u32 \<Rightarrow> u32 \<Rightarrow> u32 \<times> u32"

definition round_block :: "round \<Rightarrow> mem \<Rightarrow> nat \<Rightarrow> mem" where
  "round_block rnd m a =
     (case rnd (load32 m a) (load32 m (a + 4)) of
        (left, right) \<Rightarrow> mem_write m a (store32 left @ store32 right))"

function apply_rounds_from :: "nat \<Rightarrow> mem \<Rightarrow> nat \<Rightarrow> nat \<Rightarrow> nat \<Rightarrow> round \<Rightarrow> mem option" where
  "apply_rounds_from j m data lim len rnd =
     (if j < len then
        (if data + j + 8 \<le> lim
         then apply_rounds_from (j + 8) (round_block rnd m (data + j)) data lim len rnd
         else None)
      else Some m)"
  by pat_completeness auto
termination
  by (relation "measure (\<lambda>(j, m, data, lim, len, rnd). len - j)") auto

definition apply_rounds :: "mem \<Rightarrow> nat \<Rightarrow> nat \<Rightarrow> nat \<Rightarrow> round \<Rightarrow> mem option" where
  "apply_rounds = apply_rounds_from 0"

definition encrypt_round :: "key \<Rightarrow> u32 \<Rightarrow> u32 \<Rightarrow> round" where
  "encrypt_round k sm next_sum left right =
     (let left' = left + (((push_bit 4 right XOR drop_bit 5 right) + right)
                          XOR (sm + key_at k (sm AND 3)));
          right' = right + (((push_bit 4 left' XOR drop_bit 5 left') + left')
                          XOR (next_sum + key_at k (drop_bit 11 next_sum AND 3)))
      in (left', right'))"

definition decrypt_round :: "key \<Rightarrow> u32 \<Rightarrow> u32 \<Rightarrow> round" where
  "decrypt_round k sm next_sum left right =
     (let right' = right - (((push_bit 4 left XOR drop_bit 5 left) + left)
                          XOR (sm + key_at k (drop_bit 11 sm AND 3)));
          left' = left - (((push_bit 4 right' XOR drop_bit 5 right') + right')
                          XOR (next_sum + key_at k (next_sum AND 3)))
      in (left', right'))"

fun encrypt_loop :: "nat \<Rightarrow> u32 \<Rightarrow> u32 \<Rightarrow> mem \<Rightarrow> nat \<Rightarrow> nat \<Rightarrow> nat \<Rightarrow> key \<Rightarrow> mem option" where
  "encrypt_loop 0 sm next_sum m data lim len k = Some m"
| "encrypt_loop (Suc n) sm next_sum m data lim len k =
     (case apply_rounds m data lim len (encrypt_round k sm next_sum) of
        None \<Rightarrow> None
      | Some m' \<Rightarrow> encrypt_loop n next_sum (next_sum + delta) m' data lim len k)"

definition xtea_encrypt :: "mem \<Rightarrow> nat \<Rightarrow> nat \<Rightarrow> nat \<Rightarrow> key \<Rightarrow> mem option" where
  "xtea_encrypt = encrypt_loop 32 0 (0 + delta)"

fun decrypt_loop :: "nat \<Rightarrow> u32 \<Rightarrow> u32 \<Rightarrow> mem \<Rightarrow> nat \<Rightarrow> nat \<Rightarrow> nat \<Rightarrow> key \<Rightarrow> mem option" where
  "decrypt_loop 0 sm next_sum m data lim len k = Some m"
| "decrypt_loop (Suc n) sm next_sum m data lim len k =
     (case apply_rounds m data lim len (decrypt_round k sm next_sum) of
        None \<Rightarrow> None
      | Some m' \<Rightarrow> decrypt_loop n next_sum (next_sum - delta) m' data lim len k)"

definition xtea_decrypt :: "mem \<Rightarrow> nat \<Rightarrow> nat \<Rightarrow> nat \<Rightarrow> key \<Rightarrow> mem option" where
  "xtea_decrypt m data lim len k =
     (let sm = push_bit 5 delta in decrypt_loop 32 sm (sm - delta) m data lim len k)"

declare apply_rounds_from.simps [simp del]

section \<open>One block\<close>

lemma length_store32 [simp]: "length (store32 w) = 4"
  by (simp add: store32_def)

text \<open>The four bytes of a word and the word of four bytes determine each other.\<close>

lemma word_of_bytes:
  "ucast (ucast w :: u8) OR push_bit 8 (ucast (ucast (drop_bit 8 w) :: u8))
     OR push_bit 16 (ucast (ucast (drop_bit 16 w) :: u8))
     OR push_bit 24 (ucast (ucast (drop_bit 24 w) :: u8)) = (w :: u32)" (is "?x = w")
proof (rule bit_word_eqI)
  fix n
  assume "n < LENGTH(32)"
  then consider "n < 8" | "8 \<le> n" "n < 16" | "16 \<le> n" "n < 24" | "24 \<le> n" "n < 32"
    by fastforce
  then show "bit ?x n = bit w n"
    by cases (auto simp: bit_simps)
qed

lemma bytes_of_word:
  fixes b0 b1 b2 b3 :: u8
  defines "w \<equiv> (ucast b0 OR push_bit 8 (ucast b1) OR push_bit 16 (ucast b2)
                  OR push_bit 24 (ucast b3) :: u32)"
  shows "ucast w = b0" and "ucast (drop_bit 8 w) = b1"
    and "ucast (drop_bit 16 w) = b2" and "ucast (drop_bit 24 w) = b3"
  unfolding w_def by (rule bit_word_eqI; auto simp: bit_simps dest: bit_imp_le_length)+

lemma mem_read_4: "mem_read m a 4 = [m a, m (a + 1), m (a + 2), m (a + 3)]"
  by (simp add: mem_read_def upt_rec numeral_eq_Suc)

lemma store32_load32: "store32 (load32 m a) = mem_read m a 4"
  by (simp only: store32_def load32_def bytes_of_word mem_read_4)

lemma load32_write:
  "load32 (mem_write m a (store32 l @ store32 r)) a = l"
  "load32 (mem_write m a (store32 l @ store32 r)) (a + 4) = r"
  by (simp_all add: load32_def store32_def mem_write_def word_of_bytes)

lemma store_block: "store32 (load32 m a) @ store32 (load32 m (a + 4)) = mem_read m a 8"
  using mem_read_append [of m a 4 4] by (simp add: store32_load32)

section \<open>The inverse-round contract\<close>

text \<open>
  A pair of round functions of which the second undoes the first. Undoing one round on every
  block of the data undoes the whole pass.
\<close>

locale inverse_round =
  fixes f :: round and g :: round
  assumes undo: "f l r = (l', r') \<Longrightarrow> g l' r' = (l, r)"
begin

lemma undo_block: "round_block g (round_block f m a) a = m"
proof -
  obtain l' r' where f: "f (load32 m a) (load32 m (a + 4)) = (l', r')"
    by fastforce
  then have "round_block g (round_block f m a) a
      = mem_write (mem_write m a (store32 l' @ store32 r')) a
          (store32 (load32 m a) @ store32 (load32 m (a + 4)))"
    by (simp add: round_block_def load32_write undo [OF f])
  also have "\<dots> = mem_write m a (mem_read m a 8)"
    unfolding store_block by (rule mem_write_write_same) simp
  finally show ?thesis by (simp add: mem_write_read_same)
qed

end

text \<open>Rounds on different blocks do not interfere.\<close>

lemma load32_outside:
  "b + 4 \<le> a \<or> a + length bs \<le> b \<Longrightarrow> load32 (mem_write m a bs) b = load32 m b"
  by (auto simp: load32_def mem_write_def)

lemma round_block_commute:
  assumes "a + 8 \<le> b \<or> b + 8 \<le> a"
  shows "round_block f (round_block g m a) b = round_block g (round_block f m b) a"
proof -
  obtain p q where g: "g (load32 m a) (load32 m (a + 4)) = (p, q)" by fastforce
  obtain s t where f: "f (load32 m b) (load32 m (b + 4)) = (s, t)" by fastforce
  from assms show ?thesis
    by (auto simp: round_block_def g f load32_outside intro!: mem_write_commute)
qed

lemma round_block_outside: "i < a \<or> a + 8 \<le> i \<Longrightarrow> round_block f m a i = m i"
  by (auto simp: round_block_def mem_write_def split: prod.split)

lemma apply_rounds_from_past:
  "len \<le> j \<Longrightarrow> apply_rounds_from j m data lim len f = Some m"
  by (simp add: apply_rounds_from.simps [of j])

text \<open>A pass over a whole number of blocks inside the buffer always finishes.\<close>

lemma apply_rounds_from_total:
  assumes "8 dvd len - j" and "data + len \<le> lim"
  shows "\<exists>m'. apply_rounds_from j m data lim len f = Some m'
           \<and> (\<forall>i. i < data + j \<or> data + len \<le> i \<longrightarrow> m' i = m i)"
  using assms
proof (induction j m data lim len f rule: apply_rounds_from.induct)
  case (1 j m data lim len f)
  show ?case
  proof (cases "j < len")
    case True
    with "1.prems"(1) have "j + 8 \<le> len" by (auto dest!: dvd_imp_le)
    moreover from this "1.prems"(1) have "8 dvd len - (j + 8)"
      by (metis diff_diff_left dvd_diff_nat dvd_refl)
    ultimately obtain m' where
      m': "apply_rounds_from (j + 8) (round_block f m (data + j)) data lim len f = Some m'"
        "\<forall>i. i < data + (j + 8) \<or> data + len \<le> i \<longrightarrow> m' i = round_block f m (data + j) i"
      using "1.IH" "1.prems" True by fastforce
    with True \<open>j + 8 \<le> len\<close> "1.prems"(2) show ?thesis
      by (auto simp: apply_rounds_from.simps [of j] round_block_outside)
  next
    case False
    then show ?thesis by (simp add: apply_rounds_from_past)
  qed
qed

lemma apply_rounds_total:
  assumes "8 dvd len" and "data + len \<le> lim"
  shows "\<exists>m'. apply_rounds m data lim len f = Some m'
           \<and> (\<forall>i. i < data \<or> data + len \<le> i \<longrightarrow> m' i = m i)"
  using apply_rounds_from_total [of len 0 data lim m f] assms by (simp add: apply_rounds_def)

text \<open>A round on a block before the current one can be moved past the rest of the pass.\<close>

lemma apply_rounds_from_commute:
  assumes "a + 8 \<le> data + j"
  shows "apply_rounds_from j (round_block g m a) data lim len f
           = map_option (\<lambda>m'. round_block g m' a) (apply_rounds_from j m data lim len f)"
  using assms
proof (induction j m data lim len f rule: apply_rounds_from.induct)
  case (1 j m data lim len f)
  show ?case
  proof (cases "j < len \<and> data + j + 8 \<le> lim")
    case True
    have "round_block f (round_block g m a) (data + j) = round_block g (round_block f m (data + j)) a"
      using "1.prems" by (intro round_block_commute) auto
    with True "1.IH" "1.prems" show ?thesis
      by (simp add: apply_rounds_from.simps [of j])
  next
    case False
    then show ?thesis by (auto simp: apply_rounds_from.simps [of j])
  qed
qed

context inverse_round begin

lemma undo_pass_from:
  "apply_rounds_from j m data lim len rnd = Some m' \<Longrightarrow> rnd = f \<Longrightarrow>
     apply_rounds_from j m' data lim len g = Some m"
proof (induction j m data lim len rnd arbitrary: m' rule: apply_rounds_from.induct)
  case (1 j m data lim len rnd)
  show ?case
  proof (cases "j < len")
    case True
    with "1.prems" have fits: "data + j + 8 \<le> lim"
      and rest: "apply_rounds_from (j + 8) (round_block rnd m (data + j)) data lim len rnd = Some m'"
      by (auto simp: apply_rounds_from.simps [of j] split: if_splits)
    have "apply_rounds_from (j + 8) m' data lim len g = Some (round_block rnd m (data + j))"
      using "1.IH" [OF True fits rest] "1.prems"(2) by simp
    then have "apply_rounds_from (j + 8) (round_block g m' (data + j)) data lim len g
        = Some (round_block g (round_block rnd m (data + j)) (data + j))"
      by (subst apply_rounds_from_commute) auto
    with True fits "1.prems"(2) show ?thesis
      by (simp add: apply_rounds_from.simps [of j m'] undo_block)
  next
    case False
    with "1.prems" show ?thesis by (simp add: apply_rounds_from_past)
  qed
qed

lemma undo_pass:
  "apply_rounds m data lim len f = Some m' \<Longrightarrow> apply_rounds m' data lim len g = Some m"
  unfolding apply_rounds_def by (erule undo_pass_from) (rule refl)

end

section \<open>The cipher's rounds satisfy the contract\<close>

interpretation er: inverse_round "encrypt_round k s t" "decrypt_round k t s" for k s t
  by unfold_locales (auto simp: encrypt_round_def decrypt_round_def Let_def)

interpretation dr: inverse_round "decrypt_round k t s" "encrypt_round k s t" for k s t
  by unfold_locales (auto simp: encrypt_round_def decrypt_round_def Let_def)

section \<open>Thirty-two rounds\<close>

lemma encrypt_loop_total:
  assumes "8 dvd len" and "data + len \<le> lim"
  shows "\<exists>m'. encrypt_loop n s t m data lim len k = Some m'
           \<and> (\<forall>i. i < data \<or> data + len \<le> i \<longrightarrow> m' i = m i)"
proof (induction n arbitrary: s t m)
  case 0
  then show ?case by simp
next
  case (Suc n)
  obtain m1 where m1: "apply_rounds m data lim len (encrypt_round k s t) = Some m1"
      "\<forall>i. i < data \<or> data + len \<le> i \<longrightarrow> m1 i = m i"
    using apply_rounds_total [OF assms] by blast
  obtain m2 where "encrypt_loop n t (t + delta) m1 data lim len k = Some m2"
      "\<forall>i. i < data \<or> data + len \<le> i \<longrightarrow> m2 i = m1 i"
    using Suc.IH by blast
  with m1 show ?case by simp
qed

text \<open>The last decryption round undoes the first encryption round.\<close>

lemma decrypt_loop_last:
  "decrypt_loop (Suc n) s (s - delta) m data lim len k =
     (case decrypt_loop n s (s - delta) m data lim len k of
        None \<Rightarrow> None
      | Some m' \<Rightarrow> apply_rounds m' data lim len
          (decrypt_round k (s - of_nat n * delta) (s - of_nat n * delta - delta)))"
proof (induction n arbitrary: s m)
  case 0
  then show ?case by (simp split: option.split)
next
  case (Suc n)
  show ?case
  proof (cases "apply_rounds m data lim len (decrypt_round k s (s - delta))")
    case None
    then show ?thesis by simp
  next
    case (Some m1)
    then have "decrypt_loop (Suc (Suc n)) s (s - delta) m data lim len k
        = decrypt_loop (Suc n) (s - delta) (s - delta - delta) m1 data lim len k"
      by simp
    also have "\<dots> = (case decrypt_loop n (s - delta) (s - delta - delta) m1 data lim len k of
        None \<Rightarrow> None
      | Some m' \<Rightarrow> apply_rounds m' data lim len
          (decrypt_round k (s - delta - of_nat n * delta) (s - delta - of_nat n * delta - delta)))"
      by (rule Suc.IH)
    also have "s - delta - of_nat n * delta = s - of_nat (Suc n) * delta"
      by (simp add: algebra_simps)
    finally show ?thesis using Some by (simp del: of_nat_Suc)
  qed
qed

lemma decrypt_encrypt_loop:
  assumes "encrypt_loop n s (s + delta) m data lim len k = Some m'"
  shows "decrypt_loop n (s + of_nat n * delta) (s + of_nat n * delta - delta) m' data lim len k = Some m"
  using assms
proof (induction n arbitrary: s m)
  case 0
  then show ?case by simp
next
  case (Suc n)
  from Suc.prems obtain m1 where
    first: "apply_rounds m data lim len (encrypt_round k s (s + delta)) = Some m1" and
    rest: "encrypt_loop n (s + delta) (s + delta + delta) m1 data lim len k = Some m'"
    by (auto split: option.splits)
  from Suc.IH [OF rest] have
    "decrypt_loop n (s + of_nat (Suc n) * delta) (s + of_nat (Suc n) * delta - delta)
       m' data lim len k = Some m1"
    by (simp add: algebra_simps)
  moreover have "apply_rounds m1 data lim len (decrypt_round k (s + delta) s) = Some m"
    using first by (rule er.undo_pass)
  moreover have "s + of_nat (Suc n) * delta - of_nat n * delta = s + delta"
    "s + of_nat (Suc n) * delta - of_nat n * delta - delta = s"
    by (simp_all add: algebra_simps)
  ultimately show ?case
    by (simp only: decrypt_loop_last option.case)
qed

text \<open>
  The contract the protocol relies on: on a whole number of blocks inside the buffer the
  cipher finishes, touches nothing but those blocks, and decryption restores the memory.
\<close>

lemma xtea_encrypt_total:
  "8 dvd len \<Longrightarrow> data + len \<le> lim \<Longrightarrow>
     \<exists>m'. xtea_encrypt m data lim len k = Some m' \<and> (\<forall>i. i < data \<or> data + len \<le> i \<longrightarrow> m' i = m i)"
  unfolding xtea_encrypt_def by (rule encrypt_loop_total)

lemma push_bit_delta: "push_bit 5 delta = 0 + of_nat 32 * delta"
  by (simp add: delta_def)

lemma decrypt_encrypt:
  "xtea_encrypt m data lim len k = Some m' \<Longrightarrow> xtea_decrypt m' data lim len k = Some m"
  unfolding xtea_encrypt_def xtea_decrypt_def push_bit_delta Let_def
  by (rule decrypt_encrypt_loop)

section \<open>The cipher looks at nothing but its blocks\<close>

definition agree :: "nat \<Rightarrow> nat \<Rightarrow> mem \<Rightarrow> mem \<Rightarrow> bool" where
  "agree lo hi m m' \<longleftrightarrow> (\<forall>i. lo \<le> i \<and> i < hi \<longrightarrow> m i = m' i)"

lemma round_block_agree:
  assumes "agree lo hi m m'" and "lo \<le> a" and "a + 8 \<le> hi"
  shows "agree lo hi (round_block f m a) (round_block f m' a)"
proof -
  have "load32 m a = load32 m' a" "load32 m (a + 4) = load32 m' (a + 4)"
    using assms by (simp_all add: load32_def agree_def)
  with assms show ?thesis
    by (auto simp: round_block_def agree_def mem_write_def split: prod.split)
qed

lemma apply_rounds_from_agree:
  assumes "apply_rounds_from j m data lim len f = Some r" and "agree data (data + len) m m'"
    and "8 dvd len - j"
  shows "\<exists>r'. apply_rounds_from j m' data lim len f = Some r' \<and> agree data (data + len) r r'"
  using assms
proof (induction j m data lim len f arbitrary: m' rule: apply_rounds_from.induct)
  case (1 j m data lim len f)
  show ?case
  proof (cases "j < len")
    case True
    with "1.prems"(1) have fits: "data + j + 8 \<le> lim"
      and rest: "apply_rounds_from (j + 8) (round_block f m (data + j)) data lim len f = Some r"
      by (auto simp: apply_rounds_from.simps [of j] split: if_splits)
    from True "1.prems"(3) have "j + 8 \<le> len" by (auto dest!: dvd_imp_le)
    moreover from this "1.prems"(3) have "8 dvd len - (j + 8)"
      by (metis diff_diff_left dvd_diff_nat dvd_refl)
    ultimately show ?thesis
      using "1.IH" [OF True fits rest round_block_agree] "1.prems"(2) True fits
      by (simp add: apply_rounds_from.simps [of j m'])
  next
    case False
    with "1.prems" show ?thesis by (simp add: apply_rounds_from_past)
  qed
qed

lemma decrypt_loop_agree:
  assumes "decrypt_loop n s t m data lim len k = Some r" and "agree data (data + len) m m'"
    and "8 dvd len"
  shows "\<exists>r'. decrypt_loop n s t m' data lim len k = Some r' \<and> agree data (data + len) r r'"
  using assms
proof (induction n arbitrary: s t m m')
  case 0
  then show ?case by simp
next
  case (Suc n)
  from Suc.prems(1) obtain m1 where
    m1: "apply_rounds_from 0 m data lim len (decrypt_round k s t) = Some m1" and
    rest: "decrypt_loop n t (t - delta) m1 data lim len k = Some r"
    by (auto simp: apply_rounds_def split: option.splits)
  obtain m1' where "apply_rounds_from 0 m' data lim len (decrypt_round k s t) = Some m1'"
    "agree data (data + len) m1 m1'"
    using apply_rounds_from_agree [OF m1 Suc.prems(2)] Suc.prems(3) by auto
  then show ?case
    using Suc.IH [OF rest] Suc.prems(3) by (auto simp: apply_rounds_def)
qed

lemma decrypt_loop_frame:
  assumes "8 dvd len" and "data + len \<le> lim"
  shows "\<exists>m'. decrypt_loop n s t m data lim len k = Some m'
           \<and> (\<forall>i. i < data \<or> data + len \<le> i \<longrightarrow> m' i = m i)"
proof (induction n arbitrary: s t m)
  case 0
  then show ?case by simp
next
  case (Suc n)
  obtain m1 where m1: "apply_rounds m data lim len (decrypt_round k s t) = Some m1"
      "\<forall>i. i < data \<or> data + len \<le> i \<longrightarrow> m1 i = m i"
    using apply_rounds_total [OF assms] by blast
  obtain m2 where "decrypt_loop n t (t - delta) m1 data lim len k = Some m2"
      "\<forall>i. i < data \<or> data + len \<le> i \<longrightarrow> m2 i = m1 i"
    using Suc.IH by blast
  with m1 show ?case by simp
qed

lemma xtea_decrypt_total:
  "8 dvd len \<Longrightarrow> data + len \<le> lim \<Longrightarrow>
     \<exists>m'. xtea_decrypt m data lim len k = Some m' \<and> (\<forall>i. i < data \<or> data + len \<le> i \<longrightarrow> m' i = m i)"
  unfolding xtea_decrypt_def Let_def by (rule decrypt_loop_frame)

text \<open>
  What the receiver of a packet needs: its own buffer agrees with the sender's on the encrypted
  blocks only, and decrypting there gives the sender's plain text.
\<close>

lemma decrypt_received:
  assumes "xtea_encrypt m data lim len k = Some c" and "agree data (data + len) c w"
    and "8 dvd len" and "data + len \<le> lim"
  shows "\<exists>d. xtea_decrypt w data lim len k = Some d \<and> agree data (data + len) d m
           \<and> (\<forall>i. i < data \<or> data + len \<le> i \<longrightarrow> d i = w i)"
proof -
  from decrypt_encrypt [OF assms(1)] have "xtea_decrypt c data lim len k = Some m" .
  then obtain d where "xtea_decrypt w data lim len k = Some d" "agree data (data + len) m d"
    unfolding xtea_decrypt_def Let_def using decrypt_loop_agree [OF _ assms(2,3)] by blast
  with xtea_decrypt_total [OF assms(3,4), of w k] show ?thesis by (auto simp: agree_def)
qed

section \<open>Properties\<close>

text \<open>
  XTEA round trip. On a whole number of 8-byte blocks inside the buffer \<^verbatim>\<open>xtea::encrypt\<close> and
  \<^verbatim>\<open>xtea::decrypt\<close> both return without touching a byte outside those blocks, and decryption undoes
  encryption, for every key and every memory.
\<close>

theorem xtea_roundtrip:
  assumes "8 dvd len" and "data + len \<le> lim"
  shows "\<exists>c p. xtea_encrypt m data lim len k = Some c \<and> xtea_decrypt c data lim len k = Some m
       \<and> (\<forall>i. i < data \<or> data + len \<le> i \<longrightarrow> c i = m i)
       \<and> xtea_decrypt m data lim len k = Some p
       \<and> (\<forall>i. i < data \<or> data + len \<le> i \<longrightarrow> p i = m i)"
  using xtea_encrypt_total [OF assms, of m k] xtea_decrypt_total [OF assms, of m k] decrypt_encrypt
  by blast

theorem xtea_roundtrip_witness:
  "\<exists>c. xtea_encrypt (\<lambda>i. of_nat i) 6 24590 16 (1, 2, 3, 4) = Some c
     \<and> xtea_decrypt c 6 24590 16 (1, 2, 3, 4) = Some (\<lambda>i. of_nat i)"
  using xtea_roundtrip [of 16 6 24590 "\<lambda>i. of_nat i" "(1, 2, 3, 4)"] by auto

end
