(* ===== verification/Protocol.thy ===== *)
theory Protocol
  imports NetMessage Xtea
begin

text \<open>
  \<^verbatim>\<open>server/network/protocol/protocol.cpp\<close> and \<^verbatim>\<open>protocol.h\<close>: what happens to a message between the
  game and the socket. An outgoing message gets its inner length, is padded, encrypted and given
  the outer header; an incoming one is decrypted and its inner length checked. Undefined behaviour
  (a failed \<^verbatim>\<open>assert\<close>, an access outside the message buffer) is \<open>None\<close>.
\<close>

section \<open>State\<close>

record protocol =
  outputBuffer :: "outmsg option"
  xtea_key :: key
  sequenceNumber :: u32
  encryptionEnabled :: bool
  checksumEnabled :: bool
  compactCrypt :: bool
  rawMessages :: bool

definition new_protocol :: "key \<Rightarrow> protocol" where
  "new_protocol k = \<lparr>outputBuffer = None, xtea_key = k, sequenceNumber = 0, encryptionEnabled = False,
     checksumEnabled = True, compactCrypt = False, rawMessages = False\<rparr>"

definition enableXTEAEncryption :: "protocol \<Rightarrow> protocol" where
  "enableXTEAEncryption p = p\<lparr>encryptionEnabled := True\<rparr>"

definition setXTEAKey :: "key \<Rightarrow> protocol \<Rightarrow> protocol" where
  "setXTEAKey k p = p\<lparr>xtea_key := k\<rparr>"

definition disableChecksum :: "protocol \<Rightarrow> protocol" where
  "disableChecksum p = p\<lparr>checksumEnabled := False\<rparr>"

definition enableCompact :: "protocol \<Rightarrow> protocol" where
  "enableCompact p = p\<lparr>compactCrypt := True\<rparr>"

definition setRawMessages :: "bool \<Rightarrow> protocol \<Rightarrow> protocol" where
  "setRawMessages v p = p\<lparr>rawMessages := v\<rparr>"

section \<open>Encryption\<close>

definition XTEA_encrypt :: "key \<Rightarrow> outmsg \<Rightarrow> outmsg option" where
  "XTEA_encrypt k m =
     (let paddingBytes = unat (msg_length m) mod 8;
          m1 = (if paddingBytes \<noteq> 0 then addPaddingBytes (8 - paddingBytes) m else m)
      in map_option (\<lambda>b. m1\<lparr>msg_buffer := b\<rparr>)
           (xtea_encrypt (msg_buffer m1) (unat (outputBufferStart m1)) NETWORKMESSAGE_MAXSIZE
              (unat (msg_length m1)) k))"

definition XTEA_decrypt :: "key \<Rightarrow> netmsg \<Rightarrow> (bool \<times> netmsg) option" where
  "XTEA_decrypt k m =
     (if (uint (msg_length m) - 6) AND 7 \<noteq> 0 then Some (False, m)
      else case xtea_decrypt (msg_buffer m) (unat (msg_position m)) NETWORKMESSAGE_MAXSIZE
                  (nat (uint (msg_length m) - 6)) k of
        None \<Rightarrow> None
      | Some b \<Rightarrow>
          (case get 2 (m\<lparr>msg_buffer := b\<rparr>) of (innerLength :: u16, m') \<Rightarrow>
             if uint innerLength + 8 > uint (msg_length m') then Some (False, m')
             else Some (True, setLength innerLength m')))"

text \<open>\<open>rsa\<close> is the private-key operation of the cryptography library on 128 bytes.\<close>

definition RSA_decrypt :: "(u8 list \<Rightarrow> u8 list) \<Rightarrow> netmsg \<Rightarrow> (bool \<times> netmsg) option" where
  "RSA_decrypt rsa m =
     (if uint (msg_length m) - uint (msg_position m) < 128 then Some (False, m)
      else if unat (msg_position m) + 128 > NETWORKMESSAGE_MAXSIZE then None
      else let at = unat (msg_position m);
               m1 = m\<lparr>msg_buffer := mem_write (msg_buffer m) at (rsa (mem_read (msg_buffer m) at 128))\<rparr>
           in case getByte m1 of (b, m2) \<Rightarrow> Some (b = 0, m2))"

section \<open>Sending and receiving\<close>

definition onSendMessage :: "outmsg \<Rightarrow> protocol \<Rightarrow> (outmsg \<times> protocol) option" where
  "onSendMessage msg p =
     (if rawMessages p then Some (msg, p)
      else case writeMessageLength msg of None \<Rightarrow> None
      | Some m1 \<Rightarrow>
          (if \<not> encryptionEnabled p then Some (m1, p)
           else case XTEA_encrypt (xtea_key p) m1 of None \<Rightarrow> None
           | Some m2 \<Rightarrow>
               map_option (\<lambda>(m3, seq). (m3, p\<lparr>sequenceNumber := seq\<rparr>))
                 (if \<not> compactCrypt p
                  then addCryptoHeader (if checksumEnabled p then 1 else 0) (sequenceNumber p) m2
                  else addCryptoHeader 2 (sequenceNumber p) m2)))"

text \<open>
  \<^verbatim>\<open>onRecvMessage\<close>: whether the subclass's \<^verbatim>\<open>parsePacket\<close> is called, and the message as it is then.
\<close>

definition onRecvMessage :: "netmsg \<Rightarrow> protocol \<Rightarrow> (bool \<times> netmsg) option" where
  "onRecvMessage msg p =
     (if encryptionEnabled p then XTEA_decrypt (xtea_key p) msg else Some (True, msg))"

text \<open>
  \<^verbatim>\<open>getOutputBuffer\<close>: the new state, whose buffer is the one returned, and the message handed to
  \<^verbatim>\<open>send\<close>. The memory of a new buffer is whatever the allocator returns.
\<close>

definition getOutputBuffer :: "mem \<Rightarrow> int \<Rightarrow> protocol \<Rightarrow> protocol \<times> outmsg list" where
  "getOutputBuffer fresh n p =
     (case outputBuffer p of
        None \<Rightarrow> (p\<lparr>outputBuffer := Some (new_output fresh)\<rparr>, [])
      | Some buf \<Rightarrow>
          (if uint (msg_length buf) + n > int MAX_PROTOCOL_BODY_LENGTH
           then (p\<lparr>outputBuffer := Some (new_output fresh)\<rparr>, [buf])
           else (p, [])))"

section \<open>Bounds of the output buffer\<close>

definition well_built :: "outmsg \<Rightarrow> bool" where
  "well_built m \<longleftrightarrow> outputBufferStart m = INITIAL_BUFFER_POSITION
     \<and> unat (msg_position m) = unat (msg_length m) + 8 \<and> unat (msg_position m) < MAX_BODY_LENGTH"

lemma well_built_new: "well_built (new_output b)"
  by (simp add: well_built_def new_output_def INITIAL_BUFFER_POSITION_def size_defs)

lemma padded_length: "(k + (if k mod 8 \<noteq> 0 then 8 - k mod 8 else 0)) mod 8 = (0::nat)"
  by presburger

text \<open>The padded message: its length is a multiple of eight and it still fits.\<close>

definition padding :: "nat \<Rightarrow> nat" where
  "padding k = (if k mod 8 \<noteq> 0 then 8 - k mod 8 else 0)"

lemma padding_dvd: "8 dvd k + padding k"
  unfolding padding_def dvd_eq_mod_eq_0 by (rule padded_length)

lemma padding_less: "padding k < 8"
  by (simp add: padding_def)

section \<open>One packet from the sender to the receiver\<close>

definition plain_body :: "outmsg \<Rightarrow> mem" where
  "plain_body m =
     (let L = unat (msg_length m) in
      mem_write (mem_write (msg_buffer m) 6 (word_bytes 2 (msg_length m))) (8 + L)
        (replicate (padding (L + 2)) 0x33))"

definition enc_length :: "outmsg \<Rightarrow> nat" where
  "enc_length m = (let L = unat (msg_length m) in L + 2 + padding (L + 2))"

text \<open>There is room for the worst padding.\<close>

definition padding_fits :: "outmsg \<Rightarrow> bool" where
  "padding_fits m \<longleftrightarrow> well_built m \<and> canAdd m 7"

lemma enc_length_bounds:
  assumes "padding_fits m"
  shows "8 dvd enc_length m" "6 + enc_length m < NETWORKMESSAGE_MAXSIZE"
    "unat (msg_length m) + 2 \<le> enc_length m" "enc_length m + 6 < 65536"
  using assms padding_dvd [of "unat (msg_length m) + 2"] padding_less [of "unat (msg_length m) + 2"]
  by (auto simp: enc_length_def Let_def padding_fits_def well_built_def canAdd_def size_defs)

lemma unat_16: "n < 65536 \<Longrightarrow> unat (of_nat n :: u16) = n"
  using unat_plus_of_nat [of 0 n] by simp

lemma writeMessageLength_built:
  assumes "well_built m"
  shows "writeMessageLength m = Some (m\<lparr>outputBufferStart := 6,
     msg_buffer := mem_write (msg_buffer m) 6 (word_bytes 2 (msg_length m)), msg_length := msg_length m + 2\<rparr>)"
  using assms by (simp add: writeMessageLength_def add_header_def well_built_def INITIAL_BUFFER_POSITION_def Let_def)

lemma XTEA_encrypt_built:
  assumes "padding_fits m" "writeMessageLength m = Some m1"
  shows "\<exists>c. XTEA_encrypt k m1 = Some (m1\<lparr>msg_buffer := c, msg_length := of_nat (enc_length m)\<rparr>)
     \<and> xtea_encrypt (plain_body m) 6 NETWORKMESSAGE_MAXSIZE (enc_length m) k = Some c
     \<and> outputBufferStart m1 = 6"
proof -
  let ?L = "unat (msg_length m)"
  have wb: "well_built m" using assms(1) by (simp add: padding_fits_def)
  then have m1: "m1 = m\<lparr>outputBufferStart := 6,
     msg_buffer := mem_write (msg_buffer m) 6 (word_bytes 2 (msg_length m)), msg_length := msg_length m + 2\<rparr>"
    using writeMessageLength_built assms(2) by simp
  have len: "unat (msg_length m + 2) = ?L + 2"
    using unat_plus_of_nat [of "msg_length m" 2] wb by (simp add: well_built_def size_defs)
  have room: "canAdd m1 (padding (?L + 2))"
    using assms(1) padding_less [of "?L + 2"] by (simp add: padding_fits_def canAdd_def m1)
  define m2 where
    "m2 = (if unat (msg_length m1) mod 8 \<noteq> 0 then addPaddingBytes (8 - unat (msg_length m1) mod 8) m1 else m1)"
  have lenE: "of_nat (enc_length m) = msg_length m + 2 + of_nat (padding (?L + 2))"
    by (simp add: enc_length_def Let_def)
  have "m2 = (if padding (?L + 2) = 0 then m1 else addPaddingBytes (padding (?L + 2)) m1)"
    using len by (simp add: m2_def m1 padding_def)
  then have "m2 = m1\<lparr>msg_buffer := plain_body m, msg_length := of_nat (enc_length m)\<rparr>"
    using room wb unfolding lenE m1
    by (cases "padding (?L + 2) = 0")
      (simp_all add: addPaddingBytes_def plain_body_def Let_def well_built_def add.commute)
  moreover obtain c where
    "xtea_encrypt (plain_body m) 6 NETWORKMESSAGE_MAXSIZE (enc_length m) k = Some c"
    using xtea_encrypt_total [of "enc_length m" 6 NETWORKMESSAGE_MAXSIZE] enc_length_bounds [OF assms(1)]
    by fastforce
  moreover have "unat (of_nat (enc_length m) :: u16) = enc_length m"
    using enc_length_bounds(4) [OF assms(1)] by (intro unat_16) simp
  moreover have "outputBufferStart m1 = 6" by (simp add: m1)
  ultimately show ?thesis
    unfolding XTEA_encrypt_def Let_def m2_def [symmetric] by simp
qed

lemma addCryptoHeader_built:
  assumes "a = 1 \<or> a = 2" "outputBufferStart m = 6" "unat (msg_length m) + 6 < 65536"
  shows "\<exists>h m' seq'. addCryptoHeader a seq m = Some (m', seq') \<and> outputBufferStart m' = 0
     \<and> unat (msg_length m') = unat (msg_length m) + 6
     \<and> msg_buffer m' = mem_write (mem_write (msg_buffer m) 2 (word_bytes 4 (h :: u32))) 0
         (word_bytes 2 (msg_length m + 4))"
proof -
  have "unat (msg_length m + 6) = unat (msg_length m) + 6"
    using unat_plus_of_nat [of "msg_length m" 6] assms(3) by simp
  with assms(1,2) show ?thesis
    by (auto simp: addCryptoHeader_def writeMessageLength_def add_header_def Let_def add.assoc)
qed

lemma send_packet:
  assumes "padding_fits m" "encryptionEnabled p" "\<not> rawMessages p" "compactCrypt p \<or> checksumEnabled p"
  shows "\<exists>m' p' c h. onSendMessage m p = Some (m', p') \<and> outputBufferStart m' = 0
     \<and> unat (msg_length m') = enc_length m + 6
     \<and> xtea_encrypt (plain_body m) 6 NETWORKMESSAGE_MAXSIZE (enc_length m) (xtea_key p) = Some c
     \<and> msg_buffer m' = mem_write (mem_write c 2 (word_bytes 4 (h :: u32))) 0
         (word_bytes 2 (of_nat (enc_length m + 4) :: u16))"
proof -
  have "well_built m" using assms(1) by (simp add: padding_fits_def)
  then obtain m1 where m1: "writeMessageLength m = Some m1" using writeMessageLength_built by blast
  from XTEA_encrypt_built [OF assms(1) m1, of "xtea_key p"] obtain c where
    c: "XTEA_encrypt (xtea_key p) m1 = Some (m1\<lparr>msg_buffer := c, msg_length := of_nat (enc_length m)\<rparr>)"
      "xtea_encrypt (plain_body m) 6 NETWORKMESSAGE_MAXSIZE (enc_length m) (xtea_key p) = Some c"
      "outputBufferStart m1 = 6" by blast
  let ?m2 = "m1\<lparr>msg_buffer := c, msg_length := of_nat (enc_length m)\<rparr>"
  let ?a = "if compactCrypt p then 2 else 1 :: u8"
  have len: "unat (of_nat (enc_length m) :: u16) = enc_length m"
    using enc_length_bounds(4) [OF assms(1)] by (intro unat_16) simp
  obtain h m' seq' where h: "addCryptoHeader ?a (sequenceNumber p) ?m2 = Some (m', seq')"
    "outputBufferStart m' = 0" "unat (msg_length m') = enc_length m + 6"
    "msg_buffer m' = mem_write (mem_write c 2 (word_bytes 4 (h :: u32))) 0
         (word_bytes 2 (of_nat (enc_length m) + 4 :: u16))"
    using addCryptoHeader_built [of ?a ?m2 "sequenceNumber p"] c(3) len enc_length_bounds(4) [OF assms(1)]
    by (cases "compactCrypt p") auto
  moreover have "onSendMessage m p = Some (m', p\<lparr>sequenceNumber := seq'\<rparr>)"
    using assms(2-4) m1 c(1) h(1) by (auto simp: onSendMessage_def)
  ultimately show ?thesis using c(2) by auto
qed

lemma agree_read: "agree lo hi m m' \<Longrightarrow> lo \<le> a \<Longrightarrow> a + n \<le> hi \<Longrightarrow> mem_read m a n = mem_read m' a n"
  by (intro nth_equalityI) (auto simp: agree_def)

lemma plain_body_reads:
  "mem_read (plain_body m) 6 2 = word_bytes 2 (msg_length m)"
  "mem_read (plain_body m) 8 (unat (msg_length m)) = mem_read (msg_buffer m) 8 (unat (msg_length m))"
  by (simp_all add: plain_body_def Let_def mem_laws)

lemma and_7: "(int (8 * n)) AND 7 = 0"
  using take_bit_eq_mask [of 3 "int (8 * n)"] by (simp add: mask_eq_exp_minus_1 take_bit_eq_mod)

lemma receive_packet:
  assumes "padding_fits m"
    and "xtea_encrypt (plain_body m) 6 NETWORKMESSAGE_MAXSIZE (enc_length m) k = Some c"
    and "agree 6 (6 + enc_length m) c (msg_buffer r)"
    and "msg_position r = 6" and "unat (msg_length r) = enc_length m + 6"
  shows "\<exists>r'. XTEA_decrypt k r = Some (True, r') \<and> msg_length r' = msg_length m \<and> msg_position r' = 8
     \<and> msg_overrun r' = msg_overrun r
     \<and> mem_read (msg_buffer r') 8 (unat (msg_length m)) = mem_read (msg_buffer m) 8 (unat (msg_length m))"
proof -
  let ?E = "enc_length m" and ?L = "unat (msg_length m)"
  note b = enc_length_bounds [OF assms(1)]
  obtain d where d: "xtea_decrypt (msg_buffer r) 6 NETWORKMESSAGE_MAXSIZE ?E k = Some d"
    "agree 6 (6 + ?E) d (plain_body m)"
    using decrypt_received [OF assms(2,3) b(1)] b(2) by auto
  have len: "uint (msg_length r) - 6 = int ?E" using assms(5) uint_nat [of "msg_length r"] by linarith
  obtain e where "?E = 8 * e" using b(1) by (elim dvdE)
  then have mult: "(uint (msg_length r) - 6) AND 7 = 0" unfolding len by (simp only: and_7)
  have "mem_read d 6 2 = word_bytes 2 (msg_length m)"
    using agree_read [OF d(2), of 6 2] b(3) by (simp add: plain_body_reads)
  then have "readable (r\<lparr>msg_buffer := d\<rparr>) (word_bytes 2 (msg_length m))"
    using assms(4,5) by (simp add: readable_def size_defs)
  from u16_field.fetch_enc [OF TrueI this]
  have g: "get 2 (r\<lparr>msg_buffer := d\<rparr>) = (msg_length m, r\<lparr>msg_buffer := d, msg_position := 8\<rparr>)"
    using assms(4) by (simp add: advance_def)
  have "mem_read d 8 ?L = mem_read (msg_buffer m) 8 ?L"
    using agree_read [OF d(2), of 8 ?L] b(3) by (simp add: plain_body_reads)
  moreover have "\<not> uint (msg_length m) + 8 > uint (msg_length r)"
    using b(3) len uint_nat [of "msg_length m"] by linarith
  ultimately show ?thesis
    using mult d(1) assms(4) len by (simp add: XTEA_decrypt_def g setLength_def)
qed

section \<open>Properties\<close>

lemma and_7_dvd: "(n::int) AND 7 = 0 \<longleftrightarrow> 8 dvd n"
  using take_bit_eq_mask [of 3 n] by (simp add: mask_eq_exp_minus_1 take_bit_eq_mod dvd_eq_mod_eq_0)

lemma XTEA_decrypt_within:
  assumes "msg_position r = 6" and "unat (msg_length r) < NETWORKMESSAGE_MAXSIZE - 14"
  shows "\<exists>ok r'. XTEA_decrypt k r = Some (ok, r')
     \<and> (\<forall>i. i < 6 \<or> unat (msg_length r) \<le> i \<longrightarrow> msg_buffer r' i = msg_buffer r i)
     \<and> (ok \<longrightarrow> unat (msg_length r') + 8 \<le> unat (msg_length r) \<and> msg_position r' = 8)"
proof (cases "(uint (msg_length r) - 6) AND 7 = 0")
  case False
  then show ?thesis by (auto simp: XTEA_decrypt_def)
next
  case True
  let ?n = "nat (uint (msg_length r) - 6)"
  from True have "8 dvd uint (msg_length r) - 6" by (simp add: and_7_dvd)
  then obtain e where e: "uint (msg_length r) - 6 = 8 * e" by (elim dvdE)
  obtain l where l: "unat (msg_length r) = l" "uint (msg_length r) = int l" by (metis uint_nat)
  have "int l - 6 = 8 * e" using e l(2) by simp
  then have "6 \<le> l" by presburger
  moreover have "?n = l - 6" using l(2) by linarith
  moreover have "int (l - 6) = 8 * e" using e l(2) \<open>6 \<le> l\<close> by simp
  ultimately have n: "8 dvd ?n" "6 + ?n = unat (msg_length r)"
    using l(1) by (simp_all flip: int_dvd_int_iff)
  then obtain b where b: "xtea_decrypt (msg_buffer r) 6 NETWORKMESSAGE_MAXSIZE ?n k = Some b"
    "\<forall>i. i < 6 \<or> 6 + ?n \<le> i \<longrightarrow> b i = msg_buffer r i"
    using xtea_decrypt_total [of ?n 6 NETWORKMESSAGE_MAXSIZE "msg_buffer r" k] assms(2)
    by (auto simp: size_defs)
  have can: "canRead (int 2) (r\<lparr>msg_buffer := b\<rparr>) = (True, r\<lparr>msg_buffer := b\<rparr>)"
    using assms(1) n(2) by (simp only: canRead_iff) (simp add: size_defs)
  obtain il where g: "get 2 (r\<lparr>msg_buffer := b\<rparr>) = (il :: u16, r\<lparr>msg_buffer := b, msg_position := 8\<rparr>)"
    unfolding get_def can using assms(1) by simp
  have "unat il + 8 \<le> unat (msg_length r)" if "\<not> uint il + 8 > uint (msg_length r)"
    using that uint_nat [of il] uint_nat [of "msg_length r"] by linarith
  with True b n assms(1) show ?thesis
    by (auto simp: XTEA_decrypt_def g setLength_def)
qed

lemma XTEA_decrypt_defined:
  "msg_position r = 6 \<Longrightarrow> unat (msg_length r) < NETWORKMESSAGE_MAXSIZE - 14 \<Longrightarrow>
     \<exists>ok r'. XTEA_decrypt k r = Some (ok, r')"
  using XTEA_decrypt_within [of r k] by blast

text \<open>
  C39. Whatever bytes a client sends, decrypting a received packet stays inside the message
  buffer. For a packet whose length is what \<^verbatim>\<open>Connection::parseHeader\<close> accepts and whose checksum
  has been read, \<^verbatim>\<open>XTEA_decrypt\<close> returns; it changes nothing before position 6 nor behind the
  received bytes; if it accepts the packet, the inner length it installs leaves the message within
  what was received, so that later reads of the body cannot leave the packet.
\<close>

theorem XTEA_decrypt_safe:
  assumes "msg_position r = 6" and "unat (msg_length r) < NETWORKMESSAGE_MAXSIZE - 14"
  shows "\<exists>ok r'. XTEA_decrypt k r = Some (ok, r')
     \<and> (\<forall>i. i < 6 \<or> unat (msg_length r) \<le> i \<longrightarrow> msg_buffer r' i = msg_buffer r i)
     \<and> (ok \<longrightarrow> unat (msg_length r') + 8 \<le> unat (msg_length r) \<and> msg_position r' = 8)"
  using XTEA_decrypt_within [OF assms] .

theorem XTEA_decrypt_safe_witness:
  "\<exists>ok r'. XTEA_decrypt (1, 2, 3, 4) \<lparr>msg_length = 22, msg_position = 6, msg_overrun = False,
     msg_buffer = (\<lambda>_. 0xFF)\<rparr> = Some (ok, r') \<and> msg_buffer r' 22 = 0xFF"
  using XTEA_decrypt_safe [of "\<lparr>msg_length = 22, msg_position = 6, msg_overrun = False,
     msg_buffer = (\<lambda>_. 0xFF)\<rparr>" "(1, 2, 3, 4)"]
  by (auto simp: size_defs)

text \<open>
  \<^verbatim>\<open>getOutputBuffer\<close> keeps the room it is asked for: whatever the buffer held, the buffer it
  returns is a fresh one or can take \<open>n\<close> more bytes within \<open>MAX_PROTOCOL_BODY_LENGTH\<close>, and no
  message is lost: the previous buffer is either still the current one, or was handed to
  \<^verbatim>\<open>send\<close>, once.
\<close>

theorem getOutputBuffer_room:
  "\<exists>p' out buf. getOutputBuffer fresh n p = (p', out) \<and> outputBuffer p' = Some buf
     \<and> (buf = new_output fresh \<or> uint (msg_length buf) + n \<le> int MAX_PROTOCOL_BODY_LENGTH)
     \<and> (case outputBuffer p of None \<Rightarrow> out = []
        | Some old \<Rightarrow> (out = [old] \<and> buf = new_output fresh) \<or> (out = [] \<and> buf = old))"
  by (cases "outputBuffer p") (auto simp: getOutputBuffer_def not_less)

end
