(* ===== verification/Connection.thy ===== *)
theory Connection
  imports Protocol
begin

text \<open>
  \<^verbatim>\<open>server/network/connection/connection.cpp\<close>, \<^verbatim>\<open>connection.h\<close> and the service lookup of
  \<^verbatim>\<open>server/server.cpp\<close>: the life of one client connection. Asynchronous operations are requests kept
  in the state (the read or write in flight, the timers); their completion is an event that runs
  the handler the code bound to it. A protocol object reaches its connection only through
  \<^verbatim>\<open>send\<close> and \<^verbatim>\<open>disconnect\<close>, so the virtual message handlers are parameters that return a list of
  such actions. Undefined behaviour is \<open>None\<close>.
\<close>

section \<open>Services\<close>

record service =
  svc_single_socket :: bool
  svc_checksummed :: bool
  svc_identifier :: u8
  svc_protocol :: protocol

fun make_from :: "service list \<Rightarrow> bool \<Rightarrow> u8 \<Rightarrow> protocol option" where
  "make_from [] checksummed protocolID = None"
| "make_from (s # ss) checksummed protocolID =
     (if protocolID \<noteq> svc_identifier s then make_from ss checksummed protocolID
      else if (checksummed \<and> svc_checksummed s) \<or> \<not> svc_checksummed s then Some (svc_protocol s)
      else make_from ss checksummed protocolID)"

definition make_protocol :: "service list \<Rightarrow> bool \<Rightarrow> netmsg \<Rightarrow> protocol option \<times> netmsg" where
  "make_protocol services checksummed msg =
     (case getByte msg of (protocolID, msg') \<Rightarrow> (make_from services checksummed protocolID, msg'))"

definition is_single_socket :: "service list \<Rightarrow> bool" where
  "is_single_socket services \<longleftrightarrow> services \<noteq> [] \<and> svc_single_socket (hd services)"

definition add_service :: "service \<Rightarrow> service list \<Rightarrow> bool \<times> service list" where
  "add_service new services =
     (if \<exists>s \<in> set services. svc_single_socket s then (False, services) else (True, services @ [new]))"

section \<open>State\<close>

datatype ConnectionState_t =
    CONNECTION_STATE_DISCONNECTED
  | CONNECTION_STATE_CONNECTING_STAGE1
  | CONNECTION_STATE_CONNECTING_STAGE2
  | CONNECTION_STATE_GAME
  | CONNECTION_STATE_PENDING

text \<open>The read in flight: how many bytes, and by its constructor where to and for which handler.\<close>

datatype read_request = ReadHeader nat | ReadBody nat

text \<open>Calls the connection posts to the dispatcher.\<close>

datatype posted = OnConnect | Release

record connection =
  connectionState :: ConnectionState_t
  packetsSent :: u32
  timeConnected :: int
  receivedFirst :: bool
  serverNameTime :: u32
  receivedName :: bool
  receivedLastChar :: bool
  conn_msg :: netmsg
  messageQueue :: "outmsg list"
  conn_protocol :: "protocol option"
  socket_open :: bool
  registered :: bool
  readTimer :: bool
  writeTimer :: bool
  pending_read :: "read_request option"
  pending_write :: "u8 list option"
  wire :: "u8 list list"
  dispatched :: "posted list"

definition new_connection :: "int \<Rightarrow> mem \<Rightarrow> connection" where
  "new_connection now b = \<lparr>connectionState = CONNECTION_STATE_PENDING, packetsSent = 0,
     timeConnected = now, receivedFirst = False, serverNameTime = 0, receivedName = False,
     receivedLastChar = False, conn_msg = new_message b, messageQueue = [], conn_protocol = None,
     socket_open = True, registered = True, readTimer = False, writeTimer = False,
     pending_read = None, pending_write = None, wire = [], dispatched = []\<rparr>"

text \<open>
  The configuration and the message handlers of the protocol classes: the state of the protocol
  and of the message afterwards, and the calls made on the connection. The flag of \<open>Send\<close> says
  that starting the write throws.
\<close>

datatype action = Send outmsg bool | Disconnect

record environment =
  SERVER_NAME :: "u8 list"
  MAX_PACKETS_PER_SECOND :: u32
  services :: "service list"
  onRecvFirstMessage :: "netmsg \<Rightarrow> protocol \<Rightarrow> protocol \<times> netmsg \<times> action list"
  protocol_parsePacket :: "netmsg \<Rightarrow> protocol \<Rightarrow> protocol \<times> netmsg \<times> action list"

section \<open>Closing\<close>

definition closeSocket :: "connection \<Rightarrow> connection" where
  "closeSocket c =
     (if socket_open c then c\<lparr>readTimer := False, writeTimer := False, socket_open := False\<rparr> else c)"

definition close :: "bool \<Rightarrow> connection \<Rightarrow> connection" where
  "close force c =
     (let c1 = c\<lparr>registered := False\<rparr>;
          c2 = c1\<lparr>connectionState := CONNECTION_STATE_DISCONNECTED\<rparr>;
          c3 = (if conn_protocol c2 \<noteq> None then c2\<lparr>dispatched := dispatched c2 @ [Release]\<rparr> else c2)
      in if messageQueue c3 = [] \<or> force then closeSocket c3 else c3)"

section \<open>Accepting\<close>

text \<open>\<open>fault\<close>: the networking library throws \<^verbatim>\<open>system_error\<close> while the operation is started.\<close>

definition start_read :: "bool \<Rightarrow> read_request \<Rightarrow> connection \<Rightarrow> connection" where
  "start_read fault req c =
     (if fault then close True c else c\<lparr>readTimer := True, pending_read := Some req\<rparr>)"

definition accept :: "bool \<Rightarrow> connection \<Rightarrow> connection" where
  "accept fault c =
     (let c1 = (if connectionState c = CONNECTION_STATE_PENDING
                then c\<lparr>connectionState := CONNECTION_STATE_CONNECTING_STAGE1\<rparr> else c)
      in if \<not> receivedLastChar c1 \<and> receivedName c1
            \<and> connectionState c1 = CONNECTION_STATE_CONNECTING_STAGE2
         then start_read fault (ReadHeader 1) c1
         else start_read fault (ReadHeader HEADER_LENGTH) c1)"

definition accept_protocol :: "bool \<Rightarrow> protocol \<Rightarrow> connection \<Rightarrow> connection" where
  "accept_protocol fault p c =
     accept fault (c\<lparr>conn_protocol := Some p, dispatched := dispatched c @ [OnConnect],
                     connectionState := CONNECTION_STATE_CONNECTING_STAGE2\<rparr>)"

section \<open>Sending\<close>

definition wire_bytes :: "outmsg \<Rightarrow> u8 list" where
  "wire_bytes m = mem_read (msg_buffer m) (unat (outputBufferStart m)) (unat (msg_length m))"

text \<open>The queue holds the message object itself, which \<^verbatim>\<open>onSendMessage\<close> rewrites in place.\<close>

definition internalSend :: "bool \<Rightarrow> connection \<Rightarrow> connection option" where
  "internalSend fault c =
     (case (messageQueue c, conn_protocol c) of
        (m # rest, Some p) \<Rightarrow>
          (case onSendMessage m p of None \<Rightarrow> None
           | Some (m', p') \<Rightarrow>
               (let c1 = c\<lparr>messageQueue := m' # rest, conn_protocol := Some p'\<rparr> in
                Some (if fault then close True c1
                      else c1\<lparr>writeTimer := True, pending_write := Some (wire_bytes m'),
                              wire := wire c1 @ [wire_bytes m']\<rparr>)))
      | _ \<Rightarrow> None)"

definition send :: "bool \<Rightarrow> outmsg \<Rightarrow> connection \<Rightarrow> connection option" where
  "send fault m c =
     (if connectionState c = CONNECTION_STATE_DISCONNECTED then Some c
      else let noPendingWrite = (messageQueue c = []);
               c1 = c\<lparr>messageQueue := messageQueue c @ [m]\<rparr>
           in if noPendingWrite then internalSend fault c1 else Some c1)"

definition onWriteOperation :: "bool \<Rightarrow> bool \<Rightarrow> connection \<Rightarrow> connection option" where
  "onWriteOperation error fault c =
     (case messageQueue c of [] \<Rightarrow> None
      | m # rest \<Rightarrow>
          (let c1 = c\<lparr>writeTimer := False, pending_write := None, messageQueue := rest\<rparr> in
           if error then Some (close True (c1\<lparr>messageQueue := []\<rparr>))
           else if messageQueue c1 \<noteq> [] then internalSend fault c1
           else if connectionState c1 = CONNECTION_STATE_DISCONNECTED then Some (closeSocket c1)
           else Some c1))"

definition handleTimeout :: "bool \<Rightarrow> connection \<Rightarrow> connection" where
  "handleTimeout aborted c = (if aborted then c else close True c)"

section \<open>Receiving\<close>

text \<open>\<^verbatim>\<open>serverName[i]\<close>: the terminating zero is readable, what follows is not.\<close>

definition name_at :: "u8 list \<Rightarrow> nat \<Rightarrow> u8 option" where
  "name_at s i = (if i < length s then Some (s ! i) else if i = length s then Some 0 else None)"

definition timePassed :: "int \<Rightarrow> connection \<Rightarrow> u32" where
  "timePassed now c = max 1 (word_of_int (now - timeConnected c + 1))"

definition check_name :: "environment \<Rightarrow> bool \<Rightarrow> connection \<Rightarrow> connection option" where
  "check_name env fault c =
     (let serverName = SERVER_NAME env @ [0x0A];
          b0 = msg_buffer (conn_msg c) 0; b1 = msg_buffer (conn_msg c) 1
      in if \<not> receivedName c then
           (if Some b0 = name_at serverName 0 \<and> Some b1 = name_at serverName 1
            then Some (accept fault (c\<lparr>receivedName := True, serverNameTime := 1\<rparr>))
            else Some (close True c))
         else
           (let c1 = c\<lparr>serverNameTime := serverNameTime c + 1\<rparr> in
            case name_at serverName (unat (serverNameTime c1)) of None \<Rightarrow> None
            | Some ch \<Rightarrow>
                (if b0 = ch
                 then Some (accept fault (if b0 = 0x0A then c1\<lparr>receivedLastChar := True\<rparr> else c1))
                 else Some (close True c1))))"

definition read_size :: "int \<Rightarrow> u32 \<Rightarrow> bool \<Rightarrow> connection \<Rightarrow> connection" where
  "read_size now passed fault c =
     (let c1 = (if receivedLastChar c \<and> connectionState c = CONNECTION_STATE_CONNECTING_STAGE2
                then c\<lparr>connectionState := CONNECTION_STATE_GAME\<rparr> else c);
          c2 = (if passed > 2 then c1\<lparr>timeConnected := now, packetsSent := 0\<rparr> else c1);
          siz = getLengthHeader (conn_msg c2)
      in if siz = 0 \<or> unat siz \<ge> NETWORKMESSAGE_MAXSIZE - 16 then close True c2
         else if fault then close True c2
         else start_read False (ReadBody (unat siz))
                (c2\<lparr>conn_msg := snd (getBodyBuffer (setLength (siz + of_nat HEADER_LENGTH) (conn_msg c2)))\<rparr>))"

definition parseHeader :: "environment \<Rightarrow> int \<Rightarrow> bool \<Rightarrow> bool \<Rightarrow> connection \<Rightarrow> connection option" where
  "parseHeader env now error fault c =
     (let c0 = c\<lparr>readTimer := False\<rparr> in
      if error then Some (close True c0)
      else if connectionState c0 = CONNECTION_STATE_DISCONNECTED then Some c0
      else
        (let passed = timePassed now c0; c1 = c0\<lparr>packetsSent := packetsSent c0 + 1\<rparr> in
         if packetsSent c1 div passed > MAX_PACKETS_PER_SECOND env then Some (close False c1)
         else if \<not> receivedLastChar c1 \<and> connectionState c1 = CONNECTION_STATE_CONNECTING_STAGE2
         then (if \<not> receivedName c1 \<and> msg_buffer (conn_msg c1) 1 = 0
               then Some (read_size now passed fault (c1\<lparr>receivedLastChar := True\<rparr>))
               else check_name env fault c1)
         else Some (read_size now passed fault c1)))"

text \<open>What a protocol's message handler does to its connection.\<close>

fun perform :: "action list \<Rightarrow> connection \<Rightarrow> connection option" where
  "perform [] c = Some c"
| "perform (Send m fault # as) c =
     (case send fault m c of None \<Rightarrow> None | Some c' \<Rightarrow> perform as c')"
| "perform (Disconnect # as) c = perform as (close False c)"

definition handle_with ::
  "(netmsg \<Rightarrow> protocol \<Rightarrow> protocol \<times> netmsg \<times> action list) \<Rightarrow> netmsg \<Rightarrow> protocol \<Rightarrow> connection
     \<Rightarrow> connection option" where
  "handle_with h msg p c =
     (case h msg p of (p', msg', as) \<Rightarrow> perform as (c\<lparr>conn_protocol := Some p', conn_msg := msg'\<rparr>))"

definition dispatch_first :: "environment \<Rightarrow> connection \<Rightarrow> connection option" where
  "dispatch_first env c =
     (let c1 = c\<lparr>receivedFirst := True\<rparr> in
      case conn_protocol c1 of
        None \<Rightarrow>
          (let msg1 = (if unat (msg_length (conn_msg c1)) < 280
                       then skipBytes (- of_nat CHECKSUM_LENGTH) (conn_msg c1) else conn_msg c1)
           in case make_protocol (services env) True msg1 of
                (None, msg2) \<Rightarrow> Some (close True (c1\<lparr>conn_msg := msg2\<rparr>))
              | (Some p, msg2) \<Rightarrow> handle_with (onRecvFirstMessage env) msg2 p c1)
      | Some p \<Rightarrow> handle_with (onRecvFirstMessage env) (skipBytes 1 (conn_msg c1)) p c1)"

definition dispatch_next :: "environment \<Rightarrow> connection \<Rightarrow> connection option" where
  "dispatch_next env c =
     (case conn_protocol c of None \<Rightarrow> None
      | Some p \<Rightarrow>
          (case onRecvMessage (conn_msg c) p of None \<Rightarrow> None
           | Some (False, msg) \<Rightarrow> Some (c\<lparr>conn_msg := msg\<rparr>)
           | Some (True, msg) \<Rightarrow> handle_with (protocol_parsePacket env) msg p c))"

text \<open>
  A first packet that no service accepts ends the handler without a new read; otherwise the next
  header is asked for.
\<close>

definition rejected_first :: "environment \<Rightarrow> connection \<Rightarrow> bool" where
  "rejected_first env c \<longleftrightarrow> \<not> receivedFirst c \<and> conn_protocol c = None
     \<and> fst (make_protocol (services env) True
              (if unat (msg_length (conn_msg c)) < 280
               then skipBytes (- of_nat CHECKSUM_LENGTH) (conn_msg c) else conn_msg c)) = None"

definition parsePacket :: "environment \<Rightarrow> bool \<Rightarrow> bool \<Rightarrow> connection \<Rightarrow> connection option" where
  "parsePacket env error fault c =
     (let c0 = c\<lparr>readTimer := False\<rparr> in
      if error then Some (close True c0)
      else if connectionState c0 = CONNECTION_STATE_DISCONNECTED then Some c0
      else
        (let c1 = c0\<lparr>conn_msg := snd (get 4 (conn_msg c0) :: u32 \<times> netmsg)\<rparr> in
         case (if \<not> receivedFirst c1 then dispatch_first env c1 else dispatch_next env c1) of
           None \<Rightarrow> None
         | Some c2 \<Rightarrow>
             Some (if rejected_first env c1 then c2 else start_read fault (ReadHeader HEADER_LENGTH) c2)))"

section \<open>Events\<close>

datatype event =
    Accept bool
  | AcceptProtocol protocol bool
  | HeaderRead "u8 list" int bool bool
  | BodyRead "u8 list" bool bool
  | SendMsg outmsg bool
  | WriteDone bool bool
  | Timeout bool
  | Close bool

definition sendable :: "outmsg \<Rightarrow> bool" where
  "sendable m \<longleftrightarrow> padding_fits m"

text \<open>
  What can happen to a connection: its service accepts it once; the read or write in flight
  completes, with all the bytes or with an error after some of them; its protocol sends a message
  built by the \<^verbatim>\<open>add\<close> calls; a timer fires; someone closes it.
\<close>

fun enabled :: "event \<Rightarrow> connection \<Rightarrow> bool" where
  "enabled (Accept fault) c \<longleftrightarrow> connectionState c = CONNECTION_STATE_PENDING"
| "enabled (AcceptProtocol p fault) c \<longleftrightarrow> connectionState c = CONNECTION_STATE_PENDING"
| "enabled (HeaderRead bs now error fault) c \<longleftrightarrow>
     (case pending_read c of Some (ReadHeader n) \<Rightarrow> length bs \<le> n \<and> (error \<or> length bs = n) | _ \<Rightarrow> False)"
| "enabled (BodyRead bs error fault) c \<longleftrightarrow>
     (case pending_read c of Some (ReadBody n) \<Rightarrow> length bs \<le> n \<and> (error \<or> length bs = n) | _ \<Rightarrow> False)"
| "enabled (SendMsg m fault) c \<longleftrightarrow> conn_protocol c \<noteq> None \<and> sendable m"
| "enabled (WriteDone error fault) c \<longleftrightarrow> pending_write c \<noteq> None"
| "enabled (Timeout aborted) c \<longleftrightarrow> True"
| "enabled (Close force) c \<longleftrightarrow> True"

definition deliver :: "nat \<Rightarrow> u8 list \<Rightarrow> connection \<Rightarrow> connection" where
  "deliver off bs c = c\<lparr>pending_read := None,
     conn_msg := (conn_msg c)\<lparr>msg_buffer := mem_write (msg_buffer (conn_msg c)) off bs\<rparr>\<rparr>"

fun exec :: "environment \<Rightarrow> event \<Rightarrow> connection \<Rightarrow> connection option" where
  "exec env (Accept fault) c = Some (accept fault c)"
| "exec env (AcceptProtocol p fault) c = Some (accept_protocol fault p c)"
| "exec env (HeaderRead bs now error fault) c = parseHeader env now error fault (deliver 0 bs c)"
| "exec env (BodyRead bs error fault) c = parsePacket env error fault (deliver HEADER_LENGTH bs c)"
| "exec env (SendMsg m fault) c = send fault m c"
| "exec env (WriteDone error fault) c = onWriteOperation error fault c"
| "exec env (Timeout aborted) c = Some (handleTimeout aborted c)"
| "exec env (Close force) c = Some (close force c)"

inductive reachable :: "environment \<Rightarrow> connection \<Rightarrow> bool" for env where
  start: "reachable env (new_connection now b)"
| step: "reachable env c \<Longrightarrow> enabled ev c \<Longrightarrow> exec env ev c = Some c' \<Longrightarrow> reachable env c'"

section \<open>The invariant\<close>

fun read_ok :: "read_request option \<Rightarrow> netmsg \<Rightarrow> bool" where
  "read_ok None msg \<longleftrightarrow> True"
| "read_ok (Some (ReadHeader n)) msg \<longleftrightarrow> n \<le> HEADER_LENGTH"
| "read_ok (Some (ReadBody n)) msg \<longleftrightarrow> HEADER_LENGTH + n < NETWORKMESSAGE_MAXSIZE - 14
     \<and> unat (msg_length msg) = HEADER_LENGTH + n \<and> msg_position msg = 2"

definition base_ok :: "environment \<Rightarrow> connection \<Rightarrow> bool" where
  "base_ok env c \<longleftrightarrow>
     read_ok (pending_read c) (conn_msg c)
     \<and> (pending_write c \<noteq> None \<longrightarrow> messageQueue c \<noteq> [])
     \<and> (receivedName c \<and> \<not> receivedLastChar c \<and> connectionState c \<noteq> CONNECTION_STATE_DISCONNECTED \<longrightarrow>
          unat (serverNameTime c) < length (SERVER_NAME env))
     \<and> (receivedFirst c \<and> connectionState c \<noteq> CONNECTION_STATE_DISCONNECTED \<longrightarrow> conn_protocol c \<noteq> None)
     \<and> (messageQueue c \<noteq> [] \<longrightarrow> conn_protocol c \<noteq> None)
     \<and> (\<forall>m \<in> set (tl (messageQueue c)). sendable m)"

definition live_ok :: "connection \<Rightarrow> bool" where
  "live_ok c \<longleftrightarrow>
     (connectionState c = CONNECTION_STATE_DISCONNECTED \<longrightarrow>
        \<not> registered c \<and> (socket_open c \<longrightarrow> pending_write c \<noteq> None))
     \<and> (socket_open c \<and> messageQueue c \<noteq> [] \<longrightarrow> pending_write c \<noteq> None \<and> writeTimer c)"

definition conn_inv :: "environment \<Rightarrow> connection \<Rightarrow> bool" where
  "conn_inv env c \<longleftrightarrow> base_ok env c \<and> live_ok c"

definition env_ok :: "environment \<Rightarrow> bool" where
  "env_ok env \<longleftrightarrow> 2 \<le> length (SERVER_NAME env) \<and> length (SERVER_NAME env) < 2 ^ 32"

definition sends_ok :: "action list \<Rightarrow> bool" where
  "sends_ok as \<longleftrightarrow> (\<forall>m fault. Send m fault \<in> set as \<longrightarrow> sendable m)"

definition handlers_ok :: "environment \<Rightarrow> bool" where
  "handlers_ok env \<longleftrightarrow>
     (\<forall>msg p. sends_ok (snd (snd (onRecvFirstMessage env msg p)))
            \<and> sends_ok (snd (snd (protocol_parsePacket env msg p))))"

lemmas inv_defs = conn_inv_def base_ok_def live_ok_def

lemma new_connection_inv: "conn_inv env (new_connection now b)"
  by (simp add: inv_defs new_connection_def)

lemma close_force_inv: "base_ok env c \<Longrightarrow> conn_inv env (close True c)"
  by (auto simp: inv_defs close_def closeSocket_def Let_def)

lemma close_inv: "conn_inv env c \<Longrightarrow> conn_inv env (close force c)"
  by (cases force)
    (simp add: close_force_inv conn_inv_def, auto simp: inv_defs close_def closeSocket_def Let_def)

lemma start_read_inv:
  assumes "conn_inv env c" and "read_ok (Some req) (conn_msg c)"
  shows "conn_inv env (start_read fault req c)"
proof (cases fault)
  case True
  with assms show ?thesis by (simp add: start_read_def close_inv)
next
  case False
  with assms show ?thesis by (auto simp: start_read_def inv_defs)
qed

lemma accept_inv: "conn_inv env c \<Longrightarrow> conn_inv env (accept fault c)"
  unfolding accept_def Let_def
  by (auto intro!: start_read_inv simp: HEADER_LENGTH_def) (auto simp: inv_defs)

lemma accept_protocol_inv:
  "conn_inv env c \<Longrightarrow> connectionState c = CONNECTION_STATE_PENDING \<Longrightarrow>
     conn_inv env (accept_protocol fault p c)"
  unfolding accept_protocol_def by (rule accept_inv) (auto simp: inv_defs)

text \<open>A message that can be sent is always encoded.\<close>

lemma onSendMessage_defined: "sendable m \<Longrightarrow> \<exists>m' p'. onSendMessage m p = Some (m', p')"
proof -
  assume s: "sendable m"
  then have fits: "padding_fits m" and "well_built m" by (simp_all add: sendable_def padding_fits_def)
  then obtain m1 where m1: "writeMessageLength m = Some m1" using writeMessageLength_built by blast
  show ?thesis
  proof (cases "rawMessages p \<or> \<not> encryptionEnabled p")
    case True
    with m1 show ?thesis by (auto simp: onSendMessage_def)
  next
    case False
    from XTEA_encrypt_built [OF fits m1, of "xtea_key p"] obtain c where
      "XTEA_encrypt (xtea_key p) m1 = Some (m1\<lparr>msg_buffer := c, msg_length := of_nat (enc_length m)\<rparr>)"
      "outputBufferStart m1 = 6" by blast
    with False m1 show ?thesis
      by (auto simp: onSendMessage_def addCryptoHeader_def writeMessageLength_def add_header_def Let_def)
  qed
qed

lemma internalSend_inv:
  assumes "messageQueue c = m # rest" and "sendable m" and "base_ok env c"
    and "connectionState c = CONNECTION_STATE_DISCONNECTED \<longrightarrow> \<not> registered c"
  shows "\<exists>c'. internalSend fault c = Some c' \<and> conn_inv env c'"
proof -
  obtain p where p: "conn_protocol c = Some p" using assms(1,3) by (auto simp: base_ok_def)
  obtain m' p' where "onSendMessage m p = Some (m', p')" using onSendMessage_defined [OF assms(2)] by blast
  moreover have "base_ok env (c\<lparr>messageQueue := m' # rest, conn_protocol := Some p'\<rparr>)"
    using assms(1,3) by (auto simp: base_ok_def)
  moreover from this have "conn_inv env (c\<lparr>messageQueue := m' # rest, conn_protocol := Some p',
      writeTimer := True, pending_write := Some w, wire := v\<rparr>)" for w v
    using assms(4) by (auto simp: inv_defs)
  ultimately show ?thesis
    using assms(1) p by (auto simp: internalSend_def Let_def close_force_inv)
qed

lemma send_inv:
  assumes "conn_inv env c" and "sendable m" and "conn_protocol c \<noteq> None"
  shows "\<exists>c'. send fault m c = Some c' \<and> conn_inv env c'
     \<and> (conn_protocol c' \<noteq> None)"
proof (cases "connectionState c = CONNECTION_STATE_DISCONNECTED")
  case True
  with assms show ?thesis by (simp add: send_def)
next
  case False
  let ?c1 = "c\<lparr>messageQueue := messageQueue c @ [m]\<rparr>"
  show ?thesis
  proof (cases "messageQueue c = []")
    case True
    have "base_ok env ?c1" using assms True by (auto simp: inv_defs)
    then obtain c' where "internalSend fault ?c1 = Some c'" "conn_inv env c'"
      using internalSend_inv [of ?c1 m "[]" env fault] True assms(2) False by auto
    moreover from this have "conn_protocol c' \<noteq> None"
      by (auto simp: internalSend_def Let_def close_def closeSocket_def split: list.splits option.splits prod.splits)
    ultimately show ?thesis using True False by (simp add: send_def)
  next
    case nonempty: False
    then have "tl (messageQueue c @ [m]) = tl (messageQueue c) @ [m]" by simp
    then have "conn_inv env ?c1" using assms nonempty False by (auto simp: inv_defs)
    with nonempty False assms(3) show ?thesis by (simp add: send_def)
  qed
qed

lemma onWriteOperation_inv:
  assumes "conn_inv env c" and "pending_write c \<noteq> None"
  shows "\<exists>c'. onWriteOperation error fault c = Some c' \<and> conn_inv env c'"
proof -
  obtain m rest where q: "messageQueue c = m # rest"
    using assms by (auto simp: inv_defs neq_Nil_conv)
  let ?c1 = "c\<lparr>writeTimer := False, pending_write := None, messageQueue := rest\<rparr>"
  have "set (tl rest) \<subseteq> set rest" by (cases rest) auto
  then have b: "base_ok env ?c1" "base_ok env (?c1\<lparr>messageQueue := []\<rparr>)"
    using assms q by (auto simp: inv_defs)
  show ?thesis
  proof (cases "error \<or> rest = []")
    case True
    have "conn_inv env (closeSocket ?c1)" "connectionState c \<noteq> CONNECTION_STATE_DISCONNECTED \<longrightarrow> conn_inv env ?c1"
      if "rest = []"
      using b(1) assms(1) that by (auto simp: inv_defs closeSocket_def)
    with True b(2) show ?thesis
      by (auto simp: onWriteOperation_def q Let_def close_force_inv)
  next
    case False
    then obtain m2 rest2 where r: "rest = m2 # rest2" by (auto simp: neq_Nil_conv)
    then have "sendable m2" using assms(1) q by (simp add: inv_defs)
    then show ?thesis
      using internalSend_inv [of ?c1 m2 rest2 env fault] b(1) assms(1) False
      by (auto simp: onWriteOperation_def q r Let_def inv_defs)
  qed
qed

lemma perform_inv:
  "conn_inv env c \<Longrightarrow> conn_protocol c \<noteq> None \<Longrightarrow> sends_ok as \<Longrightarrow>
     \<exists>c'. perform as c = Some c' \<and> conn_inv env c' \<and> conn_protocol c' \<noteq> None"
proof (induction as c rule: perform.induct)
  case (1 c)
  then show ?case by simp
next
  case (2 m fault as c)
  then have "sendable m" "sends_ok as" by (auto simp: sends_ok_def)
  moreover obtain c1 where "send fault m c = Some c1" "conn_inv env c1" "conn_protocol c1 \<noteq> None"
    using send_inv 2 \<open>sendable m\<close> by blast
  ultimately show ?case using 2 by simp
next
  case (3 as c)
  then have "sends_ok as" by (auto simp: sends_ok_def)
  moreover have "conn_protocol (close False c) \<noteq> None"
    using 3 by (simp add: close_def closeSocket_def Let_def)
  ultimately show ?case using 3 close_inv by simp
qed

lemma perform_no_read:
  "perform as c = Some c' \<Longrightarrow> pending_read c' = pending_read c \<and> receivedFirst c' = receivedFirst c"
proof (induction as c rule: perform.induct)
  case (2 m fault as c)
  then obtain c1 where c1: "send fault m c = Some c1" "perform as c1 = Some c'" by (auto split: option.splits)
  then have "pending_read c1 = pending_read c \<and> receivedFirst c1 = receivedFirst c"
    by (auto simp: send_def internalSend_def Let_def close_def closeSocket_def
        split: if_splits list.splits option.splits prod.splits)
  with 2 c1 show ?case by simp
next
  case (3 as c)
  then show ?case by (simp add: close_def closeSocket_def Let_def split: if_splits)
qed simp

lemma handle_with_inv:
  assumes "\<And>p' msg'. conn_inv env (c\<lparr>conn_protocol := Some p', conn_msg := msg'\<rparr>)"
    and "pending_read c = None" and "\<And>msg p. sends_ok (snd (snd (h msg p)))"
  shows "\<exists>c'. handle_with h msg p c = Some c' \<and> conn_inv env c' \<and> pending_read c' = None"
proof -
  obtain p' msg' as where h: "h msg p = (p', msg', as)" by (metis prod_cases3)
  then have "sends_ok as" using assms(3) [of msg p] by simp
  with assms(1) obtain c' where "perform as (c\<lparr>conn_protocol := Some p', conn_msg := msg'\<rparr>) = Some c'"
    "conn_inv env c'" using perform_inv by fastforce
  with perform_no_read [OF this(1)] assms(2) show ?thesis by (simp add: handle_with_def h)
qed

lemma check_name_inv:
  assumes "conn_inv env c" and "env_ok env" and "connectionState c \<noteq> CONNECTION_STATE_DISCONNECTED"
    and "\<not> receivedLastChar c"
  shows "\<exists>c'. check_name env fault c = Some c' \<and> conn_inv env c'"
proof (cases "receivedName c")
  case False
  have "conn_inv env (c\<lparr>receivedName := True, serverNameTime := 1\<rparr>)"
    using assms(1,2) by (auto simp: inv_defs env_ok_def)
  with False assms(1) show ?thesis by (auto simp: check_name_def Let_def accept_inv close_inv)
next
  case True
  let ?n = "SERVER_NAME env" and ?i = "unat (serverNameTime c)"
  have i: "?i < length ?n" using assms True by (simp add: inv_defs)
  then have i1: "unat (serverNameTime c + 1) = Suc ?i"
    using assms(2) by (simp add: env_ok_def unat_word_ariths)
  have at: "name_at (?n @ [0x0A]) (Suc ?i) = Some (if Suc ?i = length ?n then 0x0A else ?n ! (Suc ?i))"
    using i by (auto simp: name_at_def nth_append)
  have "conn_inv env (c\<lparr>serverNameTime := serverNameTime c + 1, receivedLastChar := True\<rparr>)"
    using assms(1) by (auto simp: inv_defs)
  moreover have "base_ok env (c\<lparr>serverNameTime := serverNameTime c + 1\<rparr>)" if "Suc ?i \<noteq> length ?n"
    using assms(1) i that i1 by (auto simp: inv_defs)
  moreover from this have "conn_inv env (c\<lparr>serverNameTime := serverNameTime c + 1\<rparr>)" if "Suc ?i \<noteq> length ?n"
    using assms(1) that by (auto simp: inv_defs)
  moreover have "conn_inv env (close True (c\<lparr>serverNameTime := serverNameTime c + 1\<rparr>))"
    using assms(1) by (auto simp: inv_defs close_def closeSocket_def Let_def)
  ultimately show ?thesis
    using True by (auto simp: check_name_def Let_def i1 at accept_inv)
qed

lemma read_size_inv:
  assumes "conn_inv env c"
  shows "conn_inv env (read_size now passed fault c)"
proof -
  define c1 where "c1 = (if receivedLastChar c \<and> connectionState c = CONNECTION_STATE_CONNECTING_STAGE2
                then c\<lparr>connectionState := CONNECTION_STATE_GAME\<rparr> else c)"
  define c2 where "c2 = (if passed > 2 then c1\<lparr>timeConnected := now, packetsSent := 0\<rparr> else c1)"
  define n where "n = getLengthHeader (conn_msg c2)"
  let ?msg = "snd (getBodyBuffer (setLength (n + of_nat HEADER_LENGTH) (conn_msg c2)))"
  have inv: "conn_inv env c2" using assms by (auto simp: inv_defs c1_def c2_def)
  have def: "read_size now passed fault c =
      (if n = 0 \<or> unat n \<ge> NETWORKMESSAGE_MAXSIZE - 16 then close True c2
       else if fault then close True c2
       else start_read False (ReadBody (unat n)) (c2\<lparr>conn_msg := ?msg\<rparr>))"
    by (simp only: read_size_def Let_def c1_def c2_def n_def)
  show ?thesis
  proof (cases "n = 0 \<or> unat n \<ge> NETWORKMESSAGE_MAXSIZE - 16 \<or> fault")
    case True
    then show ?thesis unfolding def by (auto simp: close_inv [OF inv])
  next
    case False
    then have "unat (n + of_nat HEADER_LENGTH) = unat n + HEADER_LENGTH"
      by (intro unat_plus_of_nat) (simp add: size_defs)
    with False have "read_ok (Some (ReadBody (unat n))) ?msg"
      by (simp add: getBodyBuffer_def setLength_def size_defs)
    moreover have "conn_inv env (c2\<lparr>conn_msg := ?msg, readTimer := True, pending_read := Some (ReadBody (unat n))\<rparr>)"
      using inv calculation by (auto simp: inv_defs)
    ultimately show ?thesis unfolding def using False by (simp add: start_read_def)
  qed
qed

lemma timer_inv: "conn_inv env c \<Longrightarrow> conn_inv env (c\<lparr>readTimer := t\<rparr>)"
  by (simp add: inv_defs)

lemma parseHeader_inv:
  assumes "conn_inv env c" and "env_ok env"
  shows "\<exists>c'. parseHeader env now error fault c = Some c' \<and> conn_inv env c'"
proof -
  let ?c1 = "c\<lparr>readTimer := False, packetsSent := packetsSent c + 1\<rparr>"
  have inv: "conn_inv env ?c1" "conn_inv env (c\<lparr>readTimer := False\<rparr>)"
    "conn_inv env (?c1\<lparr>receivedLastChar := True\<rparr>)"
    using assms(1) by (simp_all add: inv_defs)
  then show ?thesis
    using check_name_inv [OF inv(1) assms(2)]
    by (auto simp: parseHeader_def Let_def close_inv read_size_inv)
qed

lemma deliver_inv: "conn_inv env c \<Longrightarrow> conn_inv env (deliver off bs c) \<and> pending_read (deliver off bs c) = None"
  by (auto simp: inv_defs deliver_def)

lemma dispatch_first_inv:
  assumes "conn_inv env c" and "pending_read c = None" and "handlers_ok env"
    and "connectionState c \<noteq> CONNECTION_STATE_DISCONNECTED"
  shows "\<exists>c'. dispatch_first env c = Some c' \<and> conn_inv env c' \<and> pending_read c' = None"
proof -
  let ?c1 = "c\<lparr>receivedFirst := True\<rparr>"
  have "conn_inv env (?c1\<lparr>conn_protocol := Some p', conn_msg := msg'\<rparr>)" for p' msg'
    using assms(1,2) by (auto simp: inv_defs)
  then have h: "\<exists>c'. handle_with (onRecvFirstMessage env) msg p ?c1 = Some c' \<and> conn_inv env c'
      \<and> pending_read c' = None" for msg p
    using assms(2,3) by (intro handle_with_inv) (auto simp: handlers_ok_def)
  have "conn_inv env (close True (?c1\<lparr>conn_msg := msg\<rparr>)) \<and> pending_read (close True (?c1\<lparr>conn_msg := msg\<rparr>)) = None"
    for msg
    using assms(1,2) by (auto simp: inv_defs close_def closeSocket_def Let_def)
  with h show ?thesis
    by (auto simp: dispatch_first_def Let_def split: option.split prod.split)
qed

lemma dispatch_next_inv:
  assumes "conn_inv env c" and "pending_read c = None" and "handlers_ok env"
    and "conn_protocol c \<noteq> None" and "msg_position (conn_msg c) = 6"
    and "unat (msg_length (conn_msg c)) < NETWORKMESSAGE_MAXSIZE - 14"
  shows "\<exists>c'. dispatch_next env c = Some c' \<and> conn_inv env c' \<and> pending_read c' = None"
proof -
  obtain p where p: "conn_protocol c = Some p" using assms(4) by blast
  have "\<exists>ok msg. onRecvMessage (conn_msg c) p = Some (ok, msg)"
    using XTEA_decrypt_defined [OF assms(5,6), of "xtea_key p"] by (auto simp: onRecvMessage_def)
  then obtain ok msg where m: "onRecvMessage (conn_msg c) p = Some (ok, msg)" by blast
  have "conn_inv env (c\<lparr>conn_protocol := Some p', conn_msg := msg'\<rparr>)" for p' msg'
    using assms(1,2) by (auto simp: inv_defs)
  then have "\<exists>c'. handle_with (protocol_parsePacket env) msg p c = Some c' \<and> conn_inv env c' \<and> pending_read c' = None"
    using assms(2,3) by (intro handle_with_inv) (auto simp: handlers_ok_def)
  moreover have "conn_inv env (c\<lparr>conn_msg := msg\<rparr>)" using assms(1,2) by (auto simp: inv_defs)
  ultimately show ?thesis
    using assms(2) by (cases ok) (auto simp: dispatch_next_def p m)
qed

lemma get_checksum:
  assumes "msg_position m = 2"
  shows "msg_position (snd (get 4 m :: u32 \<times> netmsg)) = 6"
    and "msg_length (snd (get 4 m :: u32 \<times> netmsg)) = msg_length m"
proof -
  have "canRead (int 4) m = (True, m)"
    using assms by (simp only: canRead_iff) (simp add: size_defs)
  then show "msg_position (snd (get 4 m :: u32 \<times> netmsg)) = 6"
    and "msg_length (snd (get 4 m :: u32 \<times> netmsg)) = msg_length m"
    using assms by (simp_all add: get_def)
qed

lemma parsePacket_inv:
  assumes "conn_inv env c" and "pending_read c = None" and "handlers_ok env"
    and "msg_position (conn_msg c) = 2" and "unat (msg_length (conn_msg c)) < NETWORKMESSAGE_MAXSIZE - 14"
  shows "\<exists>c'. parsePacket env error fault c = Some c' \<and> conn_inv env c'"
proof (cases "error \<or> connectionState c = CONNECTION_STATE_DISCONNECTED")
  case True
  with timer_inv [OF assms(1), of False] show ?thesis
    by (auto simp: parsePacket_def Let_def close_inv)
next
  case False
  let ?c1 = "c\<lparr>readTimer := False, conn_msg := snd (get 4 (conn_msg c) :: u32 \<times> netmsg)\<rparr>"
  have inv: "conn_inv env ?c1" using assms(1,2) by (auto simp: inv_defs)
  have "\<exists>c2. (if \<not> receivedFirst ?c1 then dispatch_first env ?c1 else dispatch_next env ?c1) = Some c2
      \<and> conn_inv env c2 \<and> pending_read c2 = None"
  proof (cases "receivedFirst c")
    case True
    then have "conn_protocol c \<noteq> None" using assms(1) False by (simp add: inv_defs)
    then show ?thesis
      using dispatch_next_inv [OF inv _ assms(3)] True assms(2,5) get_checksum [OF assms(4)] by simp
  next
    case first: False
    then show ?thesis using dispatch_first_inv [OF inv _ assms(3)] False assms(2) by simp
  qed
  then obtain c2 where
    c2: "(if \<not> receivedFirst ?c1 then dispatch_first env ?c1 else dispatch_next env ?c1) = Some c2"
    "conn_inv env c2" by blast
  from start_read_inv [OF c2(2), of "ReadHeader HEADER_LENGTH" fault]
  have "conn_inv env (start_read fault (ReadHeader HEADER_LENGTH) c2)" by simp
  with False c2 show ?thesis
    unfolding parsePacket_def Let_def by (cases "rejected_first env ?c1") auto
qed

text \<open>Every event that can happen is handled without undefined behaviour and keeps the invariant.\<close>

lemma exec_inv:
  assumes "conn_inv env c" and "enabled ev c" and "env_ok env" and "handlers_ok env"
  shows "\<exists>c'. exec env ev c = Some c' \<and> conn_inv env c'"
proof (cases ev)
  case (HeaderRead bs now error fault)
  with parseHeader_inv [OF _ assms(3)] deliver_inv [OF assms(1)] show ?thesis by simp
next
  case (BodyRead bs error fault)
  then obtain n where n: "pending_read c = Some (ReadBody n)"
    using assms(2) by (auto split: option.splits read_request.splits)
  then have "read_ok (Some (ReadBody n)) (conn_msg c)" using assms(1) by (simp add: inv_defs)
  then have "msg_position (conn_msg (deliver HEADER_LENGTH bs c)) = 2"
    "unat (msg_length (conn_msg (deliver HEADER_LENGTH bs c))) < NETWORKMESSAGE_MAXSIZE - 14"
    by (simp_all add: deliver_def)
  with BodyRead parsePacket_inv deliver_inv [OF assms(1)] assms(4) show ?thesis by simp
next
  case (SendMsg m fault)
  with assms send_inv show ?thesis by fastforce
next
  case (WriteDone error fault)
  with assms onWriteOperation_inv show ?thesis by simp
next
  case (AcceptProtocol p fault)
  with assms accept_protocol_inv show ?thesis by simp
qed (use assms in \<open>auto simp: accept_inv close_inv handleTimeout_def\<close>)

lemma reachable_inv: "reachable env c \<Longrightarrow> env_ok env \<Longrightarrow> handlers_ok env \<Longrightarrow> conn_inv env c"
proof (induction rule: reachable.induct)
  case (start now b)
  then show ?case by (simp add: new_connection_inv)
next
  case (step c ev c')
  then show ?case using exec_inv [of env c ev] by simp
qed

section \<open>Properties: memory and resources\<close>

definition quiet_env :: environment where
  "quiet_env = \<lparr>SERVER_NAME = [65, 66], MAX_PACKETS_PER_SECOND = 25, services = [],
     onRecvFirstMessage = (\<lambda>msg p. (p, msg, [Disconnect])), protocol_parsePacket = (\<lambda>msg p. (p, msg, []))\<rparr>"

lemma quiet_env_ok: "env_ok quiet_env" "handlers_ok quiet_env"
  by (simp_all add: quiet_env_def env_ok_def handlers_ok_def sends_ok_def)





section \<open>Properties: closing is final\<close>

lemma close_disconnected [simp]: "connectionState (close force c) = CONNECTION_STATE_DISCONNECTED"
  by (simp add: close_def closeSocket_def Let_def)

lemma close_queue [simp]: "messageQueue (close force c) = messageQueue c"
  by (simp add: close_def closeSocket_def Let_def)

lemma internalSend_queue:
  "internalSend fault c = Some c' \<Longrightarrow> connectionState c = CONNECTION_STATE_DISCONNECTED \<Longrightarrow>
     connectionState c' = CONNECTION_STATE_DISCONNECTED \<and> length (messageQueue c') = length (messageQueue c)"
  by (auto simp: internalSend_def Let_def split: list.splits option.splits prod.splits)

text \<open>
  A closed connection stays closed: once \<^verbatim>\<open>close\<close> has run, no event brings the connection back
  to another state and none adds a message to its queue; a message passed to \<^verbatim>\<open>send\<close> is dropped and
  bytes that still arrive are ignored.
\<close>

theorem closing_is_final:
  assumes "connectionState c = CONNECTION_STATE_DISCONNECTED" and "enabled ev c" and "exec env ev c = Some c'"
  shows "connectionState c' = CONNECTION_STATE_DISCONNECTED
     \<and> length (messageQueue c') \<le> length (messageQueue c)"
proof (cases ev)
  case (HeaderRead bs now error fault)
  with assms show ?thesis by (auto simp: parseHeader_def deliver_def Let_def split: if_splits)
next
  case (BodyRead bs error fault)
  with assms show ?thesis by (auto simp: parsePacket_def deliver_def Let_def split: if_splits)
next
  case (WriteDone error fault)
  with assms show ?thesis
    by (auto simp: onWriteOperation_def Let_def closeSocket_def split: list.splits if_splits
        dest!: internalSend_queue)
qed (use assms in \<open>auto simp: send_def handleTimeout_def\<close>)

theorem closing_is_final_witness:
  "connectionState (close True (close False (new_connection 0 (\<lambda>_. 0)))) = CONNECTION_STATE_DISCONNECTED"
  using closing_is_final [of "close False (new_connection 0 (\<lambda>_. 0))" "Close True" quiet_env] by simp

section \<open>Properties: messages leave in the order they were sent\<close>

fun encode_all :: "outmsg list \<Rightarrow> protocol \<Rightarrow> (u8 list list \<times> protocol) option" where
  "encode_all [] p = Some ([], p)"
| "encode_all (m # ms) p =
     (case onSendMessage m p of None \<Rightarrow> None
      | Some (m', p') \<Rightarrow>
          (case encode_all ms p' of None \<Rightarrow> None | Some (ws, p'') \<Rightarrow> Some (wire_bytes m' # ws, p'')))"

lemma encode_all_snoc:
  "encode_all ms p = Some (ws, p1) \<Longrightarrow> onSendMessage m p1 = Some (m', p2) \<Longrightarrow>
     encode_all (ms @ [m]) p = Some (ws @ [wire_bytes m'], p2)"
  by (induction ms arbitrary: p ws) (auto split: option.splits prod.splits)

fun run_events :: "environment \<Rightarrow> event list \<Rightarrow> connection \<Rightarrow> connection option" where
  "run_events env [] c = Some c"
| "run_events env (e # es) c =
     (if enabled e c then (case exec env e c of None \<Rightarrow> None | Some c' \<Rightarrow> run_events env es c') else None)"

fun sent :: "event list \<Rightarrow> outmsg list" where
  "sent [] = []"
| "sent (SendMsg m fault # es) = m # sent es"
| "sent (e # es) = sent es"

fun traffic :: "event \<Rightarrow> bool" where
  "traffic (SendMsg m fault) \<longleftrightarrow> \<not> fault"
| "traffic (WriteDone error fault) \<longleftrightarrow> \<not> error \<and> \<not> fault"
| "traffic e \<longleftrightarrow> False"

definition fifo :: "protocol \<Rightarrow> outmsg list \<Rightarrow> connection \<Rightarrow> bool" where
  "fifo p ms c \<longleftrightarrow> connectionState c \<noteq> CONNECTION_STATE_DISCONNECTED
     \<and> (messageQueue c = [] \<longleftrightarrow> pending_write c = None)
     \<and> (\<exists>k p'. k \<le> length ms \<and> encode_all (take k ms) p = Some (wire c, p') \<and> conn_protocol c = Some p'
          \<and> tl (messageQueue c) = drop k ms \<and> (messageQueue c = [] \<longrightarrow> k = length ms))"

lemma fifo_next:
  assumes "messageQueue c = m # rest" and "conn_protocol c = Some p1" and "k < length ms"
    and "encode_all (take k ms) p = Some (wire c, p1)" and "ms ! k = m" and "rest = drop (Suc k) ms"
    and "connectionState c \<noteq> CONNECTION_STATE_DISCONNECTED" and "internalSend False c = Some c'"
  shows "fifo p ms c'"
proof -
  from assms(1,2,8) obtain m' p2 where s: "onSendMessage m p1 = Some (m', p2)"
    and c': "c' = c\<lparr>messageQueue := m' # rest, conn_protocol := Some p2, writeTimer := True,
      pending_write := Some (wire_bytes m'), wire := wire c @ [wire_bytes m']\<rparr>"
    by (auto simp: internalSend_def Let_def split: option.splits)
  have "encode_all (take (Suc k) ms) p = Some (wire c', p2)"
    using encode_all_snoc [OF assms(4) s] assms(3,5) by (simp add: take_Suc_conv_app_nth c')
  with assms(3,6,7) show ?thesis
    unfolding fifo_def by (intro conjI exI [of _ "Suc k"] exI [of _ p2]) (simp_all add: c')
qed

lemma fifo_send:
  assumes "fifo p ms c" and "send False m c = Some c'"
  shows "fifo p (ms @ [m]) c'"
proof -
  obtain k p1 where k: "k \<le> length ms" "encode_all (take k ms) p = Some (wire c, p1)"
    "conn_protocol c = Some p1" "tl (messageQueue c) = drop k ms" "messageQueue c = [] \<longrightarrow> k = length ms"
    and st: "connectionState c \<noteq> CONNECTION_STATE_DISCONNECTED" "messageQueue c = [] \<longleftrightarrow> pending_write c = None"
    using assms(1) by (auto simp: fifo_def)
  show ?thesis
  proof (cases "messageQueue c = []")
    case True
    with assms(2) st have "internalSend False (c\<lparr>messageQueue := [m]\<rparr>) = Some c'"
      by (simp add: send_def)
    then show ?thesis
      using k True st fifo_next [of "c\<lparr>messageQueue := [m]\<rparr>" m "[]" p1 k "ms @ [m]" p c'] by simp
  next
    case False
    with assms(2) st have "c' = c\<lparr>messageQueue := messageQueue c @ [m]\<rparr>"
      by (auto simp: send_def Let_def)
    with k st False show ?thesis
      unfolding fifo_def by (intro conjI exI [of _ k] exI [of _ p1]) simp_all
  qed
qed

lemma fifo_written:
  assumes "fifo p ms c" and "onWriteOperation False False c = Some c'"
  shows "fifo p ms c'"
proof -
  obtain k p1 where k: "k \<le> length ms" "encode_all (take k ms) p = Some (wire c, p1)"
    "conn_protocol c = Some p1" "tl (messageQueue c) = drop k ms"
    and st: "connectionState c \<noteq> CONNECTION_STATE_DISCONNECTED"
    using assms(1) by (auto simp: fifo_def)
  obtain m rest where q: "messageQueue c = m # rest"
    using assms(2) by (auto simp: onWriteOperation_def split: list.splits)
  let ?c1 = "c\<lparr>writeTimer := False, pending_write := None, messageQueue := rest\<rparr>"
  show ?thesis
  proof (cases rest)
    case Nil
    with assms(2) q st have "c' = ?c1" by (simp add: onWriteOperation_def Let_def)
    with k st q Nil show ?thesis
      unfolding fifo_def by (intro conjI exI [of _ k] exI [of _ p1]) simp_all
  next
    case (Cons m2 rest2)
    with assms(2) q have "internalSend False ?c1 = Some c'" by (simp add: onWriteOperation_def Let_def)
    moreover have d: "drop k ms = m2 # rest2" using k(4) q Cons by simp
    then have less: "k < length ms" by (metis drop_eq_Nil leI list.distinct(1))
    moreover have "ms ! k = m2" "rest2 = drop (Suc k) ms"
      using Cons_nth_drop_Suc [OF less] d by auto
    ultimately show ?thesis
      using k st Cons fifo_next [of ?c1 m2 rest2 p1 k ms p c'] by simp
  qed
qed

lemma fifo_run:
  assumes "\<forall>e \<in> set evs. traffic e" and "fifo p ms c" and "run_events env evs c = Some c'"
  shows "fifo p (ms @ sent evs) c'"
  using assms
proof (induction evs arbitrary: ms c)
  case Nil
  then show ?case by simp
next
  case (Cons e evs)
  from Cons.prems(3) obtain c1 where e: "exec env e c = Some c1" "run_events env evs c1 = Some c'"
    by (auto split: if_splits option.splits)
  show ?case
  proof (cases e)
    case (SendMsg m fault)
    with Cons.prems e have "fifo p (ms @ [m]) c1" by (auto intro: fifo_send)
    with Cons.IH [of "ms @ [m]" c1] Cons.prems e SendMsg show ?thesis by simp
  next
    case (WriteDone error fault)
    with Cons.prems e have "fifo p ms c1" by (auto intro: fifo_written)
    with Cons.IH [of ms c1] Cons.prems e WriteDone show ?thesis by simp
  qed (use Cons.prems(1) in auto)
qed

text \<open>
  C4. Messages leave in the order they were sent, each encoded exactly once. Over any interleaving
  of \<^verbatim>\<open>send\<close> calls and completed writes on an idle connection, the bytes handed to the socket are the
  encodings, in order and with the protocol's sequence number threaded through them, of the first
  \<open>k\<close> messages sent; the rest wait in the queue in order, and when the queue is empty all have been
  written.
\<close>

theorem sends_leave_in_order:
  assumes "\<forall>e \<in> set evs. traffic e" and "run_events env evs c = Some c'"
    and "messageQueue c = []" and "pending_write c = None" and "wire c = []"
    and "conn_protocol c = Some p" and "connectionState c \<noteq> CONNECTION_STATE_DISCONNECTED"
  shows "\<exists>k p'. k \<le> length (sent evs) \<and> encode_all (take k (sent evs)) p = Some (wire c', p')
     \<and> conn_protocol c' = Some p' \<and> tl (messageQueue c') = drop k (sent evs)
     \<and> (messageQueue c' = [] \<longrightarrow> k = length (sent evs))"
proof -
  have "fifo p [] c" using assms(3-7) by (simp add: fifo_def)
  from fifo_run [OF assms(1) this assms(2)] show ?thesis
    unfolding fifo_def append_Nil by blast
qed

definition idle_connection :: connection where
  "idle_connection = accept_protocol False (new_protocol (1, 2, 3, 4)) (new_connection 0 (\<lambda>_. 0))"

lemma le_bytes_2: "le_bytes 2 v = [of_nat (v mod 256), of_nat (v div 256 mod 256)]"
  by (simp add: numeral_2_eq_2)

theorem sends_leave_in_order_witness:
  "\<exists>c'. run_events quiet_env [SendMsg (new_output (\<lambda>_. 0)) False, WriteDone False False] idle_connection = Some c'
     \<and> wire c' = [[0, 0]] \<and> messageQueue c' = []"
proof -
  have m: "sendable (new_output (\<lambda>_. 0))"
    by (simp add: sendable_def padding_fits_def well_built_new)
      (simp add: canAdd_def new_output_def INITIAL_BUFFER_POSITION_def size_defs)
  let ?evs = "[SendMsg (new_output (\<lambda>_. 0)) False, WriteDone False False]"
  have idle: "messageQueue idle_connection = []" "pending_write idle_connection = None"
    "wire idle_connection = []" "conn_protocol idle_connection = Some (new_protocol (1, 2, 3, 4))"
    "connectionState idle_connection \<noteq> CONNECTION_STATE_DISCONNECTED"
    by (simp_all add: idle_connection_def accept_protocol_def accept_def start_read_def new_connection_def Let_def)
  have enc: "onSendMessage (new_output (\<lambda>_. 0)) (new_protocol (1, 2, 3, 4)) = Some (m', p') \<Longrightarrow>
      wire_bytes m' = [0, 0]" for m' p'
    using writeMessageLength_built [OF well_built_new [of "\<lambda>_. 0"]]
    by (auto simp: onSendMessage_def new_protocol_def new_output_def wire_bytes_def word_bytes_def
        mem_laws numeral_2_eq_2 [symmetric] le_bytes_2)
  obtain m' p' where mp: "onSendMessage (new_output (\<lambda>_. 0)) (new_protocol (1, 2, 3, 4)) = Some (m', p')"
    using onSendMessage_defined [OF m] by blast
  then obtain c' where c': "run_events quiet_env ?evs idle_connection = Some c'" "messageQueue c' = []"
    using m idle by (auto simp: send_def internalSend_def onWriteOperation_def Let_def)
  from sends_leave_in_order [OF _ c'(1) idle] c'(2) mp have "wire c' = [wire_bytes m']"
    by (auto split: option.splits)
  with c' enc [OF mp] show ?thesis by auto
qed

section \<open>Properties: the server name handshake\<close>

text \<open>
  The reads that carry the server name: two bytes, then one at a time. \<open>greeting\<close> is the name with
  the line feed that ends it.
\<close>

definition greeting :: "environment \<Rightarrow> u8 list" where
  "greeting env = SERVER_NAME env @ [0x0A]"

definition name_reads :: "u8 list \<Rightarrow> int \<Rightarrow> event list" where
  "name_reads bs now = HeaderRead (take 2 bs) now False False # map (\<lambda>b. HeaderRead [b] now False False) (drop 2 bs)"

fun exec_all :: "environment \<Rightarrow> event list \<Rightarrow> connection \<Rightarrow> connection option" where
  "exec_all env [] c = Some c"
| "exec_all env (e # es) c = (case exec env e c of None \<Rightarrow> None | Some c' \<Rightarrow> exec_all env es c')"

lemma exec_all_snoc:
  "exec_all env es c = Some c' \<Longrightarrow> exec_all env (es @ [e]) c = exec env e c'"
  by (induction es arbitrary: c) (auto split: option.splits)

text \<open>The state after \<open>k\<close> matching bytes.\<close>

definition greeted :: "environment \<Rightarrow> int \<Rightarrow> nat \<Rightarrow> connection \<Rightarrow> bool" where
  "greeted env now k c \<longleftrightarrow> connectionState c = CONNECTION_STATE_CONNECTING_STAGE2 \<and> receivedName c
     \<and> serverNameTime c = of_nat (k - 1) \<and> (receivedLastChar c \<longleftrightarrow> k = length (greeting env))
     \<and> packetsSent c = of_nat (k - 1) \<and> timeConnected c = now
     \<and> pending_read c = Some (ReadHeader (if k = length (greeting env) then 2 else 1))"

definition awaiting_name :: "int \<Rightarrow> connection \<Rightarrow> bool" where
  "awaiting_name now c \<longleftrightarrow> connectionState c = CONNECTION_STATE_CONNECTING_STAGE2 \<and> \<not> receivedName c
     \<and> \<not> receivedLastChar c \<and> packetsSent c = 0 \<and> timeConnected c = now"

definition name_ok :: "environment \<Rightarrow> bool" where
  "name_ok env \<longleftrightarrow> 2 \<le> length (SERVER_NAME env) \<and> 0x0A \<notin> set (SERVER_NAME env)
     \<and> length (greeting env) \<le> unat (MAX_PACKETS_PER_SECOND env)"

lemma word_div_1: "(w :: 'a::len word) div 1 = w"
  by simp

lemma within_limit:
  assumes "name_ok env" and "k < length (greeting env)"
  shows "\<not> (of_nat k :: u32) > MAX_PACKETS_PER_SECOND env" and "unat (of_nat k :: u32) = k"
proof -
  have "length (greeting env) < 2 ^ 32"
    using assms(1) unsigned_less [of "MAX_PACKETS_PER_SECOND env", where ?'a = nat] by (simp add: name_ok_def)
  then show u: "unat (of_nat k :: u32) = k"
    using assms(2) by (simp add: unat_of_nat take_bit_nat_eq_self)
  show "\<not> (of_nat k :: u32) > MAX_PACKETS_PER_SECOND env"
    using assms u by (simp add: word_less_nat_alt name_ok_def)
qed

lemma first_two:
  assumes "name_ok env" and "awaiting_name now c" and "length bs = 2" and "bs ! 1 \<noteq> 0"
  shows "exec env (HeaderRead bs now False False) c = Some c' \<Longrightarrow>
      (if bs = take 2 (greeting env) then greeted env now 2 c'
       else connectionState c' = CONNECTION_STATE_DISCONNECTED)"
    and "exec env (HeaderRead bs now False False) c \<noteq> None"
proof -
  let ?c1 = "(deliver 0 bs c)\<lparr>readTimer := False, packetsSent := 1\<rparr>"
  obtain a b where bs: "bs = [a, b]" using assms(3) by (auto simp: length_Suc_conv numeral_2_eq_2)
  have m: "msg_buffer (conn_msg (deliver 0 bs c)) 0 = a" "msg_buffer (conn_msg (deliver 0 bs c)) 1 = b"
    by (simp_all add: deliver_def mem_write_def bs)
  obtain x y rest where n: "SERVER_NAME env = x # y # rest"
    using assms(1) by (cases "SERVER_NAME env" rule: remdups_adj.cases) (auto simp: name_ok_def)
  have lim: "\<not> (1 :: u32) > MAX_PACKETS_PER_SECOND env"
    using within_limit(1) [OF assms(1), of 1] by (simp add: greeting_def n)
  have "timePassed now (deliver 0 bs c) = 1" using assms(2) by (simp add: timePassed_def awaiting_name_def deliver_def)
  then have e: "exec env (HeaderRead bs now False False) c = check_name env False ?c1"
    using assms(2,4) lim m by (simp add: parseHeader_def Let_def awaiting_name_def timePassed_def deliver_def bs)
  have nm: "name_at (SERVER_NAME env @ [0x0A]) 0 = Some x" "name_at (SERVER_NAME env @ [0x0A]) 1 = Some y"
    by (simp_all add: name_at_def n)
  have "check_name env False ?c1 =
      Some (if a = x \<and> b = y then accept False (?c1\<lparr>receivedName := True, serverNameTime := 1\<rparr>) else close True ?c1)"
    using assms(2) m unfolding check_name_def Let_def nm by (simp add: awaiting_name_def deliver_def)
  then have ex: "exec env (HeaderRead bs now False False) c =
      Some (if a = x \<and> b = y then accept False (?c1\<lparr>receivedName := True, serverNameTime := 1\<rparr>) else close True ?c1)"
    using e by simp
  then show "exec env (HeaderRead bs now False False) c \<noteq> None" by simp
  have "greeted env now 2 (accept False (?c1\<lparr>receivedName := True, serverNameTime := 1\<rparr>))"
    using assms(2) by (simp add: greeted_def accept_def start_read_def awaiting_name_def deliver_def greeting_def n)
  moreover have "bs = take 2 (greeting env) \<longleftrightarrow> a = x \<and> b = y" by (simp add: greeting_def n bs)
  ultimately show "if bs = take 2 (greeting env) then greeted env now 2 c'
      else connectionState c' = CONNECTION_STATE_DISCONNECTED"
    if "exec env (HeaderRead bs now False False) c = Some c'"
    using ex that by (auto split: if_splits)
qed

lemma next_byte:
  assumes "name_ok env" and "greeted env now k c" and "2 \<le> k" and "k < length (greeting env)"
  shows "\<exists>c'. exec env (HeaderRead [b] now False False) c = Some c'
      \<and> (if b = greeting env ! k then greeted env now (Suc k) c'
         else connectionState c' = CONNECTION_STATE_DISCONNECTED)"
proof -
  let ?c1 = "(deliver 0 [b] c)\<lparr>readTimer := False, packetsSent := of_nat k\<rparr>"
  let ?c2 = "?c1\<lparr>serverNameTime := of_nat k\<rparr>"
  note g = assms(2) [unfolded greeted_def]
  obtain j where j: "k = Suc j" using assms(3) by (cases k) auto
  have k1: "(of_nat (k - 1) + 1 :: u32) = of_nat k" by (simp add: j)
  have m: "msg_buffer (conn_msg (deliver 0 [b] c)) 0 = b" by (simp add: deliver_def mem_write_def)
  have "exec env (HeaderRead [b] now False False) c = check_name env False ?c1"
    using g assms(4) within_limit(1) [OF assms(1,4)] k1
    by (simp add: parseHeader_def Let_def timePassed_def deliver_def)
  moreover have "name_at (SERVER_NAME env @ [0x0A]) k = Some (greeting env ! k)"
    using assms(4) by (simp add: name_at_def greeting_def)
  then have "check_name env False ?c1 =
      Some (if b = greeting env ! k then accept False (if b = 0x0A then ?c2\<lparr>receivedLastChar := True\<rparr> else ?c2)
            else close True ?c2)"
    using g m k1 within_limit(2) [OF assms(1,4)] by (simp add: check_name_def Let_def deliver_def)
  moreover have last: "greeting env ! k = 0x0A \<longleftrightarrow> Suc k = length (greeting env)"
    using assms(1,4) by (auto simp: greeting_def nth_append name_ok_def less_Suc_eq dest: nth_mem)
  have "greeted env now (Suc k) (accept False (if b = 0x0A then ?c2\<lparr>receivedLastChar := True\<rparr> else ?c2))"
    if "b = greeting env ! k"
    using g assms(4) that last by (auto simp: greeted_def accept_def start_read_def deliver_def HEADER_LENGTH_def)
  ultimately show ?thesis by auto
qed

lemma closed_ignores:
  "connectionState c = CONNECTION_STATE_DISCONNECTED \<Longrightarrow>
     \<exists>c'. exec env (HeaderRead bs now False False) c = Some c' \<and> connectionState c' = CONNECTION_STATE_DISCONNECTED"
  by (simp add: parseHeader_def Let_def deliver_def)

lemma name_reads_snoc: "2 \<le> length bs \<Longrightarrow> name_reads (bs @ [b]) now = name_reads bs now @ [HeaderRead [b] now False False]"
  by (simp add: name_reads_def)

lemma handshake_progress:
  assumes "name_ok env" and "awaiting_name now c"
  shows "2 \<le> length bs \<Longrightarrow> length bs \<le> length (greeting env) \<Longrightarrow> bs ! 1 \<noteq> 0 \<Longrightarrow>
    \<exists>c'. exec_all env (name_reads bs now) c = Some c'
      \<and> (if bs = take (length bs) (greeting env) then greeted env now (length bs) c'
         else connectionState c' = CONNECTION_STATE_DISCONNECTED)"
proof (induction bs rule: rev_induct)
  case Nil
  then show ?case by simp
next
  case (snoc b bs)
  show ?case
  proof (cases "length bs = 1")
    case True
    then have two: "length (bs @ [b]) = 2" by simp
    obtain c' where c': "exec env (HeaderRead (bs @ [b]) now False False) c = Some c'"
      using first_two(2) [OF assms two snoc.prems(3)] by blast
    have "name_reads (bs @ [b]) now = [HeaderRead (bs @ [b]) now False False]"
      using True by (simp add: name_reads_def)
    with c' have "exec_all env (name_reads (bs @ [b]) now) c = Some c'" by simp
    with first_two(1) [OF assms two snoc.prems(3) c'] show ?thesis unfolding two by blast
  next
    case False
    with snoc.prems have len: "2 \<le> length bs" "length bs < length (greeting env)" "bs ! 1 \<noteq> 0"
      by (auto simp: nth_append)
    with snoc.IH obtain c1 where c1: "exec_all env (name_reads bs now) c = Some c1"
      "if bs = take (length bs) (greeting env) then greeted env now (length bs) c1
       else connectionState c1 = CONNECTION_STATE_DISCONNECTED" by auto
    have tk: "bs @ [b] = take (length (bs @ [b])) (greeting env)
        \<longleftrightarrow> bs = take (length bs) (greeting env) \<and> b = greeting env ! length bs"
      using len by (simp add: take_Suc_conv_app_nth)
    have ex: "exec_all env (name_reads (bs @ [b]) now) c = exec env (HeaderRead [b] now False False) c1"
      using exec_all_snoc [OF c1(1)] name_reads_snoc [OF len(1)] by simp
    show ?thesis
    proof (cases "bs = take (length bs) (greeting env)")
      case True
      with c1(2) next_byte [OF assms(1) _ len(1,2), of now c1 b] show ?thesis
        unfolding ex tk by auto
    next
      case wrong: False
      with c1(2) closed_ignores [of c1 env "[b]" now] show ?thesis unfolding ex tk by auto
    qed
  qed
qed

text \<open>
  The server name handshake accepts exactly the configured name. A client of the game port that
  does not start with a zero second byte is read two bytes first and then one at a time; after any
  number of bytes up to the name and its line feed, the connection is still open if and only if the
  bytes are a prefix of the configured name followed by the line feed, and the handshake is over
  (the next read is a packet header) if and only if they are all of it. The first wrong byte closes
  the connection.
\<close>

theorem handshake_accepts_exactly_the_name:
  assumes "name_ok env" and "awaiting_name now c" and "2 \<le> length bs"
    and "length bs \<le> length (greeting env)" and "bs ! 1 \<noteq> 0"
  shows "\<exists>c'. exec_all env (name_reads bs now) c = Some c'
    \<and> (connectionState c' \<noteq> CONNECTION_STATE_DISCONNECTED \<longleftrightarrow> bs = take (length bs) (greeting env))
    \<and> (connectionState c' \<noteq> CONNECTION_STATE_DISCONNECTED \<and> receivedLastChar c' \<longleftrightarrow> bs = greeting env)
    \<and> (bs = greeting env \<longrightarrow> pending_read c' = Some (ReadHeader HEADER_LENGTH))"
proof -
  have "bs = greeting env \<longleftrightarrow> bs = take (length bs) (greeting env) \<and> length bs = length (greeting env)"
    using assms(4) by (metis take_all order_refl)
  with handshake_progress [OF assms] show ?thesis
    by (auto simp: greeted_def HEADER_LENGTH_def split: if_splits)
qed

theorem handshake_accepts_exactly_the_name_witness:
  "\<exists>c'. exec_all quiet_env (name_reads [65, 66, 10] 0) idle_connection = Some c'
    \<and> connectionState c' \<noteq> CONNECTION_STATE_DISCONNECTED \<and> receivedLastChar c'"
  using handshake_accepts_exactly_the_name [of quiet_env 0 idle_connection "[65, 66, 10]"]
  by (auto simp: name_ok_def quiet_env_def greeting_def awaiting_name_def idle_connection_def
      accept_protocol_def accept_def start_read_def new_connection_def)

end
