(* ===== verification/Names.thy ===== *)
theory Names
  imports Strings
begin

text \<open>
  The enumerations and name tables of \<^verbatim>\<open>utils/tools.cpp\<close>: return codes and their messages, skill,
  weapon and category names, item attribute names, spell groups, damage type indices and the fluid
  tables shared with the client. Enumerations come from \<^verbatim>\<open>items_definitions.hpp\<close>,
  \<^verbatim>\<open>creatures_definitions.hpp\<close> and \<^verbatim>\<open>utils_definitions.hpp\<close>.
\<close>

section \<open>Enumerations\<close>

type_synonym ReturnValue = nat

abbreviation (input) RETURNVALUE_NOERROR :: ReturnValue where "RETURNVALUE_NOERROR \<equiv> 0"
abbreviation (input) RETURNVALUE_NOTPOSSIBLE :: ReturnValue where "RETURNVALUE_NOTPOSSIBLE \<equiv> 1"
abbreviation (input) RETURNVALUE_NOTENOUGHROOM :: ReturnValue where "RETURNVALUE_NOTENOUGHROOM \<equiv> 2"
abbreviation (input) RETURNVALUE_PLAYERISPZLOCKED :: ReturnValue where "RETURNVALUE_PLAYERISPZLOCKED \<equiv> 3"
abbreviation (input) RETURNVALUE_PLAYERISNOTINVITED :: ReturnValue where "RETURNVALUE_PLAYERISNOTINVITED \<equiv> 4"
abbreviation (input) RETURNVALUE_CANNOTTHROW :: ReturnValue where "RETURNVALUE_CANNOTTHROW \<equiv> 5"
abbreviation (input) RETURNVALUE_THEREISNOWAY :: ReturnValue where "RETURNVALUE_THEREISNOWAY \<equiv> 6"
abbreviation (input) RETURNVALUE_DESTINATIONOUTOFREACH :: ReturnValue where "RETURNVALUE_DESTINATIONOUTOFREACH \<equiv> 7"
abbreviation (input) RETURNVALUE_CREATUREBLOCK :: ReturnValue where "RETURNVALUE_CREATUREBLOCK \<equiv> 8"
abbreviation (input) RETURNVALUE_NOTMOVEABLE :: ReturnValue where "RETURNVALUE_NOTMOVEABLE \<equiv> 9"
abbreviation (input) RETURNVALUE_DROPTWOHANDEDITEM :: ReturnValue where "RETURNVALUE_DROPTWOHANDEDITEM \<equiv> 10"
abbreviation (input) RETURNVALUE_BOTHHANDSNEEDTOBEFREE :: ReturnValue where "RETURNVALUE_BOTHHANDSNEEDTOBEFREE \<equiv> 11"
abbreviation (input) RETURNVALUE_CANONLYUSEONEWEAPON :: ReturnValue where "RETURNVALUE_CANONLYUSEONEWEAPON \<equiv> 12"
abbreviation (input) RETURNVALUE_NEEDEXCHANGE :: ReturnValue where "RETURNVALUE_NEEDEXCHANGE \<equiv> 13"
abbreviation (input) RETURNVALUE_CANNOTBEDRESSED :: ReturnValue where "RETURNVALUE_CANNOTBEDRESSED \<equiv> 14"
abbreviation (input) RETURNVALUE_PUTTHISOBJECTINYOURHAND :: ReturnValue where "RETURNVALUE_PUTTHISOBJECTINYOURHAND \<equiv> 15"
abbreviation (input) RETURNVALUE_PUTTHISOBJECTINBOTHHANDS :: ReturnValue where "RETURNVALUE_PUTTHISOBJECTINBOTHHANDS \<equiv> 16"
abbreviation (input) RETURNVALUE_TOOFARAWAY :: ReturnValue where "RETURNVALUE_TOOFARAWAY \<equiv> 17"
abbreviation (input) RETURNVALUE_FIRSTGODOWNSTAIRS :: ReturnValue where "RETURNVALUE_FIRSTGODOWNSTAIRS \<equiv> 18"
abbreviation (input) RETURNVALUE_FIRSTGOUPSTAIRS :: ReturnValue where "RETURNVALUE_FIRSTGOUPSTAIRS \<equiv> 19"
abbreviation (input) RETURNVALUE_CONTAINERNOTENOUGHROOM :: ReturnValue where "RETURNVALUE_CONTAINERNOTENOUGHROOM \<equiv> 20"
abbreviation (input) RETURNVALUE_ONLYAMMOINQUIVER :: ReturnValue where "RETURNVALUE_ONLYAMMOINQUIVER \<equiv> 21"
abbreviation (input) RETURNVALUE_NOTENOUGHCAPACITY :: ReturnValue where "RETURNVALUE_NOTENOUGHCAPACITY \<equiv> 22"
abbreviation (input) RETURNVALUE_CANNOTPICKUP :: ReturnValue where "RETURNVALUE_CANNOTPICKUP \<equiv> 23"
abbreviation (input) RETURNVALUE_THISISIMPOSSIBLE :: ReturnValue where "RETURNVALUE_THISISIMPOSSIBLE \<equiv> 24"
abbreviation (input) RETURNVALUE_DEPOTISFULL :: ReturnValue where "RETURNVALUE_DEPOTISFULL \<equiv> 25"
abbreviation (input) RETURNVALUE_CREATUREDOESNOTEXIST :: ReturnValue where "RETURNVALUE_CREATUREDOESNOTEXIST \<equiv> 26"
abbreviation (input) RETURNVALUE_CANNOTUSETHISOBJECT :: ReturnValue where "RETURNVALUE_CANNOTUSETHISOBJECT \<equiv> 27"
abbreviation (input) RETURNVALUE_PLAYERWITHTHISNAMEISNOTONLINE :: ReturnValue where "RETURNVALUE_PLAYERWITHTHISNAMEISNOTONLINE \<equiv> 28"
abbreviation (input) RETURNVALUE_NOTREQUIREDLEVELTOUSERUNE :: ReturnValue where "RETURNVALUE_NOTREQUIREDLEVELTOUSERUNE \<equiv> 29"
abbreviation (input) RETURNVALUE_YOUAREALREADYTRADING :: ReturnValue where "RETURNVALUE_YOUAREALREADYTRADING \<equiv> 30"
abbreviation (input) RETURNVALUE_THISPLAYERISALREADYTRADING :: ReturnValue where "RETURNVALUE_THISPLAYERISALREADYTRADING \<equiv> 31"
abbreviation (input) RETURNVALUE_YOUMAYNOTLOGOUTDURINGAFIGHT :: ReturnValue where "RETURNVALUE_YOUMAYNOTLOGOUTDURINGAFIGHT \<equiv> 32"
abbreviation (input) RETURNVALUE_DIRECTPLAYERSHOOT :: ReturnValue where "RETURNVALUE_DIRECTPLAYERSHOOT \<equiv> 33"
abbreviation (input) RETURNVALUE_NOTENOUGHLEVEL :: ReturnValue where "RETURNVALUE_NOTENOUGHLEVEL \<equiv> 34"
abbreviation (input) RETURNVALUE_NOTENOUGHMAGICLEVEL :: ReturnValue where "RETURNVALUE_NOTENOUGHMAGICLEVEL \<equiv> 35"
abbreviation (input) RETURNVALUE_NOTENOUGHMANA :: ReturnValue where "RETURNVALUE_NOTENOUGHMANA \<equiv> 36"
abbreviation (input) RETURNVALUE_NOTENOUGHSOUL :: ReturnValue where "RETURNVALUE_NOTENOUGHSOUL \<equiv> 37"
abbreviation (input) RETURNVALUE_YOUAREEXHAUSTED :: ReturnValue where "RETURNVALUE_YOUAREEXHAUSTED \<equiv> 38"
abbreviation (input) RETURNVALUE_YOUCANNOTUSEOBJECTSTHATFAST :: ReturnValue where "RETURNVALUE_YOUCANNOTUSEOBJECTSTHATFAST \<equiv> 39"
abbreviation (input) RETURNVALUE_PLAYERISNOTREACHABLE :: ReturnValue where "RETURNVALUE_PLAYERISNOTREACHABLE \<equiv> 40"
abbreviation (input) RETURNVALUE_CANONLYUSETHISRUNEONCREATURES :: ReturnValue where "RETURNVALUE_CANONLYUSETHISRUNEONCREATURES \<equiv> 41"
abbreviation (input) RETURNVALUE_ACTIONNOTPERMITTEDINPROTECTIONZONE :: ReturnValue where "RETURNVALUE_ACTIONNOTPERMITTEDINPROTECTIONZONE \<equiv> 42"
abbreviation (input) RETURNVALUE_YOUMAYNOTATTACKTHISPLAYER :: ReturnValue where "RETURNVALUE_YOUMAYNOTATTACKTHISPLAYER \<equiv> 43"
abbreviation (input) RETURNVALUE_YOUMAYNOTATTACKAPERSONINPROTECTIONZONE :: ReturnValue where "RETURNVALUE_YOUMAYNOTATTACKAPERSONINPROTECTIONZONE \<equiv> 44"
abbreviation (input) RETURNVALUE_YOUMAYNOTATTACKAPERSONWHILEINPROTECTIONZONE :: ReturnValue where "RETURNVALUE_YOUMAYNOTATTACKAPERSONWHILEINPROTECTIONZONE \<equiv> 45"
abbreviation (input) RETURNVALUE_YOUMAYNOTATTACKTHISCREATURE :: ReturnValue where "RETURNVALUE_YOUMAYNOTATTACKTHISCREATURE \<equiv> 46"
abbreviation (input) RETURNVALUE_YOUCANONLYUSEITONCREATURES :: ReturnValue where "RETURNVALUE_YOUCANONLYUSEITONCREATURES \<equiv> 47"
abbreviation (input) RETURNVALUE_CREATUREISNOTREACHABLE :: ReturnValue where "RETURNVALUE_CREATUREISNOTREACHABLE \<equiv> 48"
abbreviation (input) RETURNVALUE_TURNSECUREMODETOATTACKUNMARKEDPLAYERS :: ReturnValue where "RETURNVALUE_TURNSECUREMODETOATTACKUNMARKEDPLAYERS \<equiv> 49"
abbreviation (input) RETURNVALUE_YOUNEEDPREMIUMACCOUNT :: ReturnValue where "RETURNVALUE_YOUNEEDPREMIUMACCOUNT \<equiv> 50"
abbreviation (input) RETURNVALUE_YOUNEEDTOLEARNTHISSPELL :: ReturnValue where "RETURNVALUE_YOUNEEDTOLEARNTHISSPELL \<equiv> 51"
abbreviation (input) RETURNVALUE_YOURVOCATIONCANNOTUSETHISSPELL :: ReturnValue where "RETURNVALUE_YOURVOCATIONCANNOTUSETHISSPELL \<equiv> 52"
abbreviation (input) RETURNVALUE_YOUNEEDAWEAPONTOUSETHISSPELL :: ReturnValue where "RETURNVALUE_YOUNEEDAWEAPONTOUSETHISSPELL \<equiv> 53"
abbreviation (input) RETURNVALUE_PLAYERISPZLOCKEDLEAVEPVPZONE :: ReturnValue where "RETURNVALUE_PLAYERISPZLOCKEDLEAVEPVPZONE \<equiv> 54"
abbreviation (input) RETURNVALUE_PLAYERISPZLOCKEDENTERPVPZONE :: ReturnValue where "RETURNVALUE_PLAYERISPZLOCKEDENTERPVPZONE \<equiv> 55"
abbreviation (input) RETURNVALUE_ACTIONNOTPERMITTEDINANOPVPZONE :: ReturnValue where "RETURNVALUE_ACTIONNOTPERMITTEDINANOPVPZONE \<equiv> 56"
abbreviation (input) RETURNVALUE_YOUCANNOTLOGOUTHERE :: ReturnValue where "RETURNVALUE_YOUCANNOTLOGOUTHERE \<equiv> 57"
abbreviation (input) RETURNVALUE_YOUNEEDAMAGICITEMTOCASTSPELL :: ReturnValue where "RETURNVALUE_YOUNEEDAMAGICITEMTOCASTSPELL \<equiv> 58"
abbreviation (input) RETURNVALUE_CANNOTCONJUREITEMHERE :: ReturnValue where "RETURNVALUE_CANNOTCONJUREITEMHERE \<equiv> 59"
abbreviation (input) RETURNVALUE_YOUNEEDTOSPLITYOURSPEARS :: ReturnValue where "RETURNVALUE_YOUNEEDTOSPLITYOURSPEARS \<equiv> 60"
abbreviation (input) RETURNVALUE_NAMEISTOOAMBIGUOUS :: ReturnValue where "RETURNVALUE_NAMEISTOOAMBIGUOUS \<equiv> 61"
abbreviation (input) RETURNVALUE_CANONLYUSEONESHIELD :: ReturnValue where "RETURNVALUE_CANONLYUSEONESHIELD \<equiv> 62"
abbreviation (input) RETURNVALUE_NOPARTYMEMBERSINRANGE :: ReturnValue where "RETURNVALUE_NOPARTYMEMBERSINRANGE \<equiv> 63"
abbreviation (input) RETURNVALUE_YOUARENOTTHEOWNER :: ReturnValue where "RETURNVALUE_YOUARENOTTHEOWNER \<equiv> 64"
abbreviation (input) RETURNVALUE_YOUCANTOPENCORPSEADM :: ReturnValue where "RETURNVALUE_YOUCANTOPENCORPSEADM \<equiv> 65"
abbreviation (input) RETURNVALUE_NOSUCHRAIDEXISTS :: ReturnValue where "RETURNVALUE_NOSUCHRAIDEXISTS \<equiv> 66"
abbreviation (input) RETURNVALUE_ANOTHERRAIDISALREADYEXECUTING :: ReturnValue where "RETURNVALUE_ANOTHERRAIDISALREADYEXECUTING \<equiv> 67"
abbreviation (input) RETURNVALUE_TRADEPLAYERFARAWAY :: ReturnValue where "RETURNVALUE_TRADEPLAYERFARAWAY \<equiv> 68"
abbreviation (input) RETURNVALUE_YOUDONTOWNTHISHOUSE :: ReturnValue where "RETURNVALUE_YOUDONTOWNTHISHOUSE \<equiv> 69"
abbreviation (input) RETURNVALUE_TRADEPLAYERALREADYOWNSAHOUSE :: ReturnValue where "RETURNVALUE_TRADEPLAYERALREADYOWNSAHOUSE \<equiv> 70"
abbreviation (input) RETURNVALUE_TRADEPLAYERHIGHESTBIDDER :: ReturnValue where "RETURNVALUE_TRADEPLAYERHIGHESTBIDDER \<equiv> 71"
abbreviation (input) RETURNVALUE_YOUCANNOTTRADETHISHOUSE :: ReturnValue where "RETURNVALUE_YOUCANNOTTRADETHISHOUSE \<equiv> 72"
abbreviation (input) RETURNVALUE_YOUDONTHAVEREQUIREDPROFESSION :: ReturnValue where "RETURNVALUE_YOUDONTHAVEREQUIREDPROFESSION \<equiv> 73"
abbreviation (input) RETURNVALUE_NOTENOUGHFISTLEVEL :: ReturnValue where "RETURNVALUE_NOTENOUGHFISTLEVEL \<equiv> 74"
abbreviation (input) RETURNVALUE_NOTENOUGHCLUBLEVEL :: ReturnValue where "RETURNVALUE_NOTENOUGHCLUBLEVEL \<equiv> 75"
abbreviation (input) RETURNVALUE_NOTENOUGHSWORDLEVEL :: ReturnValue where "RETURNVALUE_NOTENOUGHSWORDLEVEL \<equiv> 76"
abbreviation (input) RETURNVALUE_NOTENOUGHAXELEVEL :: ReturnValue where "RETURNVALUE_NOTENOUGHAXELEVEL \<equiv> 77"
abbreviation (input) RETURNVALUE_NOTENOUGHDISTANCELEVEL :: ReturnValue where "RETURNVALUE_NOTENOUGHDISTANCELEVEL \<equiv> 78"
abbreviation (input) RETURNVALUE_NOTENOUGHSHIELDLEVEL :: ReturnValue where "RETURNVALUE_NOTENOUGHSHIELDLEVEL \<equiv> 79"
abbreviation (input) RETURNVALUE_NOTENOUGHFISHLEVEL :: ReturnValue where "RETURNVALUE_NOTENOUGHFISHLEVEL \<equiv> 80"
abbreviation (input) RETURNVALUE_REWARDCHESTISEMPTY :: ReturnValue where "RETURNVALUE_REWARDCHESTISEMPTY \<equiv> 81"

datatype CombatType_t =
    COMBAT_NONE
  | COMBAT_PHYSICALDAMAGE
  | COMBAT_ENERGYDAMAGE
  | COMBAT_EARTHDAMAGE
  | COMBAT_FIREDAMAGE
  | COMBAT_UNDEFINEDDAMAGE
  | COMBAT_LIFEDRAIN
  | COMBAT_MANADRAIN
  | COMBAT_HEALING
  | COMBAT_DROWNDAMAGE
  | COMBAT_ICEDAMAGE
  | COMBAT_HOLYDAMAGE
  | COMBAT_DEATHDAMAGE

definition combat_value :: "CombatType_t \<Rightarrow> u16" where
  "combat_value e = (case e of
     COMBAT_NONE \<Rightarrow> 0
   | COMBAT_PHYSICALDAMAGE \<Rightarrow> 1
   | COMBAT_ENERGYDAMAGE \<Rightarrow> 2
   | COMBAT_EARTHDAMAGE \<Rightarrow> 4
   | COMBAT_FIREDAMAGE \<Rightarrow> 8
   | COMBAT_UNDEFINEDDAMAGE \<Rightarrow> 16
   | COMBAT_LIFEDRAIN \<Rightarrow> 32
   | COMBAT_MANADRAIN \<Rightarrow> 64
   | COMBAT_HEALING \<Rightarrow> 128
   | COMBAT_DROWNDAMAGE \<Rightarrow> 256
   | COMBAT_ICEDAMAGE \<Rightarrow> 512
   | COMBAT_HOLYDAMAGE \<Rightarrow> 1024
   | COMBAT_DEATHDAMAGE \<Rightarrow> 2048)"

datatype skills_t =
    SKILL_FIST
  | SKILL_CLUB
  | SKILL_SWORD
  | SKILL_AXE
  | SKILL_DISTANCE
  | SKILL_SHIELD
  | SKILL_FISHING
  | SKILL_CRITICAL_HIT_CHANCE
  | SKILL_CRITICAL_HIT_DAMAGE
  | SKILL_LIFE_LEECH_CHANCE
  | SKILL_LIFE_LEECH_AMOUNT
  | SKILL_MANA_LEECH_CHANCE
  | SKILL_MANA_LEECH_AMOUNT
  | SKILL_MAGLEVEL
  | SKILL_LEVEL

definition skills_value :: "skills_t \<Rightarrow> u8" where
  "skills_value e = (case e of
     SKILL_FIST \<Rightarrow> 0
   | SKILL_CLUB \<Rightarrow> 1
   | SKILL_SWORD \<Rightarrow> 2
   | SKILL_AXE \<Rightarrow> 3
   | SKILL_DISTANCE \<Rightarrow> 4
   | SKILL_SHIELD \<Rightarrow> 5
   | SKILL_FISHING \<Rightarrow> 6
   | SKILL_CRITICAL_HIT_CHANCE \<Rightarrow> 7
   | SKILL_CRITICAL_HIT_DAMAGE \<Rightarrow> 8
   | SKILL_LIFE_LEECH_CHANCE \<Rightarrow> 9
   | SKILL_LIFE_LEECH_AMOUNT \<Rightarrow> 10
   | SKILL_MANA_LEECH_CHANCE \<Rightarrow> 11
   | SKILL_MANA_LEECH_AMOUNT \<Rightarrow> 12
   | SKILL_MAGLEVEL \<Rightarrow> 13
   | SKILL_LEVEL \<Rightarrow> 14)"

datatype WeaponType_t =
    WEAPON_NONE
  | WEAPON_SWORD
  | WEAPON_CLUB
  | WEAPON_AXE
  | WEAPON_SHIELD
  | WEAPON_DISTANCE
  | WEAPON_WAND
  | WEAPON_AMMO
  | WEAPON_QUIVER

datatype SpellGroup_t =
    SPELLGROUP_NONE
  | SPELLGROUP_ATTACK
  | SPELLGROUP_HEALING
  | SPELLGROUP_SUPPORT
  | SPELLGROUP_SPECIAL
  | SPELLGROUP_CONJURE
  | SPELLGROUP_CRIPPLING
  | SPELLGROUP_FOCUS
  | SPELLGROUP_ULTIMATESTRIKES

type_synonym ItemAttrTypes = u32

abbreviation (input) ITEM_ATTRIBUTE_NONE :: ItemAttrTypes where "ITEM_ATTRIBUTE_NONE \<equiv> 0"
abbreviation (input) ITEM_ATTRIBUTE_ACTIONID :: ItemAttrTypes where "ITEM_ATTRIBUTE_ACTIONID \<equiv> 1"
abbreviation (input) ITEM_ATTRIBUTE_UNIQUEID :: ItemAttrTypes where "ITEM_ATTRIBUTE_UNIQUEID \<equiv> 2"
abbreviation (input) ITEM_ATTRIBUTE_DESCRIPTION :: ItemAttrTypes where "ITEM_ATTRIBUTE_DESCRIPTION \<equiv> 4"
abbreviation (input) ITEM_ATTRIBUTE_TEXT :: ItemAttrTypes where "ITEM_ATTRIBUTE_TEXT \<equiv> 8"
abbreviation (input) ITEM_ATTRIBUTE_DATE :: ItemAttrTypes where "ITEM_ATTRIBUTE_DATE \<equiv> 16"
abbreviation (input) ITEM_ATTRIBUTE_WRITER :: ItemAttrTypes where "ITEM_ATTRIBUTE_WRITER \<equiv> 32"
abbreviation (input) ITEM_ATTRIBUTE_NAME :: ItemAttrTypes where "ITEM_ATTRIBUTE_NAME \<equiv> 64"
abbreviation (input) ITEM_ATTRIBUTE_ARTICLE :: ItemAttrTypes where "ITEM_ATTRIBUTE_ARTICLE \<equiv> 128"
abbreviation (input) ITEM_ATTRIBUTE_PLURALNAME :: ItemAttrTypes where "ITEM_ATTRIBUTE_PLURALNAME \<equiv> 256"
abbreviation (input) ITEM_ATTRIBUTE_WEIGHT :: ItemAttrTypes where "ITEM_ATTRIBUTE_WEIGHT \<equiv> 512"
abbreviation (input) ITEM_ATTRIBUTE_ATTACK :: ItemAttrTypes where "ITEM_ATTRIBUTE_ATTACK \<equiv> 1024"
abbreviation (input) ITEM_ATTRIBUTE_DEFENSE :: ItemAttrTypes where "ITEM_ATTRIBUTE_DEFENSE \<equiv> 2048"
abbreviation (input) ITEM_ATTRIBUTE_EXTRADEFENSE :: ItemAttrTypes where "ITEM_ATTRIBUTE_EXTRADEFENSE \<equiv> 4096"
abbreviation (input) ITEM_ATTRIBUTE_ARMOR :: ItemAttrTypes where "ITEM_ATTRIBUTE_ARMOR \<equiv> 8192"
abbreviation (input) ITEM_ATTRIBUTE_HITCHANCE :: ItemAttrTypes where "ITEM_ATTRIBUTE_HITCHANCE \<equiv> 16384"
abbreviation (input) ITEM_ATTRIBUTE_SHOOTRANGE :: ItemAttrTypes where "ITEM_ATTRIBUTE_SHOOTRANGE \<equiv> 32768"
abbreviation (input) ITEM_ATTRIBUTE_OWNER :: ItemAttrTypes where "ITEM_ATTRIBUTE_OWNER \<equiv> 65536"
abbreviation (input) ITEM_ATTRIBUTE_DURATION :: ItemAttrTypes where "ITEM_ATTRIBUTE_DURATION \<equiv> 131072"
abbreviation (input) ITEM_ATTRIBUTE_DECAYSTATE :: ItemAttrTypes where "ITEM_ATTRIBUTE_DECAYSTATE \<equiv> 262144"
abbreviation (input) ITEM_ATTRIBUTE_CORPSEOWNER :: ItemAttrTypes where "ITEM_ATTRIBUTE_CORPSEOWNER \<equiv> 524288"
abbreviation (input) ITEM_ATTRIBUTE_CHARGES :: ItemAttrTypes where "ITEM_ATTRIBUTE_CHARGES \<equiv> 1048576"
abbreviation (input) ITEM_ATTRIBUTE_FLUIDTYPE :: ItemAttrTypes where "ITEM_ATTRIBUTE_FLUIDTYPE \<equiv> 2097152"
abbreviation (input) ITEM_ATTRIBUTE_DOORID :: ItemAttrTypes where "ITEM_ATTRIBUTE_DOORID \<equiv> 4194304"
abbreviation (input) ITEM_ATTRIBUTE_SPECIAL :: ItemAttrTypes where "ITEM_ATTRIBUTE_SPECIAL \<equiv> 8388608"
abbreviation (input) ITEM_ATTRIBUTE_IMBUEMENT_SLOT :: ItemAttrTypes where "ITEM_ATTRIBUTE_IMBUEMENT_SLOT \<equiv> 16777216"
abbreviation (input) ITEM_ATTRIBUTE_OPENCONTAINER :: ItemAttrTypes where "ITEM_ATTRIBUTE_OPENCONTAINER \<equiv> 33554432"
abbreviation (input) ITEM_ATTRIBUTE_QUICKLOOTCONTAINER :: ItemAttrTypes where "ITEM_ATTRIBUTE_QUICKLOOTCONTAINER \<equiv> 67108864"
abbreviation (input) ITEM_ATTRIBUTE_DURATION_TIMESTAMP :: ItemAttrTypes where "ITEM_ATTRIBUTE_DURATION_TIMESTAMP \<equiv> 134217728"
abbreviation (input) ITEM_ATTRIBUTE_IMBUEMENT_TYPE :: ItemAttrTypes where "ITEM_ATTRIBUTE_IMBUEMENT_TYPE \<equiv> 268435456"
abbreviation (input) ITEM_ATTRIBUTE_CUSTOM :: ItemAttrTypes where "ITEM_ATTRIBUTE_CUSTOM \<equiv> 2147483648"

type_synonym ObjectCategory_t = nat

abbreviation (input) OBJECTCATEGORY_NONE :: ObjectCategory_t where "OBJECTCATEGORY_NONE \<equiv> 0"
abbreviation (input) OBJECTCATEGORY_ARMORS :: ObjectCategory_t where "OBJECTCATEGORY_ARMORS \<equiv> 1"
abbreviation (input) OBJECTCATEGORY_NECKLACES :: ObjectCategory_t where "OBJECTCATEGORY_NECKLACES \<equiv> 2"
abbreviation (input) OBJECTCATEGORY_BOOTS :: ObjectCategory_t where "OBJECTCATEGORY_BOOTS \<equiv> 3"
abbreviation (input) OBJECTCATEGORY_CONTAINERS :: ObjectCategory_t where "OBJECTCATEGORY_CONTAINERS \<equiv> 4"
abbreviation (input) OBJECTCATEGORY_DECORATION :: ObjectCategory_t where "OBJECTCATEGORY_DECORATION \<equiv> 5"
abbreviation (input) OBJECTCATEGORY_FOOD :: ObjectCategory_t where "OBJECTCATEGORY_FOOD \<equiv> 6"
abbreviation (input) OBJECTCATEGORY_HELMETS :: ObjectCategory_t where "OBJECTCATEGORY_HELMETS \<equiv> 7"
abbreviation (input) OBJECTCATEGORY_LEGS :: ObjectCategory_t where "OBJECTCATEGORY_LEGS \<equiv> 8"
abbreviation (input) OBJECTCATEGORY_OTHERS :: ObjectCategory_t where "OBJECTCATEGORY_OTHERS \<equiv> 9"
abbreviation (input) OBJECTCATEGORY_POTIONS :: ObjectCategory_t where "OBJECTCATEGORY_POTIONS \<equiv> 10"
abbreviation (input) OBJECTCATEGORY_RINGS :: ObjectCategory_t where "OBJECTCATEGORY_RINGS \<equiv> 11"
abbreviation (input) OBJECTCATEGORY_RUNES :: ObjectCategory_t where "OBJECTCATEGORY_RUNES \<equiv> 12"
abbreviation (input) OBJECTCATEGORY_SHIELDS :: ObjectCategory_t where "OBJECTCATEGORY_SHIELDS \<equiv> 13"
abbreviation (input) OBJECTCATEGORY_TOOLS :: ObjectCategory_t where "OBJECTCATEGORY_TOOLS \<equiv> 14"
abbreviation (input) OBJECTCATEGORY_VALUABLES :: ObjectCategory_t where "OBJECTCATEGORY_VALUABLES \<equiv> 15"
abbreviation (input) OBJECTCATEGORY_AMMO :: ObjectCategory_t where "OBJECTCATEGORY_AMMO \<equiv> 16"
abbreviation (input) OBJECTCATEGORY_AXES :: ObjectCategory_t where "OBJECTCATEGORY_AXES \<equiv> 17"
abbreviation (input) OBJECTCATEGORY_CLUBS :: ObjectCategory_t where "OBJECTCATEGORY_CLUBS \<equiv> 18"
abbreviation (input) OBJECTCATEGORY_DISTANCEWEAPONS :: ObjectCategory_t where "OBJECTCATEGORY_DISTANCEWEAPONS \<equiv> 19"
abbreviation (input) OBJECTCATEGORY_SWORDS :: ObjectCategory_t where "OBJECTCATEGORY_SWORDS \<equiv> 20"
abbreviation (input) OBJECTCATEGORY_WANDS :: ObjectCategory_t where "OBJECTCATEGORY_WANDS \<equiv> 21"
abbreviation (input) OBJECTCATEGORY_PREMIUMSCROLLS :: ObjectCategory_t where "OBJECTCATEGORY_PREMIUMSCROLLS \<equiv> 22"
abbreviation (input) OBJECTCATEGORY_TIBIACOINS :: ObjectCategory_t where "OBJECTCATEGORY_TIBIACOINS \<equiv> 23"
abbreviation (input) OBJECTCATEGORY_CREATUREPRODUCTS :: ObjectCategory_t where "OBJECTCATEGORY_CREATUREPRODUCTS \<equiv> 24"
abbreviation (input) OBJECTCATEGORY_STASHRETRIEVE :: ObjectCategory_t where "OBJECTCATEGORY_STASHRETRIEVE \<equiv> 27"
abbreviation (input) OBJECTCATEGORY_GOLD :: ObjectCategory_t where "OBJECTCATEGORY_GOLD \<equiv> 30"
abbreviation (input) OBJECTCATEGORY_DEFAULT :: ObjectCategory_t where "OBJECTCATEGORY_DEFAULT \<equiv> 31"

section \<open>Messages and names\<close>

definition getReturnMessage :: "ReturnValue \<Rightarrow> string" where
  "getReturnMessage v =
     (if v = RETURNVALUE_REWARDCHESTISEMPTY then ''The chest is currently empty. You did not take part in any battles in the last seven days or already claimed your reward.''
      else if v = RETURNVALUE_DESTINATIONOUTOFREACH then ''Destination is out of reach.''
      else if v = RETURNVALUE_NOTMOVEABLE then ''You cannot move this object.''
      else if v = RETURNVALUE_DROPTWOHANDEDITEM then ''Drop the double-handed object first.''
      else if v = RETURNVALUE_BOTHHANDSNEEDTOBEFREE then ''Both hands need to be free.''
      else if v = RETURNVALUE_CANNOTBEDRESSED then ''You cannot dress this object there.''
      else if v = RETURNVALUE_PUTTHISOBJECTINYOURHAND then ''Put this object in your hand.''
      else if v = RETURNVALUE_PUTTHISOBJECTINBOTHHANDS then ''Put this object in both hands.''
      else if v = RETURNVALUE_CANONLYUSEONEWEAPON then ''You may only use one weapon.''
      else if v = RETURNVALUE_TOOFARAWAY then ''Too far away.''
      else if v = RETURNVALUE_FIRSTGODOWNSTAIRS then ''First go downstairs.''
      else if v = RETURNVALUE_FIRSTGOUPSTAIRS then ''First go upstairs.''
      else if v = RETURNVALUE_NOTENOUGHCAPACITY then ''This object is too heavy for you to carry.''
      else if v = RETURNVALUE_CONTAINERNOTENOUGHROOM then ''You cannot put more objects in this container.''
      else if v = RETURNVALUE_ONLYAMMOINQUIVER then ''This quiver only holds arrows and bolts.'' @ [CHR 0x0A] @ ''You cannot put any other items in it.''
      else if v = RETURNVALUE_NEEDEXCHANGE then ''There is not enough room.''
      else if v = RETURNVALUE_NOTENOUGHROOM then ''There is not enough room.''
      else if v = RETURNVALUE_CANNOTPICKUP then ''You cannot take this object.''
      else if v = RETURNVALUE_CANNOTTHROW then ''You cannot throw there.''
      else if v = RETURNVALUE_THEREISNOWAY then ''There is no way.''
      else if v = RETURNVALUE_THISISIMPOSSIBLE then ''This is impossible.''
      else if v = RETURNVALUE_PLAYERISPZLOCKED then ''You can not enter a protection zone after attacking another player.''
      else if v = RETURNVALUE_PLAYERISNOTINVITED then ''You are not invited.''
      else if v = RETURNVALUE_CREATUREDOESNOTEXIST then ''Creature does not exist.''
      else if v = RETURNVALUE_DEPOTISFULL then ''You cannot put more items in this depot.''
      else if v = RETURNVALUE_CANNOTUSETHISOBJECT then ''You cannot use this object.''
      else if v = RETURNVALUE_PLAYERWITHTHISNAMEISNOTONLINE then ''A player with this name is not online.''
      else if v = RETURNVALUE_NOTREQUIREDLEVELTOUSERUNE then ''You do not have the required magic level to use this rune.''
      else if v = RETURNVALUE_YOUAREALREADYTRADING then ''You are already trading.''
      else if v = RETURNVALUE_THISPLAYERISALREADYTRADING then ''This player is already trading.''
      else if v = RETURNVALUE_YOUMAYNOTLOGOUTDURINGAFIGHT then ''You may not logout during or immediately after a fight!''
      else if v = RETURNVALUE_DIRECTPLAYERSHOOT then ''You are not allowed to shoot directly on players.''
      else if v = RETURNVALUE_NOTENOUGHLEVEL then ''You do not have enough level.''
      else if v = RETURNVALUE_NOTENOUGHMAGICLEVEL then ''You do not have enough magic level.''
      else if v = RETURNVALUE_NOTENOUGHMANA then ''You do not have enough mana.''
      else if v = RETURNVALUE_NOTENOUGHSOUL then ''You do not have enough soul.''
      else if v = RETURNVALUE_YOUAREEXHAUSTED then ''You are exhausted.''
      else if v = RETURNVALUE_CANONLYUSETHISRUNEONCREATURES then ''You can only use this rune on creatures.''
      else if v = RETURNVALUE_PLAYERISNOTREACHABLE then ''Player is not reachable.''
      else if v = RETURNVALUE_CREATUREISNOTREACHABLE then ''Creature is not reachable.''
      else if v = RETURNVALUE_ACTIONNOTPERMITTEDINPROTECTIONZONE then ''This action is not permitted in a protection zone.''
      else if v = RETURNVALUE_YOUMAYNOTATTACKTHISPLAYER then ''You may not attack this player.''
      else if v = RETURNVALUE_YOUMAYNOTATTACKTHISCREATURE then ''You may not attack this creature.''
      else if v = RETURNVALUE_YOUMAYNOTATTACKAPERSONINPROTECTIONZONE then ''You may not attack a person in a protection zone.''
      else if v = RETURNVALUE_YOUMAYNOTATTACKAPERSONWHILEINPROTECTIONZONE then ''You may not attack a person while you are in a protection zone.''
      else if v = RETURNVALUE_YOUCANONLYUSEITONCREATURES then ''You can only use it on creatures.''
      else if v = RETURNVALUE_TURNSECUREMODETOATTACKUNMARKEDPLAYERS then ''Turn secure mode off if you really want to attack unmarked players.''
      else if v = RETURNVALUE_YOUNEEDPREMIUMACCOUNT then ''You need a premium account.''
      else if v = RETURNVALUE_YOUNEEDTOLEARNTHISSPELL then ''You need to learn this spell first.''
      else if v = RETURNVALUE_YOURVOCATIONCANNOTUSETHISSPELL then ''Your vocation cannot use this spell.''
      else if v = RETURNVALUE_YOUNEEDAWEAPONTOUSETHISSPELL then ''You need to equip a weapon to use this spell.''
      else if v = RETURNVALUE_PLAYERISPZLOCKEDLEAVEPVPZONE then ''You can not leave a pvp zone after attacking another player.''
      else if v = RETURNVALUE_PLAYERISPZLOCKEDENTERPVPZONE then ''You can not enter a pvp zone after attacking another player.''
      else if v = RETURNVALUE_ACTIONNOTPERMITTEDINANOPVPZONE then ''This action is not permitted in a non pvp zone.''
      else if v = RETURNVALUE_YOUCANNOTLOGOUTHERE then ''You can not logout here.''
      else if v = RETURNVALUE_YOUNEEDAMAGICITEMTOCASTSPELL then ''You need a magic item to cast this spell.''
      else if v = RETURNVALUE_CANNOTCONJUREITEMHERE then ''You cannot conjure items here.''
      else if v = RETURNVALUE_YOUNEEDTOSPLITYOURSPEARS then ''You need to split your spears first.''
      else if v = RETURNVALUE_NAMEISTOOAMBIGUOUS then ''Player name is ambiguous.''
      else if v = RETURNVALUE_CANONLYUSEONESHIELD then ''You may use only one shield.''
      else if v = RETURNVALUE_NOPARTYMEMBERSINRANGE then ''No party members in range.''
      else if v = RETURNVALUE_YOUARENOTTHEOWNER then ''You are not the owner.''
      else if v = RETURNVALUE_YOUCANTOPENCORPSEADM then ''You can't open this corpse, because you are an Admin.''
      else if v = RETURNVALUE_NOSUCHRAIDEXISTS then ''No such raid exists.''
      else if v = RETURNVALUE_ANOTHERRAIDISALREADYEXECUTING then ''Another raid is already executing.''
      else if v = RETURNVALUE_TRADEPLAYERFARAWAY then ''Trade player is too far away.''
      else if v = RETURNVALUE_YOUDONTOWNTHISHOUSE then ''You don't own this house.''
      else if v = RETURNVALUE_TRADEPLAYERALREADYOWNSAHOUSE then ''Trade player already owns a house.''
      else if v = RETURNVALUE_TRADEPLAYERHIGHESTBIDDER then ''Trade player is currently the highest bidder of an auctioned house.''
      else if v = RETURNVALUE_YOUCANNOTTRADETHISHOUSE then ''You can not trade this house.''
      else if v = RETURNVALUE_YOUDONTHAVEREQUIREDPROFESSION then ''You don't have the required profession.''
      else if v = RETURNVALUE_NOTENOUGHFISTLEVEL then ''You do not have enough fist level''
      else if v = RETURNVALUE_NOTENOUGHCLUBLEVEL then ''You do not have enough club level''
      else if v = RETURNVALUE_NOTENOUGHSWORDLEVEL then ''You do not have enough sword level''
      else if v = RETURNVALUE_NOTENOUGHAXELEVEL then ''You do not have enough axe level''
      else if v = RETURNVALUE_NOTENOUGHDISTANCELEVEL then ''You do not have enough distance level''
      else if v = RETURNVALUE_NOTENOUGHSHIELDLEVEL then ''You do not have enough shielding level''
      else if v = RETURNVALUE_NOTENOUGHFISHLEVEL then ''You do not have enough fishing level''
      else ''Sorry, not possible.'')"

definition getSkillName :: "u8 \<Rightarrow> string" where
  "getSkillName skillid =
     (if skillid = skills_value SKILL_FIST then ''fist fighting''
      else if skillid = skills_value SKILL_CLUB then ''club fighting''
      else if skillid = skills_value SKILL_SWORD then ''sword fighting''
      else if skillid = skills_value SKILL_AXE then ''axe fighting''
      else if skillid = skills_value SKILL_DISTANCE then ''distance fighting''
      else if skillid = skills_value SKILL_SHIELD then ''shielding''
      else if skillid = skills_value SKILL_FISHING then ''fishing''
      else if skillid = skills_value SKILL_CRITICAL_HIT_CHANCE then ''critical hit chance''
      else if skillid = skills_value SKILL_CRITICAL_HIT_DAMAGE then ''critical extra damage''
      else if skillid = skills_value SKILL_LIFE_LEECH_CHANCE then ''life leech chance''
      else if skillid = skills_value SKILL_LIFE_LEECH_AMOUNT then ''life leech amount''
      else if skillid = skills_value SKILL_MANA_LEECH_CHANCE then ''mana leech chance''
      else if skillid = skills_value SKILL_MANA_LEECH_AMOUNT then ''mana leech amount''
      else if skillid = skills_value SKILL_MAGLEVEL then ''magic level''
      else if skillid = skills_value SKILL_LEVEL then ''level''
      else ''unknown'')"

definition getWeaponName :: "WeaponType_t \<Rightarrow> string" where
  "getWeaponName weaponType = (case weaponType of
     WEAPON_SWORD \<Rightarrow> ''sword''
   | WEAPON_CLUB \<Rightarrow> ''club''
   | WEAPON_AXE \<Rightarrow> ''axe''
   | WEAPON_DISTANCE \<Rightarrow> ''distance''
   | WEAPON_WAND \<Rightarrow> ''wand''
   | WEAPON_AMMO \<Rightarrow> ''ammunition''
   | _ \<Rightarrow> [])"

definition getObjectCategoryName :: "ObjectCategory_t \<Rightarrow> string" where
  "getObjectCategoryName category =
     (if category = OBJECTCATEGORY_ARMORS then ''Armors''
      else if category = OBJECTCATEGORY_NECKLACES then ''Amulets''
      else if category = OBJECTCATEGORY_BOOTS then ''Boots''
      else if category = OBJECTCATEGORY_CONTAINERS then ''Containers''
      else if category = OBJECTCATEGORY_DECORATION then ''Decoration''
      else if category = OBJECTCATEGORY_FOOD then ''Food''
      else if category = OBJECTCATEGORY_HELMETS then ''Helmets''
      else if category = OBJECTCATEGORY_LEGS then ''Legs''
      else if category = OBJECTCATEGORY_OTHERS then ''Others''
      else if category = OBJECTCATEGORY_POTIONS then ''Potions''
      else if category = OBJECTCATEGORY_RINGS then ''Rings''
      else if category = OBJECTCATEGORY_RUNES then ''Runes''
      else if category = OBJECTCATEGORY_SHIELDS then ''Shields''
      else if category = OBJECTCATEGORY_TOOLS then ''Tools''
      else if category = OBJECTCATEGORY_VALUABLES then ''Valuables''
      else if category = OBJECTCATEGORY_AMMO then ''Weapons: Ammunition''
      else if category = OBJECTCATEGORY_AXES then ''Weapons: Axes''
      else if category = OBJECTCATEGORY_CLUBS then ''Weapons: Clubs''
      else if category = OBJECTCATEGORY_DISTANCEWEAPONS then ''Weapons: Distance''
      else if category = OBJECTCATEGORY_SWORDS then ''Weapons: Swords''
      else if category = OBJECTCATEGORY_WANDS then ''Weapons: Wands''
      else if category = OBJECTCATEGORY_PREMIUMSCROLLS then ''Premium Scrolls''
      else if category = OBJECTCATEGORY_TIBIACOINS then ''Tibia Coins''
      else if category = OBJECTCATEGORY_CREATUREPRODUCTS then ''Creature Products''
      else if category = OBJECTCATEGORY_STASHRETRIEVE then ''Stash Retrieve''
      else if category = OBJECTCATEGORY_GOLD then ''Gold''
      else if category = OBJECTCATEGORY_DEFAULT then ''Unassigned Loot''
      else [])"

definition stringToItemAttribute :: "string \<Rightarrow> ItemAttrTypes" where
  "stringToItemAttribute str =
     (if str = ''aid'' then ITEM_ATTRIBUTE_ACTIONID
      else if str = ''uid'' then ITEM_ATTRIBUTE_UNIQUEID
      else if str = ''description'' then ITEM_ATTRIBUTE_DESCRIPTION
      else if str = ''text'' then ITEM_ATTRIBUTE_TEXT
      else if str = ''date'' then ITEM_ATTRIBUTE_DATE
      else if str = ''writer'' then ITEM_ATTRIBUTE_WRITER
      else if str = ''name'' then ITEM_ATTRIBUTE_NAME
      else if str = ''article'' then ITEM_ATTRIBUTE_ARTICLE
      else if str = ''pluralname'' then ITEM_ATTRIBUTE_PLURALNAME
      else if str = ''weight'' then ITEM_ATTRIBUTE_WEIGHT
      else if str = ''attack'' then ITEM_ATTRIBUTE_ATTACK
      else if str = ''defense'' then ITEM_ATTRIBUTE_DEFENSE
      else if str = ''extradefense'' then ITEM_ATTRIBUTE_EXTRADEFENSE
      else if str = ''armor'' then ITEM_ATTRIBUTE_ARMOR
      else if str = ''hitchance'' then ITEM_ATTRIBUTE_HITCHANCE
      else if str = ''shootrange'' then ITEM_ATTRIBUTE_SHOOTRANGE
      else if str = ''owner'' then ITEM_ATTRIBUTE_OWNER
      else if str = ''duration'' then ITEM_ATTRIBUTE_DURATION
      else if str = ''decaystate'' then ITEM_ATTRIBUTE_DECAYSTATE
      else if str = ''corpseowner'' then ITEM_ATTRIBUTE_CORPSEOWNER
      else if str = ''charges'' then ITEM_ATTRIBUTE_CHARGES
      else if str = ''fluidtype'' then ITEM_ATTRIBUTE_FLUIDTYPE
      else if str = ''doorid'' then ITEM_ATTRIBUTE_DOORID
      else if str = ''timestamp'' then ITEM_ATTRIBUTE_DURATION_TIMESTAMP
      else ITEM_ATTRIBUTE_NONE)"

definition stringToSpellGroup :: "string \<Rightarrow> SpellGroup_t" where
  "stringToSpellGroup v =
     (let tmpStr = asLowerCaseString v in
      if tmpStr = ''attack'' \<or> tmpStr = ''1'' then SPELLGROUP_ATTACK
      else if tmpStr = ''healing'' \<or> tmpStr = ''2'' then SPELLGROUP_HEALING
      else if tmpStr = ''support'' \<or> tmpStr = ''3'' then SPELLGROUP_SUPPORT
      else if tmpStr = ''special'' \<or> tmpStr = ''4'' then SPELLGROUP_SPECIAL
      else if tmpStr = ''crippling'' \<or> tmpStr = ''6'' then SPELLGROUP_CRIPPLING
      else if tmpStr = ''focus'' \<or> tmpStr = ''7'' then SPELLGROUP_FOCUS
      else if tmpStr = ''ultimatestrikes'' \<or> tmpStr = ''8'' then SPELLGROUP_ULTIMATESTRIKES
      else SPELLGROUP_NONE)"

section \<open>Damage types and fluids\<close>

definition combatTypeToIndex :: "u16 \<Rightarrow> nat" where
  "combatTypeToIndex combatType =
     (if combatType = combat_value COMBAT_PHYSICALDAMAGE then 0
      else if combatType = combat_value COMBAT_ENERGYDAMAGE then 1
      else if combatType = combat_value COMBAT_EARTHDAMAGE then 2
      else if combatType = combat_value COMBAT_FIREDAMAGE then 3
      else if combatType = combat_value COMBAT_UNDEFINEDDAMAGE then 4
      else if combatType = combat_value COMBAT_LIFEDRAIN then 5
      else if combatType = combat_value COMBAT_MANADRAIN then 6
      else if combatType = combat_value COMBAT_HEALING then 7
      else if combatType = combat_value COMBAT_DROWNDAMAGE then 8
      else if combatType = combat_value COMBAT_ICEDAMAGE then 9
      else if combatType = combat_value COMBAT_HOLYDAMAGE then 10
      else if combatType = combat_value COMBAT_DEATHDAMAGE then 11
      else 0)"

text \<open>\<^verbatim>\<open>1 << v\<close> is computed as an int, for which a shift by 31 or more is undefined.\<close>

definition indexToCombatType :: "nat \<Rightarrow> u16 option" where
  "indexToCombatType v = (if v < 31 then Some (ucast (push_bit v 1 :: u32)) else None)"

datatype FluidTypes_t =
    FLUID_NONE
  | FLUID_WATER
  | FLUID_BLOOD
  | FLUID_BEER
  | FLUID_SLIME
  | FLUID_LEMONADE
  | FLUID_MILK
  | FLUID_MANA
  | FLUID_LIFE
  | FLUID_OIL
  | FLUID_URINE
  | FLUID_COCONUTMILK
  | FLUID_WINE
  | FLUID_MUD
  | FLUID_FRUITJUICE
  | FLUID_LAVA
  | FLUID_RUM
  | FLUID_SWAMP
  | FLUID_TEA
  | FLUID_MEAD

definition fluid_value :: "FluidTypes_t \<Rightarrow> u8" where
  "fluid_value e = (case e of
     FLUID_NONE \<Rightarrow> 0
   | FLUID_WATER \<Rightarrow> 1
   | FLUID_BLOOD \<Rightarrow> 2
   | FLUID_BEER \<Rightarrow> 3
   | FLUID_SLIME \<Rightarrow> 4
   | FLUID_LEMONADE \<Rightarrow> 5
   | FLUID_MILK \<Rightarrow> 6
   | FLUID_MANA \<Rightarrow> 7
   | FLUID_LIFE \<Rightarrow> 10
   | FLUID_OIL \<Rightarrow> 11
   | FLUID_URINE \<Rightarrow> 13
   | FLUID_COCONUTMILK \<Rightarrow> 14
   | FLUID_WINE \<Rightarrow> 15
   | FLUID_MUD \<Rightarrow> 19
   | FLUID_FRUITJUICE \<Rightarrow> 21
   | FLUID_LAVA \<Rightarrow> 26
   | FLUID_RUM \<Rightarrow> 27
   | FLUID_SWAMP \<Rightarrow> 28
   | FLUID_TEA \<Rightarrow> 35
   | FLUID_MEAD \<Rightarrow> 43)"

definition clientToServerFluidMap :: "u8 list" where
  "clientToServerFluidMap = map fluid_value
     [FLUID_NONE,
      FLUID_WATER,
      FLUID_MANA,
      FLUID_BEER,
      FLUID_MUD,
      FLUID_BLOOD,
      FLUID_SLIME,
      FLUID_RUM,
      FLUID_LEMONADE,
      FLUID_MILK,
      FLUID_WINE,
      FLUID_LIFE,
      FLUID_URINE,
      FLUID_OIL,
      FLUID_FRUITJUICE,
      FLUID_COCONUTMILK,
      FLUID_TEA,
      FLUID_MEAD]"

fun fluid_search :: "nat \<Rightarrow> u8 list \<Rightarrow> u8 \<Rightarrow> u8" where
  "fluid_search i [] serverFluid = 0"
| "fluid_search i (f # fs) serverFluid =
     (if f = serverFluid then of_nat i else fluid_search (Suc i) fs serverFluid)"

definition serverFluidToClient :: "u8 \<Rightarrow> u8" where
  "serverFluidToClient serverFluid = fluid_search 0 clientToServerFluidMap serverFluid"

definition clientFluidToServer :: "u8 \<Rightarrow> u8" where
  "clientFluidToServer clientFluid =
     (if unat clientFluid \<ge> length clientToServerFluidMap then 0
      else clientToServerFluidMap ! unat clientFluid)"

definition isCaskItem :: "u16 \<Rightarrow> bool" where
  "isCaskItem itemId \<longleftrightarrow>
     (itemId \<ge> 25879 \<and> itemId \<le> 25883) \<or> (itemId \<ge> 25889 \<and> itemId \<le> 25893)
     \<or> (itemId \<ge> 25899 \<and> itemId \<le> 25902)"

section \<open>Properties\<close>

text \<open>The twelve damage types.\<close>

definition COMBATS :: "CombatType_t list" where
  "COMBATS = [COMBAT_PHYSICALDAMAGE, COMBAT_ENERGYDAMAGE, COMBAT_EARTHDAMAGE, COMBAT_FIREDAMAGE, COMBAT_UNDEFINEDDAMAGE, COMBAT_LIFEDRAIN, COMBAT_MANADRAIN, COMBAT_HEALING, COMBAT_DROWNDAMAGE, COMBAT_ICEDAMAGE, COMBAT_HOLYDAMAGE, COMBAT_DEATHDAMAGE]"

text \<open>
  Damage types and their indices are inverse to each other on the twelve damage types: the
  index of the type at index \<open>i\<close> is \<open>i\<close>, and the type at a type's index is that type. Any other
  16-bit value (no type, or several at once) has index 0, that of physical damage.
\<close>

theorem combat_index_roundtrip:
  "(\<forall>i \<in> {0..<12}. map_option combatTypeToIndex (indexToCombatType i) = Some i)
   \<and> (\<forall>t \<in> set COMBATS. indexToCombatType (combatTypeToIndex (combat_value t)) = Some (combat_value t))
   \<and> (\<forall>w. w \<notin> combat_value ` set COMBATS \<longrightarrow> combatTypeToIndex w = 0)"
proof (intro conjI)
  show "\<forall>i \<in> {0..<12}. map_option combatTypeToIndex (indexToCombatType i) = Some i"
  proof
    fix i :: nat
    assume "i \<in> {0..<12}"
    then have "i \<in> set [0, 1, 2, 3, 4, 5, 6, 7, 8, 9, 10, 11]" by simp presburger
    moreover have "\<forall>i \<in> set [0, 1, 2, 3, 4, 5, 6, 7, 8, 9, 10, 11].
        map_option combatTypeToIndex (indexToCombatType i) = Some i"
      by (simp add: combatTypeToIndex_def indexToCombatType_def combat_value_def)
    ultimately show "map_option combatTypeToIndex (indexToCombatType i) = Some i" by blast
  qed
  show "\<forall>t \<in> set COMBATS. indexToCombatType (combatTypeToIndex (combat_value t)) = Some (combat_value t)"
    by (simp add: COMBATS_def combatTypeToIndex_def indexToCombatType_def combat_value_def)
  show "\<forall>w. w \<notin> combat_value ` set COMBATS \<longrightarrow> combatTypeToIndex w = 0"
    by (simp add: COMBATS_def combatTypeToIndex_def)
qed

theorem combat_index_roundtrip_witness:
  "map_option combatTypeToIndex (indexToCombatType 11) = Some 11
   \<and> indexToCombatType (combatTypeToIndex (combat_value COMBAT_ICEDAMAGE)) = Some (combat_value COMBAT_ICEDAMAGE)
   \<and> combatTypeToIndex 3 = 0"
proof -
  have "COMBAT_ICEDAMAGE \<in> set COMBATS" "(3 :: u16) \<notin> combat_value ` set COMBATS"
    by (simp_all add: COMBATS_def combat_value_def)
  with combat_index_roundtrip show ?thesis by simp
qed

lemma fluid_table: "clientToServerFluidMap =
  [0, 1, 7, 3, 19, 2, 4, 27, 5, 6, 15, 10, 13, 11, 21, 14, 35, 43]"
  by (simp add: clientToServerFluidMap_def fluid_value_def)

text \<open>
  The fluid codes of the client and of the server translate into each other without loss: the
  eighteen client codes come back unchanged from a translation to the server's code and back, other
  client codes are read as empty, and every server fluid that has a client code is kept by the
  translation to the client and back. Lava and swamp have no client code and reach the client as
  empty.
\<close>

theorem fluid_roundtrip:
  "(if c < 18 then serverFluidToClient (clientFluidToServer c) = c else clientFluidToServer c = 0)
   \<and> (if s \<in> set clientToServerFluidMap then clientFluidToServer (serverFluidToClient s) = s
      else serverFluidToClient s = 0)
   \<and> fluid_value FLUID_LAVA \<notin> set clientToServerFluidMap
   \<and> fluid_value FLUID_SWAMP \<notin> set clientToServerFluidMap"
proof -
  have c: "if c < 18 then serverFluidToClient (clientFluidToServer c) = c else clientFluidToServer c = 0"
  proof (cases "c < 18")
    case True
    then have "unat c < 18" by (simp add: word_less_nat_alt)
    then have "unat c \<in> set [0, 1, 2, 3, 4, 5, 6, 7, 8, 9, 10, 11, 12, 13, 14, 15, 16, 17]"
      by simp presburger
    then have "c \<in> set [0, 1, 2, 3, 4, 5, 6, 7, 8, 9, 10, 11, 12, 13, 14, 15, 16, 17]"
      by (simp add: word_unat_eq_iff)
    moreover have "\<forall>c \<in> set [0, 1, 2, 3, 4, 5, 6, 7, 8, 9, 10, 11, 12, 13, 14, 15, 16, 17].
        serverFluidToClient (clientFluidToServer c) = c"
      by (simp add: serverFluidToClient_def clientFluidToServer_def fluid_table)
    ultimately show ?thesis unfolding if_P [OF True] by blast
  next
    case False
    then show ?thesis by (simp add: clientFluidToServer_def fluid_table word_less_nat_alt)
  qed
  have s: "if s \<in> set clientToServerFluidMap then clientFluidToServer (serverFluidToClient s) = s
      else serverFluidToClient s = 0"
    by (auto simp: serverFluidToClient_def clientFluidToServer_def fluid_table)
  have "fluid_value FLUID_LAVA \<notin> set clientToServerFluidMap
      \<and> fluid_value FLUID_SWAMP \<notin> set clientToServerFluidMap"
    by (simp add: fluid_table fluid_value_def)
  with c s show ?thesis by blast
qed

end
