(* ===== verification/WildcardTree.thy ===== *)
theory WildcardTree
  imports Names "HOL-Library.Char_ord" "HOL-Library.Sublist"
begin

text \<open>
  \<^verbatim>\<open>utils/wildcardtree.cpp\<close>: the prefix tree over the names of the players online that answers
  name queries ending in a wildcard. A node owns its children, so the tree is a value; walking
  down with a pointer and changing the node reached becomes rebuilding the path.
\<close>

section \<open>The tree\<close>

datatype WildcardTreeNode = WildcardTreeNode (breakpoint: bool) (children: "(char, WildcardTreeNode) omap")

definition getChild :: "char \<Rightarrow> WildcardTreeNode \<Rightarrow> WildcardTreeNode option" where
  "getChild ch t = om_find (children t) ch"

text \<open>The child after \<^verbatim>\<open>addChild\<close>, and the node with that child in place.\<close>

definition addChild :: "char \<Rightarrow> bool \<Rightarrow> WildcardTreeNode \<Rightarrow> WildcardTreeNode" where
  "addChild ch breakp t =
     (case getChild ch t of
        Some child \<Rightarrow>
          (if breakp \<and> \<not> breakpoint child then WildcardTreeNode True (children child) else child)
      | None \<Rightarrow> WildcardTreeNode breakp [])"

definition put_child :: "char \<Rightarrow> WildcardTreeNode \<Rightarrow> WildcardTreeNode \<Rightarrow> WildcardTreeNode" where
  "put_child ch child t = WildcardTreeNode (breakpoint t) (om_set (children t) ch child)"

text \<open>
  \<^verbatim>\<open>insert\<close>. For the empty string \<^verbatim>\<open>str.length() - 1\<close> wraps around and the loop runs past the end
  of the string.
\<close>

fun insert_name :: "string \<Rightarrow> WildcardTreeNode \<Rightarrow> WildcardTreeNode option" where
  "insert_name [] t = None"
| "insert_name [c] t = Some (put_child c (addChild c True t) t)"
| "insert_name (c # d # s) t =
     (case insert_name (d # s) (addChild c False t) of
        None \<Rightarrow> None
      | Some child \<Rightarrow> Some (put_child c child t))"

text \<open>
  \<^verbatim>\<open>remove\<close>: the result carries whether the loop that walks back up has reached this node, that is
  whether every node below it on the path has been erased.
\<close>

fun remove_path :: "string \<Rightarrow> WildcardTreeNode \<Rightarrow> (WildcardTreeNode \<times> bool) option" where
  "remove_path [] t = Some (WildcardTreeNode False (children t), True)"
| "remove_path (c # s) t =
     (case getChild c t of
        None \<Rightarrow> None
      | Some child \<Rightarrow>
          (case remove_path s child of
             None \<Rightarrow> None
           | Some (child', up) \<Rightarrow>
               (if up \<and> children child' = [] \<and> \<not> breakpoint child'
                then Some (WildcardTreeNode (breakpoint t) (om_erase (children t) c), True)
                else Some (put_child c child' t, False))))"

definition remove_name :: "string \<Rightarrow> WildcardTreeNode \<Rightarrow> WildcardTreeNode" where
  "remove_name str t = (case remove_path str t of None \<Rightarrow> t | Some (t', up) \<Rightarrow> t')"

fun walk :: "string \<Rightarrow> WildcardTreeNode \<Rightarrow> WildcardTreeNode option" where
  "walk [] t = Some t"
| "walk (c # s) t = (case getChild c t of None \<Rightarrow> None | Some child \<Rightarrow> walk s child)"

fun complete :: "WildcardTreeNode \<Rightarrow> string \<Rightarrow> ReturnValue \<times> string" where
  "complete (WildcardTreeNode b []) result = (RETURNVALUE_NOERROR, result)"
| "complete (WildcardTreeNode b [(c, child)]) result =
     (if b then (RETURNVALUE_NAMEISTOOAMBIGUOUS, result) else complete child (result @ [c]))"
| "complete (WildcardTreeNode b (x # y # zs)) result = (RETURNVALUE_NAMEISTOOAMBIGUOUS, result)"

text \<open>\<^verbatim>\<open>findOne\<close>: the code returned, and the result if it was assigned.\<close>

definition findOne :: "string \<Rightarrow> WildcardTreeNode \<Rightarrow> ReturnValue \<times> string option" where
  "findOne query t =
     (case walk query t of
        None \<Rightarrow> (RETURNVALUE_PLAYERWITHTHISNAMEISNOTONLINE, None)
      | Some node \<Rightarrow> (case complete node query of (r, result) \<Rightarrow> (r, Some result)))"

section \<open>The names in a tree\<close>

fun has_name :: "string \<Rightarrow> WildcardTreeNode \<Rightarrow> bool" where
  "has_name [] t = breakpoint t"
| "has_name (c # s) t = (case getChild c t of None \<Rightarrow> False | Some child \<Rightarrow> has_name s child)"

text \<open>Children are ordered, and a node without children ends a name.\<close>

definition alive :: "WildcardTreeNode \<Rightarrow> bool" where
  "alive t \<longleftrightarrow> children t \<noteq> [] \<or> breakpoint t"

fun tree_ok :: "WildcardTreeNode \<Rightarrow> bool" where
  "tree_ok (WildcardTreeNode b cs) \<longleftrightarrow> om_ok cs \<and> (\<forall>x \<in> set cs. tree_ok (snd x) \<and> alive (snd x))"

lemma tree_ok_child: "tree_ok t \<Longrightarrow> getChild c t = Some u \<Longrightarrow> tree_ok u \<and> alive u"
  by (cases t) (force simp: getChild_def dest: om_find_SomeD)

lemma tree_ok_sorted: "tree_ok t \<Longrightarrow> om_ok (children t)"
  by (cases t) simp

lemma put_child_ok: "tree_ok t \<Longrightarrow> tree_ok u \<Longrightarrow> alive u \<Longrightarrow> tree_ok (put_child c u t)"
  by (cases t) (auto simp: put_child_def omap_laws dest!: om_set_in)

lemma put_child_alive [simp]: "alive (put_child c u t)"
  by (cases t) (simp add: put_child_def alive_def, metis list.distinct(1) om_set.elims)

lemma erase_ok: "tree_ok t \<Longrightarrow> tree_ok (WildcardTreeNode b (om_erase (children t) c))"
  using om_erase_subset [of "children t" c] by (cases t) (auto simp: omap_laws)

lemma getChild_put: "getChild d (put_child c u t) = (if d = c then Some u else getChild d t)"
  by (simp add: getChild_def put_child_def omap_laws)

lemma has_name_put:
  "has_name w (put_child c u t) \<longleftrightarrow>
     (case w of [] \<Rightarrow> breakpoint t | d # s \<Rightarrow> if d = c then has_name s u else has_name w t)"
  by (cases w) (simp_all add: getChild_put, simp add: put_child_def)

lemma tree_ok_mark: "tree_ok u \<Longrightarrow> tree_ok (WildcardTreeNode b (children u))"
  by (cases u) simp

lemma addChild_ok: "tree_ok t \<Longrightarrow> tree_ok (addChild c b t)"
  using tree_ok_child [of t c] tree_ok_mark by (cases "getChild c t") (auto simp: addChild_def)

lemma addChild_alive: "tree_ok t \<Longrightarrow> alive (addChild c True t)"
  using tree_ok_child [of t c] by (cases "getChild c t") (auto simp: addChild_def alive_def)

lemma has_name_addChild:
  "has_name w (addChild c b t) \<longleftrightarrow> has_name (c # w) t \<or> (b \<and> w = [])"
  by (cases w; cases "getChild c t") (auto simp: addChild_def, auto simp: getChild_def)

section \<open>Insertion and removal\<close>

lemma insert_name_spec:
  assumes "s \<noteq> []" and "tree_ok t"
  shows "\<exists>t'. insert_name s t = Some t' \<and> tree_ok t' \<and> alive t'
     \<and> (\<forall>w. has_name w t' \<longleftrightarrow> w = s \<or> has_name w t)"
  using assms
proof (induction s t rule: insert_name.induct)
  case (2 c t)
  then show ?case
    by (auto simp: put_child_ok addChild_ok addChild_alive has_name_put has_name_addChild split: list.splits)
next
  case (3 c d s t)
  then obtain u where u: "insert_name (d # s) (addChild c False t) = Some u" "tree_ok u" "alive u"
    "\<forall>w. has_name w u \<longleftrightarrow> w = d # s \<or> has_name w (addChild c False t)"
    using addChild_ok by blast
  then show ?case
    using 3 by (auto simp: put_child_ok has_name_put has_name_addChild split: list.splits)
qed simp

lemma remove_path_spec:
  assumes "tree_ok t" and "remove_path s t = Some (t', up)"
  shows "tree_ok t' \<and> (\<forall>w. has_name w t' \<longleftrightarrow> w \<noteq> s \<and> has_name w t) \<and> (\<not> up \<longrightarrow> alive t')"
  using assms
proof (induction s t arbitrary: t' up rule: remove_path.induct)
  case (1 t)
  then have "has_name w t' \<longleftrightarrow> w \<noteq> [] \<and> has_name w t" for w
    by (cases w) (auto simp: getChild_def)
  with 1 show ?case by (cases t) auto
next
  case (2 c s t)
  then obtain u u' v where u: "getChild c t = Some u" "remove_path s u = Some (u', v)"
    by (auto split: option.splits prod.splits)
  have "tree_ok u" using tree_ok_child [OF "2.prems"(1) u(1)] by blast
  note ih = "2.IH" [OF u(1) this u(2)]
  then have u': "tree_ok u'" "\<And>w. has_name w u' \<longleftrightarrow> w \<noteq> s \<and> has_name w u" "\<not> v \<longrightarrow> alive u'"
    by auto
  show ?case
  proof (cases "v \<and> children u' = [] \<and> \<not> breakpoint u'")
    case True
    then have "has_name w u' = False" for w by (cases w) (auto simp: getChild_def)
    with u'(2) have "has_name w u \<Longrightarrow> w = s" for w by blast
    moreover have t': "t' = WildcardTreeNode (breakpoint t) (om_erase (children t) c)"
      using 2 u True by simp
    ultimately have "has_name w t' \<longleftrightarrow> w \<noteq> c # s \<and> has_name w t" for w
      using u tree_ok_sorted [OF "2.prems"(1)]
      by (cases w) (auto simp: getChild_def omap_laws split: option.splits)
    with t' erase_ok [OF "2.prems"(1)] show ?thesis using 2 u True by simp
  next
    case False
    then have t': "t' = put_child c u' t" "\<not> up" using 2 u by auto
    have "alive u'" using False u'(3) by (auto simp: alive_def)
    then have "tree_ok t'" using put_child_ok "2.prems"(1) u'(1) t' by blast
    moreover have "has_name w t' \<longleftrightarrow> w \<noteq> c # s \<and> has_name w t" for w
      by (cases w) (auto simp: t'(1) has_name_put u(1) u'(2))
    ultimately show ?thesis using t' by simp
  qed
qed

lemma remove_path_None: "remove_path s t = None \<Longrightarrow> \<not> has_name s t"
  by (induction s t rule: remove_path.induct) (auto split: option.splits prod.splits if_splits)

lemma remove_name_spec:
  "tree_ok t \<Longrightarrow> tree_ok (remove_name s t) \<and> (\<forall>w. has_name w (remove_name s t) \<longleftrightarrow> w \<noteq> s \<and> has_name w t)"
  using remove_path_spec [of t s] remove_path_None [of s t]
  by (auto simp: remove_name_def split: option.splits prod.splits)

section \<open>The index contract\<close>

text \<open>
  What the game needs of the index of online names: after a player logs in the name is found,
  after a logout it is not, and nothing else changes. Over any sequence of logins and logouts the
  names in the index are those of the players who are online.
\<close>

datatype presence = Login string | Logout string

fun online :: "presence list \<Rightarrow> string set" where
  "online [] = {}"
| "online (Login n # es) = insert n (online es)"
| "online (Logout n # es) = online es - {n}"

locale name_index =
  fixes empty :: 't and ins :: "string \<Rightarrow> 't \<Rightarrow> 't" and del :: "string \<Rightarrow> 't \<Rightarrow> 't"
    and mem :: "string \<Rightarrow> 't \<Rightarrow> bool" and ok :: "'t \<Rightarrow> bool"
  assumes ok_empty: "ok empty" and mem_empty: "\<not> mem w empty"
    and ok_ins: "ok t \<Longrightarrow> n \<noteq> [] \<Longrightarrow> ok (ins n t)" and ok_del: "ok t \<Longrightarrow> ok (del n t)"
    and mem_ins: "ok t \<Longrightarrow> n \<noteq> [] \<Longrightarrow> mem w (ins n t) \<longleftrightarrow> w = n \<or> mem w t"
    and mem_del: "ok t \<Longrightarrow> mem w (del n t) \<longleftrightarrow> w \<noteq> n \<and> mem w t"
begin

text \<open>The most recent event is at the head of the list.\<close>

fun index_after :: "presence list \<Rightarrow> 't" where
  "index_after [] = empty"
| "index_after (Login n # es) = ins n (index_after es)"
| "index_after (Logout n # es) = del n (index_after es)"

lemma index_is_online:
  "(\<forall>n. Login n \<in> set es \<longrightarrow> n \<noteq> []) \<Longrightarrow>
     ok (index_after es) \<and> (\<forall>w. mem w (index_after es) \<longleftrightarrow> w \<in> online es)"
  by (induction es rule: index_after.induct) (auto simp: ok_empty mem_empty ok_ins ok_del mem_ins mem_del)

end

definition empty_tree :: WildcardTreeNode where
  "empty_tree = WildcardTreeNode False []"

definition insert_or_keep :: "string \<Rightarrow> WildcardTreeNode \<Rightarrow> WildcardTreeNode" where
  "insert_or_keep n t = (case insert_name n t of None \<Rightarrow> t | Some t' \<Rightarrow> t')"

lemma insert_or_keep_spec:
  assumes "tree_ok t" and "n \<noteq> []"
  shows "tree_ok (insert_or_keep n t)" and "has_name w (insert_or_keep n t) \<longleftrightarrow> w = n \<or> has_name w t"
proof -
  obtain t' where t': "insert_name n t = Some t'" "tree_ok t'" "\<forall>w. has_name w t' \<longleftrightarrow> w = n \<or> has_name w t"
    using insert_name_spec [OF assms(2,1)] by blast
  show "tree_ok (insert_or_keep n t)" using t'(1,2) by (simp add: insert_or_keep_def)
  show "has_name w (insert_or_keep n t) \<longleftrightarrow> w = n \<or> has_name w t"
    using t'(1,3) by (simp add: insert_or_keep_def)
qed

lemma empty_tree_spec: "tree_ok empty_tree" "\<not> has_name w empty_tree"
  by (simp add: empty_tree_def) (cases w; simp add: empty_tree_def getChild_def)

interpretation wt: name_index empty_tree insert_or_keep remove_name has_name tree_ok
  by unfold_locales (simp_all add: empty_tree_spec insert_or_keep_spec remove_name_spec)

section \<open>Queries\<close>

lemma walk_has_name:
  "walk q t = Some n \<Longrightarrow> has_name (q @ s) t = has_name s n"
  "walk q t = None \<Longrightarrow> \<not> has_name (q @ s) t"
  by (induction q t rule: walk.induct) (auto split: option.splits)

lemma walk_ok: "walk q t = Some n \<Longrightarrow> tree_ok t \<Longrightarrow> tree_ok n \<and> (q \<noteq> [] \<or> alive t \<longrightarrow> alive n)"
proof (induction q t rule: walk.induct)
  case (2 c s t)
  then obtain u where u: "getChild c t = Some u" "walk s u = Some n" by (auto split: option.splits)
  with tree_ok_child [OF "2.prems"(2)] "2.IH" show ?case by auto
qed simp

lemma getChild_node: "getChild c (WildcardTreeNode b cs) = om_find cs c"
  by (simp add: getChild_def)

lemma alive_has_name: "tree_ok t \<Longrightarrow> alive t \<Longrightarrow> \<exists>w. has_name w t"
proof (induction t)
  case (WildcardTreeNode b cs)
  show ?case
  proof (cases cs)
    case Nil
    with WildcardTreeNode show ?thesis by (intro exI [of _ "[]"]) (simp add: alive_def)
  next
    case (Cons x xs)
    obtain c u where x: "x = (c, u)" by fastforce
    have "tree_ok u" "alive u" using WildcardTreeNode.prems(1) Cons x by simp_all
    then obtain w where "has_name w u"
      using WildcardTreeNode.IH [of x u] Cons x by (auto simp: Basic_BNFs.snds.simps)
    then have "has_name (c # w) (WildcardTreeNode b cs)" by (simp add: getChild_node Cons x)
    then show ?thesis by blast
  qed
qed

definition names_from :: "string \<Rightarrow> WildcardTreeNode \<Rightarrow> string set" where
  "names_from q t = {w. has_name w t \<and> prefix q w}"

lemma names_from_node: "walk q t = Some n \<Longrightarrow> names_from q t = (\<lambda>s. q @ s) ` {s. has_name s n}"
  by (auto simp: names_from_def prefix_def walk_has_name)

lemma two_children:
  assumes "tree_ok n" and "n = WildcardTreeNode b (x # y # zs)"
  shows "\<exists>v w. v \<noteq> w \<and> has_name v n \<and> has_name w n"
proof -
  obtain c u d v where xy: "x = (c, u)" "y = (d, v)" by fastforce
  with assms have "c \<noteq> d" by (auto simp: om_ok_Cons)
  moreover obtain w w' where "has_name w u" "has_name w' v"
    using assms xy alive_has_name by fastforce
  ultimately have "has_name (c # w) n" "has_name (d # w') n" "c # w \<noteq> d # w'"
    using assms(2) xy by (simp_all add: getChild_node)
  then show ?thesis by blast
qed

lemma complete_spec:
  assumes "tree_ok n" and "alive n" and "complete n q = (r, res)"
  shows "(r = RETURNVALUE_NOERROR \<and> (\<exists>s. res = q @ s \<and> {w. has_name w n} = {s}))
     \<or> (r = RETURNVALUE_NAMEISTOOAMBIGUOUS \<and> (\<exists>v w. v \<noteq> w \<and> has_name v n \<and> has_name w n))"
  using assms
proof (induction n q rule: complete.induct)
  case (1 b q)
  have "{w. has_name w (WildcardTreeNode b [])} = {[]}"
  proof (rule set_eqI)
    fix w
    show "w \<in> {w. has_name w (WildcardTreeNode b [])} \<longleftrightarrow> w \<in> {[]}"
      using "1.prems"(2) by (cases w) (simp_all add: getChild_node alive_def)
  qed
  with 1 show ?case by simp
next
  case (2 b c u q)
  have u: "tree_ok u" "alive u" using "2.prems"(1) by auto
  have names: "has_name w (WildcardTreeNode b [(c, u)]) \<longleftrightarrow> (w = [] \<and> b) \<or> (\<exists>s. w = c # s \<and> has_name s u)" for w
    by (cases w) (auto simp: getChild_node)
  show ?case
  proof (cases b)
    case True
    obtain w where "has_name w u" using alive_has_name u by blast
    with True names [of "[]"] names [of "c # w"] "2.prems"(3) show ?thesis by fastforce
  next
    case False
    with "2.IH" [OF _ u] "2.prems"(3) have ih:
      "(r = RETURNVALUE_NOERROR \<and> (\<exists>s. res = (q @ [c]) @ s \<and> {w. has_name w u} = {s}))
       \<or> (r = RETURNVALUE_NAMEISTOOAMBIGUOUS \<and> (\<exists>v w. v \<noteq> w \<and> has_name v u \<and> has_name w u))" by simp
    have img: "{w. has_name w (WildcardTreeNode b [(c, u)])} = (#) c ` {w. has_name w u}"
      using names False by auto
    from ih show ?thesis
    proof (elim disjE conjE exE)
      fix s
      assume "r = RETURNVALUE_NOERROR" "res = (q @ [c]) @ s" "{w. has_name w u} = {s}"
      then show ?thesis unfolding img by (intro disjI1 conjI exI [of _ "c # s"]) simp_all
    next
      fix v w
      assume "r = RETURNVALUE_NAMEISTOOAMBIGUOUS" "v \<noteq> w" "has_name v u" "has_name w u"
      then show ?thesis
        using names [of "c # v"] names [of "c # w"]
        by (intro disjI2 conjI exI [of _ "c # v"] exI [of _ "c # w"]) simp_all
    qed
  qed
next
  case (3 b x y zs q)
  with two_children [OF "3.prems"(1) refl] show ?case by simp
qed

section \<open>Properties\<close>

text \<open>
  C34. The index of online names holds exactly the players who are online: starting from the empty
  tree, after any sequence of logins (with non-empty names) and logouts, a name is in the tree if
  and only if its last event was a login, and the tree is well formed (children in order, no dead
  branches left behind by a removal).
\<close>

theorem index_holds_online_names:
  assumes "\<forall>n. Login n \<in> set es \<longrightarrow> n \<noteq> []"
  shows "tree_ok (wt.index_after es) \<and> (\<forall>w. has_name w (wt.index_after es) \<longleftrightarrow> w \<in> online es)"
  using wt.index_is_online [OF assms] .

theorem index_holds_online_names_witness:
  "has_name ''bob'' (wt.index_after [Logout ''bo'', Login ''bob'', Login ''bo''])
   \<and> \<not> has_name ''bo'' (wt.index_after [Logout ''bo'', Login ''bob'', Login ''bo''])"
  using index_holds_online_names [of "[Logout ''bo'', Login ''bob'', Login ''bo'']"] by auto

text \<open>
  C35. A wildcard query finds a player exactly when the prefix determines one. In a well-formed
  tree, for a non-empty prefix: \<^verbatim>\<open>findOne\<close> answers that nobody with the name is online exactly when
  no name starts with it; it answers with a name exactly when that name is the only one that starts
  with it; otherwise it answers that the name is ambiguous.
\<close>

theorem findOne_spec:
  assumes "tree_ok t" and "q \<noteq> []"
  shows "(fst (findOne q t) = RETURNVALUE_PLAYERWITHTHISNAMEISNOTONLINE \<longleftrightarrow> names_from q t = {})
    \<and> (\<forall>w. findOne q t = (RETURNVALUE_NOERROR, Some w) \<longleftrightarrow> names_from q t = {w})
    \<and> (fst (findOne q t) = RETURNVALUE_NAMEISTOOAMBIGUOUS \<longleftrightarrow>
         (\<exists>v w. v \<noteq> w \<and> v \<in> names_from q t \<and> w \<in> names_from q t))"
proof (cases "walk q t")
  case None
  then have "names_from q t = {}" by (auto simp: names_from_def prefix_def walk_has_name)
  then show ?thesis by (simp add: findOne_def None)
next
  case (Some n)
  then have n: "tree_ok n" "alive n" using walk_ok [OF Some assms(1)] assms(2) by auto
  obtain r res where c: "complete n q = (r, res)" by fastforce
  have f: "findOne q t = (r, Some res)" by (simp add: findOne_def Some c)
  from complete_spec [OF n c] show ?thesis
  proof (elim disjE conjE exE)
    fix s
    assume "r = RETURNVALUE_NOERROR" "res = q @ s" "{w. has_name w n} = {s}"
    moreover from this have "names_from q t = {q @ s}" by (simp add: names_from_node [OF Some])
    ultimately show ?thesis using f by auto
  next
    fix v w
    assume r: "r = RETURNVALUE_NAMEISTOOAMBIGUOUS" and "v \<noteq> w" "has_name v n" "has_name w n"
    then have two: "q @ v \<in> names_from q t" "q @ w \<in> names_from q t" "q @ v \<noteq> q @ w"
      by (simp_all add: names_from_node [OF Some])
    then have "names_from q t \<noteq> {}" by (metis empty_iff)
    moreover have "names_from q t \<noteq> {x}" for x using two by (metis singletonD)
    moreover have "\<exists>v w. v \<noteq> w \<and> v \<in> names_from q t \<and> w \<in> names_from q t" using two by blast
    ultimately show ?thesis unfolding f r fst_conv by simp
  qed
qed

theorem findOne_spec_witness:
  "findOne ''b'' (insert_or_keep ''bob'' empty_tree) = (RETURNVALUE_NOERROR, Some ''bob'')"
proof -
  have "names_from ''b'' (insert_or_keep ''bob'' empty_tree) = {''bob''}"
    by (auto simp: names_from_def empty_tree_spec(2) insert_or_keep_spec(2) [OF empty_tree_spec(1)])
  with findOne_spec [of "insert_or_keep ''bob'' empty_tree" "''b''"] insert_or_keep_spec(1) [OF empty_tree_spec(1), of "''bob''"]
  show ?thesis by simp
qed

end
