(* ===== verification/Otb.thy ===== *)
theory Otb
  imports Prelude
begin

text \<open>
  \<^verbatim>\<open>io/fileloader.cpp\<close> and \<^verbatim>\<open>fileloader.h\<close>: the node-tree file format of maps and item tables, and the
  property streams that read and write its attributes. File contents are a byte list and an
  iterator is an index into it; the exception \<^verbatim>\<open>InvalidOTBFormat\<close> is \<open>None\<close>. The stack of node
  pointers of the parser holds the open nodes, innermost first; a node is attached to its parent
  when it is closed, which is when the parent is next looked at.
\<close>

section \<open>Nodes\<close>

definition NODE_ESCAPE :: u8 where "NODE_ESCAPE = 0xFD"
definition NODE_START :: u8 where "NODE_START = 0xFE"
definition NODE_END :: u8 where "NODE_END = 0xFF"

lemmas marks = NODE_ESCAPE_def NODE_START_def NODE_END_def

datatype Node =
  Node (node_type: u8) (propsBegin: nat) (propsEnd: nat) (node_children: "Node list")

section \<open>The loader\<close>

definition wildcard :: "u8 list" where "wildcard = [0, 0, 0, 0]"

definition minimalSize :: nat where "minimalSize = 4 + 1 + 1 + 1"

definition Loader :: "u8 list \<Rightarrow> u8 list \<Rightarrow> u8 list option" where
  "Loader fileContents acceptedIdentifier =
     (if length fileContents \<le> minimalSize then None
      else if take 4 fileContents \<noteq> acceptedIdentifier \<and> take 4 fileContents \<noteq> wildcard then None
      else Some fileContents)"

definition close_props :: "nat \<Rightarrow> Node \<Rightarrow> Node" where
  "close_props it n =
     (if node_children n = [] then Node (node_type n) (propsBegin n) it [] else n)"

definition attach :: "Node \<Rightarrow> Node \<Rightarrow> Node" where
  "attach child n = Node (node_type n) (propsBegin n) (propsEnd n) (node_children n @ [child])"

text \<open>The loop of \<^verbatim>\<open>parseTree\<close>: iterator, bytes from there on, open nodes, and the root once closed.\<close>

function parse_loop :: "nat \<Rightarrow> u8 list \<Rightarrow> Node list \<Rightarrow> Node option \<Rightarrow> Node option" where
  "parse_loop it [] parseStack root = (if parseStack = [] then root else None)"
| "parse_loop it (b # bs) parseStack root =
     (if b = NODE_START then
        (case parseStack of [] \<Rightarrow> None
         | cur # rest \<Rightarrow>
             (case bs of [] \<Rightarrow> None
              | t # bs' \<Rightarrow> parse_loop (it + 2) bs' (Node t (it + 2) 0 [] # close_props it cur # rest) root))
      else if b = NODE_END then
        (case parseStack of [] \<Rightarrow> None
         | cur # rest \<Rightarrow>
             (case rest of [] \<Rightarrow> parse_loop (it + 1) bs [] (Some (close_props it cur))
              | parent # rest' \<Rightarrow>
                  parse_loop (it + 1) bs (attach (close_props it cur) parent # rest') root))
      else if b = NODE_ESCAPE then
        (case bs of [] \<Rightarrow> None | e # bs' \<Rightarrow> parse_loop (it + 2) bs' parseStack root)
      else parse_loop (it + 1) bs parseStack root)"
  by pat_completeness auto
termination
  by (relation "measure (\<lambda>(it, bs, parseStack, root). length bs)") auto

definition parseTree :: "u8 list \<Rightarrow> Node option" where
  "parseTree file =
     (case drop 4 file of
        s # t # bs \<Rightarrow> (if s \<noteq> NODE_START then None else parse_loop 6 bs [Node t 6 0 []] None)
      | _ \<Rightarrow> None)"

text \<open>The predicate of \<^verbatim>\<open>std::copy_if\<close>, with the flag it captures.\<close>

fun unescape :: "bool \<Rightarrow> u8 list \<Rightarrow> u8 list" where
  "unescape lastEscaped [] = []"
| "unescape lastEscaped (b # bs) =
     (let l = (b = NODE_ESCAPE \<and> \<not> lastEscaped) in if l then unescape l bs else b # unescape l bs)"

definition getProps :: "u8 list \<Rightarrow> Node \<Rightarrow> u8 list option" where
  "getProps file n =
     (let raw = take (propsEnd n - propsBegin n) (drop (propsBegin n) file) in
      if raw = [] then None else Some (unescape False raw))"

section \<open>Property streams\<close>

text \<open>What \<^verbatim>\<open>PropStream\<close> still has between \<^verbatim>\<open>p\<close> and \<^verbatim>\<open>end\<close>.\<close>

definition prop_read :: "nat \<Rightarrow> u8 list \<Rightarrow> 'w::len word option \<times> u8 list" where
  "prop_read n s = (if length s < n then (None, s) else (Some (bytes_word (take n s)), drop n s))"

definition readString :: "u8 list \<Rightarrow> u8 list option \<times> u8 list" where
  "readString s =
     (case prop_read 2 s of
        (None, s') \<Rightarrow> (None, s')
      | (Some (strLen :: u16), s') \<Rightarrow>
          (if length s' < unat strLen then (None, s')
           else (Some (take (unat strLen) s'), drop (unat strLen) s')))"

definition prop_skip :: "nat \<Rightarrow> u8 list \<Rightarrow> bool \<times> u8 list" where
  "prop_skip n s = (if length s < n then (False, s) else (True, drop n s))"

definition prop_write :: "nat \<Rightarrow> 'w::len word \<Rightarrow> u8 list \<Rightarrow> u8 list" where
  "prop_write n v buffer = buffer @ word_bytes n v"

definition writeString :: "u8 list \<Rightarrow> u8 list \<Rightarrow> u8 list" where
  "writeString str buffer =
     (if length str > 65535 then prop_write 2 (0 :: u16) buffer
      else prop_write 2 (of_nat (length str) :: u16) buffer @ str)"

section \<open>The file format\<close>

datatype tree = Tree u8 "u8 list" "tree list"

fun escape :: "u8 list \<Rightarrow> u8 list" where
  "escape [] = []"
| "escape (b # bs) =
     (if b = NODE_ESCAPE \<or> b = NODE_START \<or> b = NODE_END then NODE_ESCAPE # b # escape bs
      else b # escape bs)"

fun write_tree :: "tree \<Rightarrow> u8 list" and write_forest :: "tree list \<Rightarrow> u8 list" where
  "write_tree (Tree t props kids) = NODE_START # t # escape props @ write_forest kids @ [NODE_END]"
| "write_forest [] = []"
| "write_forest (k # ks) = write_tree k @ write_forest ks"

text \<open>What a client reads from a node: type, properties by \<^verbatim>\<open>getProps\<close>, children.\<close>

fun tree_of :: "u8 list \<Rightarrow> Node \<Rightarrow> tree" where
  "tree_of file (Node t b e ks) =
     Tree t (case getProps file (Node t b e ks) of None \<Rightarrow> [] | Some ps \<Rightarrow> ps) (map (tree_of file) ks)"

section \<open>Parsing what was written\<close>

lemma unescape_escape: "unescape False (escape ps) = ps"
  by (induction ps) (auto simp: marks)

lemma parse_escaped:
  "parse_loop it (escape ps @ rest) st root = parse_loop (it + length (escape ps)) rest st root"
  by (induction ps arbitrary: it) (auto simp: marks)

text \<open>The node the parser builds for a tree that starts at an index.\<close>

fun node_at :: "nat \<Rightarrow> tree \<Rightarrow> Node" and nodes_at :: "nat \<Rightarrow> tree list \<Rightarrow> Node list" where
  "node_at i (Tree t props kids) =
     Node t (i + 2) (i + 2 + length (escape props)) (nodes_at (i + 2 + length (escape props)) kids)"
| "nodes_at i [] = []"
| "nodes_at i (k # ks) = node_at i k # nodes_at (i + length (write_tree k)) ks"

lemma close_props_simps [simp]:
  "node_type (close_props i n) = node_type n" "propsBegin (close_props i n) = propsBegin n"
  "node_children (close_props i n) = node_children n"
  by (simp_all add: close_props_def)

lemma close_closed: "node_children n \<noteq> [] \<Longrightarrow> close_props i n = n"
  by (simp add: close_props_def)

text \<open>An open node after some children have been read.\<close>

definition with_children :: "nat \<Rightarrow> Node list \<Rightarrow> Node \<Rightarrow> Node" where
  "with_children i ns n = (if ns = [] then n
     else Node (node_type n) (propsBegin n) (propsEnd (close_props i n)) (node_children n @ ns))"

lemma with_children_step:
  "with_children j ns (attach m (close_props i n)) = with_children i (m # ns) n"
  by (cases n) (simp add: with_children_def attach_def close_props_def)

lemma parse_tree_forest:
  shows "parse_loop i (write_tree k @ rest) (n # st) root =
      parse_loop (i + length (write_tree k)) rest (attach (node_at i k) (close_props i n) # st) root"
    and "parse_loop i (write_forest ks @ rest) (n # st) root =
      parse_loop (i + length (write_forest ks)) rest (with_children i (nodes_at i ks) n # st) root"
proof (induction k and ks arbitrary: i n st rest and i n st rest rule: write_tree_write_forest.induct)
  case (1 t props kids)
  let ?j = "i + 2 + length (escape props)"
  have "parse_loop i (write_tree (Tree t props kids) @ rest) (n # st) root =
      parse_loop ?j (write_forest kids @ NODE_END # rest) (Node t (i + 2) 0 [] # close_props i n # st) root"
    by (simp add: parse_escaped)
  also have "\<dots> = parse_loop (?j + length (write_forest kids)) (NODE_END # rest)
      (with_children ?j (nodes_at ?j kids) (Node t (i + 2) 0 []) # close_props i n # st) root"
    by (rule 1)
  also have "\<dots> = parse_loop (?j + length (write_forest kids) + 1) rest
      (attach (node_at i (Tree t props kids)) (close_props i n) # st) root"
    by (cases kids) (simp_all add: marks with_children_def close_props_def)
  finally show ?case by (simp add: add.assoc)
next
  case 2
  then show ?case by (simp add: with_children_def)
next
  case (3 k ks)
  have "parse_loop i (write_forest (k # ks) @ rest) (n # st) root =
      parse_loop (i + length (write_tree k)) (write_forest ks @ rest)
        (attach (node_at i k) (close_props i n) # st) root"
    using "3.IH"(1) [of i "write_forest ks @ rest" n st] by simp
  also have "\<dots> = parse_loop (i + length (write_forest (k # ks))) rest
      (with_children i (nodes_at i (k # ks)) n # st) root"
    using "3.IH"(2) [of "i + length (write_tree k)" rest "attach (node_at i k) (close_props i n)" st]
    by (simp add: with_children_step add.assoc)
  finally show ?case .
qed

text \<open>Reading a node back gives the tree that was written there.\<close>

definition holds_at :: "u8 list \<Rightarrow> nat \<Rightarrow> u8 list \<Rightarrow> bool" where
  "holds_at file i bs \<longleftrightarrow> take (length bs) (drop i file) = bs"

lemma holds_at_append:
  "holds_at file i (as @ bs) \<longleftrightarrow> holds_at file i as \<and> holds_at file (i + length as) bs"
proof -
  have "take (length as + length bs) (drop i file)
      = take (length as) (drop i file) @ take (length bs) (drop (i + length as) file)"
    by (simp add: take_add add.commute)
  moreover have "length (take (length as) (drop i file)) = length as \<or> take (length as) (drop i file) \<noteq> as"
    by auto
  ultimately show ?thesis
    by (auto simp: holds_at_def dest: append_eq_conv_conj [THEN iffD1])
qed

lemma tree_of_node_at:
  shows "holds_at file i (write_tree k) \<Longrightarrow> tree_of file (node_at i k) = k"
    and "holds_at file i (write_forest ks) \<Longrightarrow> map (tree_of file) (nodes_at i ks) = ks"
proof (induction k and ks arbitrary: i and i rule: write_tree_write_forest.induct)
  case (1 t props kids)
  let ?j = "i + 2 + length (escape props)"
  have "holds_at file i ([NODE_START, t] @ escape props @ write_forest kids @ [NODE_END])"
    using "1.prems" by simp
  then have h: "holds_at file (i + 2) (escape props)" "holds_at file ?j (write_forest kids)"
    by (simp_all add: holds_at_append del: append_Cons)
  have "getProps file (node_at i (Tree t props kids)) = (if escape props = [] then None else Some props)"
    using h(1) by (auto simp: getProps_def holds_at_def unescape_escape Let_def)
  moreover have "escape props = [] \<Longrightarrow> props = []" by (cases props) (auto split: if_splits)
  ultimately show ?case using "1.IH" [OF h(2)] by auto
next
  case (3 k ks)
  then show ?case by (simp add: holds_at_append)
qed simp

section \<open>Indices stay inside the file\<close>

fun node_ok :: "nat \<Rightarrow> Node \<Rightarrow> bool" where
  "node_ok lim (Node t b e ks) \<longleftrightarrow> b \<le> e \<and> e \<le> lim \<and> (\<forall>k \<in> set ks. node_ok lim k)"

definition open_ok :: "nat \<Rightarrow> Node \<Rightarrow> bool" where
  "open_ok it n \<longleftrightarrow> propsBegin n \<le> it \<and> (\<forall>k \<in> set (node_children n). node_ok it k)
     \<and> (node_children n \<noteq> [] \<longrightarrow> propsBegin n \<le> propsEnd n \<and> propsEnd n \<le> it)"

text \<open>An ancestor of an open node has its property range already.\<close>

definition held_ok :: "nat \<Rightarrow> Node \<Rightarrow> bool" where
  "held_ok it n \<longleftrightarrow> open_ok it n \<and> propsBegin n \<le> propsEnd n \<and> propsEnd n \<le> it"

lemma node_ok_mono: "node_ok a n \<Longrightarrow> a \<le> b \<Longrightarrow> node_ok b n"
  by (induction a n rule: node_ok.induct) auto

lemma open_ok_mono: "open_ok a n \<Longrightarrow> a \<le> b \<Longrightarrow> open_ok b n"
  using node_ok_mono by (force simp: open_ok_def)

lemma held_ok_mono: "held_ok a n \<Longrightarrow> a \<le> b \<Longrightarrow> held_ok b n"
  using open_ok_mono by (auto simp: held_ok_def)

lemma close_held: "open_ok it n \<Longrightarrow> held_ok it (close_props it n)"
  by (cases n) (auto simp: held_ok_def open_ok_def close_props_def)

lemma held_node: "held_ok it n \<Longrightarrow> node_ok it n"
  by (cases n) (auto simp: held_ok_def open_ok_def)

lemma attach_open: "held_ok it n \<Longrightarrow> node_ok it m \<Longrightarrow> open_ok it (attach m n)"
  by (cases n) (auto simp: held_ok_def open_ok_def attach_def)

definition stack_ok :: "nat \<Rightarrow> Node list \<Rightarrow> bool" where
  "stack_ok it st \<longleftrightarrow> (case st of [] \<Rightarrow> True | cur # rest \<Rightarrow> open_ok it cur \<and> (\<forall>n \<in> set rest. held_ok it n))"

lemma stack_ok_mono: "stack_ok a st \<Longrightarrow> a \<le> b \<Longrightarrow> stack_ok b st"
  using open_ok_mono held_ok_mono by (fastforce simp: stack_ok_def split: list.splits)

lemma parse_loop_ok:
  assumes "parse_loop it bs st root = Some n" and "stack_ok it st"
    and "\<And>r. root = Some r \<Longrightarrow> node_ok it r"
  shows "node_ok (it + length bs) n"
  using assms
proof (induction it bs st root rule: parse_loop.induct)
  case (1 it st root)
  then show ?case by (auto split: if_splits)
next
  case (2 it b bs st root)
  have root': "node_ok (Suc it) r" "node_ok (Suc (Suc it)) r" if "root = Some r" for r
    using "2.prems"(3) [OF that] by (auto elim: node_ok_mono)
  consider (start) cur rest t bs' where "b = NODE_START" "st = cur # rest" "bs = t # bs'"
    | (last) cur where "b = NODE_END" "st = [cur]"
    | (inner) cur parent rest where "b = NODE_END" "st = cur # parent # rest"
    | (escape) e bs' where "b = NODE_ESCAPE" "bs = e # bs'"
    | (other) "b \<noteq> NODE_START" "b \<noteq> NODE_END" "b \<noteq> NODE_ESCAPE"
    using "2.prems"(1) by (auto simp: marks split: if_splits list.splits)
  then show ?case
  proof cases
    case start
    have "held_ok (it + 2) (close_props it cur)" "\<forall>n \<in> set rest. held_ok (it + 2) n"
      using "2.prems"(2) close_held start held_ok_mono by (fastforce simp: stack_ok_def)+
    then have "stack_ok (it + 2) (Node t (it + 2) 0 [] # close_props it cur # rest)"
      by (simp add: stack_ok_def open_ok_def)
    with 2 start root' show ?thesis by (simp add: marks)
  next
    case last
    have "node_ok (it + 1) (close_props it cur)"
      using "2.prems"(2) close_held held_node last node_ok_mono by (fastforce simp: stack_ok_def)
    with 2 last show ?thesis by (simp add: marks stack_ok_def)
  next
    case inner
    have "node_ok (it + 1) (close_props it cur)" "held_ok (it + 1) parent" "\<forall>n \<in> set rest. held_ok (it + 1) n"
      using "2.prems"(2) close_held held_node inner node_ok_mono held_ok_mono
      by (fastforce simp: stack_ok_def)+
    then have "stack_ok (it + 1) (attach (close_props it cur) parent # rest)"
      by (simp add: stack_ok_def attach_open)
    with 2 inner root' show ?thesis by (simp add: marks)
  next
    case escape
    with 2 root' stack_ok_mono [of it st "it + 2"] show ?thesis by (simp add: marks)
  next
    case other
    with 2 root' stack_ok_mono [of it st "it + 1"] show ?thesis by simp
  qed
qed

section \<open>The contract of a stream item\<close>

text \<open>Writing appends the encoding of the item, reading in front of it returns it and consumes it.\<close>

locale stream_item =
  fixes put :: "'v \<Rightarrow> u8 list \<Rightarrow> u8 list" and fetch :: "u8 list \<Rightarrow> 'v option \<times> u8 list"
    and enc :: "'v \<Rightarrow> u8 list" and ok :: "'v \<Rightarrow> bool"
  assumes put_enc: "ok v \<Longrightarrow> put v buf = buf @ enc v"
    and fetch_enc: "ok v \<Longrightarrow> fetch (enc v @ rest) = (Some v, rest)"
begin

lemma put_fetch_item: "ok v \<Longrightarrow> fetch (put v [] @ rest) = (Some v, rest)"
  by (simp add: put_enc fetch_enc)

end

lemma prop_read_enc:
  assumes "int_codec (word_bytes n :: 'w::len word \<Rightarrow> u8 list) bytes_word n"
  shows "prop_read n (word_bytes n (v :: 'w word) @ rest) = (Some v, rest)"
  using int_codec.dec_enc [OF assms, of v] by (simp add: prop_read_def)

interpretation s8: stream_item "prop_write 1" "prop_read 1" "word_bytes 1 :: u8 \<Rightarrow> u8 list" "\<lambda>_. True"
  by unfold_locales (simp_all add: prop_write_def prop_read_enc c8.int_codec_axioms del: One_nat_def)

interpretation s16: stream_item "prop_write 2" "prop_read 2" "word_bytes 2 :: u16 \<Rightarrow> u8 list" "\<lambda>_. True"
  by unfold_locales (simp_all add: prop_write_def prop_read_enc c16.int_codec_axioms)

interpretation s32: stream_item "prop_write 4" "prop_read 4" "word_bytes 4 :: u32 \<Rightarrow> u8 list" "\<lambda>_. True"
  by unfold_locales (simp_all add: prop_write_def prop_read_enc c32.int_codec_axioms)

interpretation s64: stream_item "prop_write 8" "prop_read 8" "word_bytes 8 :: u64 \<Rightarrow> u8 list" "\<lambda>_. True"
  by unfold_locales (simp_all add: prop_write_def prop_read_enc c64.int_codec_axioms)

definition str_enc :: "u8 list \<Rightarrow> u8 list" where
  "str_enc s = word_bytes 2 (of_nat (length s) :: u16) @ s"

interpretation sstr: stream_item writeString readString str_enc "\<lambda>s. length s \<le> 65535"
proof
  fix s buf rest :: "u8 list"
  assume len: "length s \<le> 65535"
  then show "writeString s buf = buf @ str_enc s"
    by (simp add: writeString_def prop_write_def str_enc_def)
  have "unat (of_nat (length s) :: u16) = length s"
    using len by (simp add: unat_of_nat take_bit_nat_eq_self)
  then show "readString (str_enc s @ rest) = (Some s, rest)"
    using s16.fetch_enc [OF TrueI, of "of_nat (length s)" "s @ rest"]
    by (simp add: readString_def str_enc_def)
qed

datatype item = I8 u8 | I16 u16 | I32 u32 | I64 u64 | IStr "u8 list"
datatype item_kind = K8 | K16 | K32 | K64 | KStr

fun kind_of :: "item \<Rightarrow> item_kind" where
  "kind_of (I8 _) = K8" | "kind_of (I16 _) = K16" | "kind_of (I32 _) = K32" | "kind_of (I64 _) = K64"
| "kind_of (IStr _) = KStr"

fun write_item :: "item \<Rightarrow> u8 list \<Rightarrow> u8 list" where
  "write_item (I8 v) b = prop_write 1 v b" | "write_item (I16 v) b = prop_write 2 v b"
| "write_item (I32 v) b = prop_write 4 v b" | "write_item (I64 v) b = prop_write 8 v b"
| "write_item (IStr s) b = writeString s b"

fun read_item :: "item_kind \<Rightarrow> u8 list \<Rightarrow> item option \<times> u8 list" where
  "read_item K8 s = apfst (map_option I8) (prop_read 1 s)"
| "read_item K16 s = apfst (map_option I16) (prop_read 2 s)"
| "read_item K32 s = apfst (map_option I32) (prop_read 4 s)"
| "read_item K64 s = apfst (map_option I64) (prop_read 8 s)"
| "read_item KStr s = apfst (map_option IStr) (readString s)"

fun read_items :: "item_kind list \<Rightarrow> u8 list \<Rightarrow> item list option \<times> u8 list" where
  "read_items [] s = (Some [], s)"
| "read_items (k # ks) s =
     (case read_item k s of
        (None, s') \<Rightarrow> (None, s')
      | (Some v, s') \<Rightarrow> apfst (map_option ((#) v)) (read_items ks s'))"

fun item_ok :: "item \<Rightarrow> bool" where
  "item_ok (IStr s) \<longleftrightarrow> length s \<le> 65535" | "item_ok _ \<longleftrightarrow> True"

fun item_enc :: "item \<Rightarrow> u8 list" where
  "item_enc (I8 v) = word_bytes 1 v" | "item_enc (I16 v) = word_bytes 2 v"
| "item_enc (I32 v) = word_bytes 4 v" | "item_enc (I64 v) = word_bytes 8 v"
| "item_enc (IStr s) = str_enc s"

lemma write_item_enc: "item_ok v \<Longrightarrow> write_item v b = b @ item_enc v"
  by (cases v) (simp_all add: s8.put_enc s16.put_enc s32.put_enc s64.put_enc sstr.put_enc del: One_nat_def)

lemma read_item_enc: "item_ok v \<Longrightarrow> read_item (kind_of v) (item_enc v @ rest) = (Some v, rest)"
  by (cases v) (simp_all add: s8.fetch_enc s16.fetch_enc s32.fetch_enc s64.fetch_enc sstr.fetch_enc
      del: One_nat_def)

lemma write_items_enc:
  "\<forall>v \<in> set vs. item_ok v \<Longrightarrow> fold write_item vs b = b @ concat (map item_enc vs)"
  by (induction vs arbitrary: b) (simp_all add: write_item_enc)

lemma read_items_enc:
  "\<forall>v \<in> set vs. item_ok v \<Longrightarrow> read_items (map kind_of vs) (concat (map item_enc vs) @ rest) = (Some vs, rest)"
  by (induction vs) (simp_all add: read_item_enc)

section \<open>Properties\<close>

text \<open>
  C32. A node file reads back as the tree that was written. For every tree of nodes, with any types
  and any property bytes (markers among them escaped), whose file is longer than the smallest the
  loader accepts: the loader accepts the file, \<^verbatim>\<open>parseTree\<close> succeeds, and the types, the properties
  returned by \<^verbatim>\<open>getProps\<close> and the children of every node are those of the tree.
\<close>

theorem otb_roundtrip:
  assumes "length identifier = 4" and "file = identifier @ write_tree t" and "length file > minimalSize"
  shows "Loader file identifier = Some file \<and> map_option (tree_of file) (parseTree file) = Some t"
proof -
  obtain ty props kids where t: "t = Tree ty props kids" by (cases t)
  let ?j = "6 + length (escape props)"
  have "parseTree file = parse_loop 6 (escape props @ write_forest kids @ [NODE_END]) [Node ty 6 0 []] None"
    using assms(1,2) by (simp add: parseTree_def t)
  also have "\<dots> = parse_loop (?j + length (write_forest kids)) [NODE_END]
      [with_children ?j (nodes_at ?j kids) (Node ty 6 0 [])] None"
    by (simp add: parse_escaped parse_tree_forest(2))
  also have "\<dots> = Some (node_at 4 t)"
    by (cases kids) (simp_all add: marks t with_children_def close_props_def)
  finally have "parseTree file = Some (node_at 4 t)" .
  moreover have "holds_at file 4 (write_tree t)" using assms(1,2) by (simp add: holds_at_def)
  ultimately show ?thesis
    using tree_of_node_at(1) assms by (simp add: Loader_def)
qed

theorem otb_roundtrip_witness:
  "map_option (tree_of [79, 84, 66, 77, 0xFE, 1, 0xFD, 0xFE, 7, 0xFE, 2, 0xFF, 0xFF])
     (parseTree [79, 84, 66, 77, 0xFE, 1, 0xFD, 0xFE, 7, 0xFE, 2, 0xFF, 0xFF])
   = Some (Tree 1 [0xFE, 7] [Tree 2 [] []])"
  using otb_roundtrip [of "[79, 84, 66, 77]" _ "Tree 1 [0xFE, 7] [Tree 2 [] []]"]
  by (simp add: marks minimalSize_def)

text \<open>
  C33. Whatever the file holds, if \<^verbatim>\<open>parseTree\<close> returns a tree then in every node the property range
  is ordered and ends inside the file, so that \<^verbatim>\<open>getProps\<close> never reads outside it.
\<close>

theorem parseTree_in_bounds:
  assumes "parseTree file = Some n"
  shows "node_ok (length file) n"
proof -
  obtain s t bs where f: "drop 4 file = s # t # bs" "parse_loop 6 bs [Node t 6 0 []] None = Some n"
    using assms by (auto simp: parseTree_def split: list.splits if_splits)
  then have "length (drop 4 file) = length bs + 2" by simp
  then have "length file = 6 + length bs" by simp
  with parse_loop_ok [OF f(2)] show ?thesis by (simp add: stack_ok_def open_ok_def)
qed

theorem parseTree_in_bounds_witness:
  "\<exists>n. parseTree [0, 0, 0, 0, 0xFE, 1, 0xFF, 9] = Some n \<and> node_ok 8 n"
  using parseTree_in_bounds [of "[0, 0, 0, 0, 0xFE, 1, 0xFF, 9]"]
  by (simp add: parseTree_def marks close_props_def)

text \<open>
  Attributes survive the property streams: any sequence of 8-, 16-, 32- and 64-bit integers and
  strings of at most 65535 bytes written to a \<^verbatim>\<open>PropWriteStream\<close> is read back, in order and without
  a failed read, by the matching reads of a \<^verbatim>\<open>PropStream\<close> over its bytes, which then stands exactly
  at what follows. A longer string is written, and read back, as the empty one.
\<close>

theorem prop_stream_roundtrip:
  assumes "\<forall>v \<in> set vs. item_ok v" and "length big > 65535"
  shows "read_items (map kind_of vs) (fold write_item vs [] @ rest) = (Some vs, rest)
     \<and> readString (writeString big [] @ rest) = (Some [], rest)"
proof -
  have "writeString big [] = str_enc []"
    using assms(2) by (simp add: writeString_def prop_write_def str_enc_def)
  then show ?thesis
    using read_items_enc [OF assms(1), of rest] sstr.fetch_enc [of "[]" rest]
    by (simp add: write_items_enc [OF assms(1)])
qed

theorem prop_stream_roundtrip_witness:
  "read_items [K16, KStr] (fold write_item [I16 513, IStr [104, 105]] [] @ [9]) = (Some [I16 513, IStr [104, 105]], [9])"
  using prop_stream_roundtrip [of "[I16 513, IStr [104, 105]]" "replicate 65536 0" "[9]"] by simp

end
