(* ===== verification/Scheduling.thy ===== *)
theory Scheduling
  imports Prelude
begin

text \<open>
  \<^verbatim>\<open>game/scheduling/scheduler.cpp\<close>, \<^verbatim>\<open>tasks.cpp\<close> and their headers: delayed events and the task queue
  of the dispatcher thread. The critical sections of the two threads and of their callers are the
  atomic steps of a transition system, so that every interleaving the mutexes allow is covered. The
  scheduler thread releases its lock while it waits, which is where other steps happen. The
  priority queue may return any task with the smallest time, so popping is a relation. Times are
  milliseconds of the system clock, 0 standing for \<^verbatim>\<open>SYSTEM_TIME_ZERO\<close>.
\<close>

section \<open>State\<close>

datatype ThreadState = THREAD_STATE_RUNNING | THREAD_STATE_CLOSING | THREAD_STATE_TERMINATED

record task =
  expiration :: int
  eventId :: u32
  task_func :: nat

definition createTask :: "nat \<Rightarrow> task" where
  "createTask f = \<lparr>expiration = 0, eventId = 0, task_func = f\<rparr>"

definition createTask_expiring :: "int \<Rightarrow> u32 \<Rightarrow> nat \<Rightarrow> task" where
  "createTask_expiring now ms f = \<lparr>expiration = now + uint ms, eventId = 0, task_func = f\<rparr>"

definition createSchedulerTask :: "int \<Rightarrow> u32 \<Rightarrow> nat \<Rightarrow> task" where
  "createSchedulerTask now delay f = createTask_expiring now delay f"

definition setDontExpire :: "task \<Rightarrow> task" where
  "setDontExpire t = t\<lparr>expiration := 0\<rparr>"

definition hasExpired :: "int \<Rightarrow> task \<Rightarrow> bool" where
  "hasExpired now t = (if expiration t = 0 then False else expiration t < now)"

text \<open>
  Where the scheduler thread is: about to take the lock, or waiting with the lock released, for a
  signal or until a time.
\<close>

datatype sched_pc = Running | WaitSignal | WaitUntil int

record world =
  clock :: int
  scheduler_state :: ThreadState
  pc :: sched_pc
  lastEventId :: u32
  eventList :: "task list"
  eventIds :: "u32 set"
  dispatcher_state :: ThreadState
  taskList :: "task list"
  dispatcherCycle :: u64
  fired :: "(int \<times> task) list"
  executed :: "(int \<times> task) list"

definition start_world :: "int \<Rightarrow> world" where
  "start_world now = \<lparr>clock = now, scheduler_state = THREAD_STATE_RUNNING, pc = Running,
     lastEventId = 0, eventList = [], eventIds = {}, dispatcher_state = THREAD_STATE_RUNNING,
     taskList = [], dispatcherCycle = 0, fired = [], executed = []\<rparr>"

section \<open>The dispatcher\<close>

definition addTask :: "task \<Rightarrow> bool \<Rightarrow> world \<Rightarrow> world" where
  "addTask t push_front w =
     (if dispatcher_state w = THREAD_STATE_RUNNING
      then w\<lparr>taskList := (if push_front then t # taskList w else taskList w @ [t])\<rparr>
      else w)"

text \<open>One pass of the dispatcher loop with a task waiting; what the task does are later steps.\<close>

definition dispatch :: "world \<Rightarrow> world option" where
  "dispatch w =
     (case taskList w of
        [] \<Rightarrow> None
      | t # ts \<Rightarrow>
          Some (if \<not> hasExpired (clock w) t
                then w\<lparr>taskList := ts, dispatcherCycle := dispatcherCycle w + 1,
                       executed := executed w @ [(clock w, t)]\<rparr>
                else w\<lparr>taskList := ts\<rparr>))"

definition dispatcher_shutdown :: "task \<Rightarrow> world \<Rightarrow> world" where
  "dispatcher_shutdown t w = w\<lparr>taskList := taskList w @ [t]\<rparr>"

section \<open>The scheduler\<close>

definition next_id :: "u32 \<Rightarrow> u32" where
  "next_id i = (if i + 1 = 0 then 1 else i + 1)"

definition addEvent :: "task \<Rightarrow> world \<Rightarrow> u32 \<times> world" where
  "addEvent t w =
     (if scheduler_state w = THREAD_STATE_RUNNING then
        (let fresh = (eventId t = 0);
             w1 = (if fresh then w\<lparr>lastEventId := next_id (lastEventId w)\<rparr> else w);
             t1 = (if fresh then t\<lparr>eventId := lastEventId w1\<rparr> else t)
         in (eventId t1, w1\<lparr>eventIds := insert (eventId t1) (eventIds w1), eventList := t1 # eventList w1\<rparr>))
      else (0, w))"

definition stopEvent :: "u32 \<Rightarrow> world \<Rightarrow> bool \<times> world" where
  "stopEvent eid w =
     (if eid = 0 then (False, w)
      else if eid \<notin> eventIds w then (False, w)
      else (True, w\<lparr>eventIds := eventIds w - {eid}\<rparr>))"

definition scheduler_shutdown :: "world \<Rightarrow> world" where
  "scheduler_shutdown w = w\<lparr>scheduler_state := THREAD_STATE_TERMINATED, eventList := [], eventIds := {}\<rparr>"

definition is_top :: "task \<Rightarrow> task list \<Rightarrow> bool" where
  "is_top t ts \<longleftrightarrow> t \<in> set ts \<and> (\<forall>u \<in> set ts. expiration t \<le> expiration u)"

text \<open>The loop before the wait, and after a timeout with the task it pops.\<close>

definition begin_wait :: "task option \<Rightarrow> world \<Rightarrow> world" where
  "begin_wait first w = w\<lparr>pc := (case first of None \<Rightarrow> WaitSignal | Some t \<Rightarrow> WaitUntil (expiration t))\<rparr>"

definition fire :: "task \<Rightarrow> world \<Rightarrow> world" where
  "fire t w =
     (let w1 = w\<lparr>eventList := remove1 t (eventList w), pc := Running\<rparr> in
      if eventId t \<notin> eventIds w1 then w1
      else addTask (setDontExpire t) True
             (w1\<lparr>eventIds := eventIds w1 - {eventId t}, fired := fired w1 @ [(clock w1, t)]\<rparr>))"

section \<open>Steps\<close>

datatype label =
    Tick int
  | AddEvent task
  | StopEvent u32
  | BeginWait
  | Timeout task
  | Wake
  | SchedulerShutdown
  | SchedulerStop
  | AddTask task bool
  | Dispatch
  | DispatcherShutdown task
  | DispatcherState ThreadState

inductive step :: "world \<Rightarrow> label \<Rightarrow> world \<Rightarrow> bool" where
  tick: "clock w \<le> n \<Longrightarrow> step w (Tick n) (w\<lparr>clock := n\<rparr>)"
| add_event: "step w (AddEvent t) (snd (addEvent t w))"
| stop_event: "step w (StopEvent eid) (snd (stopEvent eid w))"
| wait_empty: "pc w = Running \<Longrightarrow> scheduler_state w \<noteq> THREAD_STATE_TERMINATED \<Longrightarrow> eventList w = [] \<Longrightarrow>
    step w BeginWait (begin_wait None w)"
| wait_until: "pc w = Running \<Longrightarrow> scheduler_state w \<noteq> THREAD_STATE_TERMINATED \<Longrightarrow> is_top t (eventList w) \<Longrightarrow>
    step w BeginWait (begin_wait (Some t) w)"
| timeout: "pc w = WaitUntil due \<Longrightarrow> due \<le> clock w \<Longrightarrow> is_top t (eventList w) \<Longrightarrow>
    step w (Timeout t) (fire t w)"
| wake: "pc w \<noteq> Running \<Longrightarrow> step w Wake (w\<lparr>pc := Running\<rparr>)"
| sched_shutdown: "step w SchedulerShutdown (scheduler_shutdown w)"
| sched_stop: "step w SchedulerStop (w\<lparr>scheduler_state := THREAD_STATE_CLOSING\<rparr>)"
| add_task: "step w (AddTask t f) (addTask t f w)"
| dispatched: "dispatch w = Some w' \<Longrightarrow> step w Dispatch w'"
| disp_shutdown: "step w (DispatcherShutdown t) (dispatcher_shutdown t w)"
| disp_state: "step w (DispatcherState s) (w\<lparr>dispatcher_state := s\<rparr>)"

inductive steps :: "world \<Rightarrow> label list \<Rightarrow> world \<Rightarrow> bool" where
  none: "steps w [] w"
| more: "steps w ls w' \<Longrightarrow> step w' l w'' \<Longrightarrow> steps w (ls @ [l]) w''"

inductive_cases stepE: "step w l w'"

section \<open>The invariant\<close>

definition world_ok :: "world \<Rightarrow> bool" where
  "world_ok w \<longleftrightarrow>
     eventIds w \<subseteq> eventId ` set (eventList w)
     \<and> (\<forall>t \<in> set (eventList w). eventId t \<noteq> 0)
     \<and> (\<forall>due. pc w = WaitUntil due \<longrightarrow>
          (eventList w = [] \<and> scheduler_state w \<noteq> THREAD_STATE_RUNNING) \<or> (\<exists>t \<in> set (eventList w). expiration t \<le> due))
     \<and> (\<forall>(d, t) \<in> set (fired w). expiration t \<le> d \<and> d \<le> clock w)
     \<and> (\<forall>(d, t) \<in> set (executed w). \<not> hasExpired d t)"

lemma next_id_nonzero: "next_id i \<noteq> 0"
  by (simp add: next_id_def)

lemma addTask_frame [simp]:
  "eventIds (addTask t f w) = eventIds w" "eventList (addTask t f w) = eventList w"
  "pc (addTask t f w) = pc w" "fired (addTask t f w) = fired w" "executed (addTask t f w) = executed w"
  "clock (addTask t f w) = clock w"
  by (simp_all add: addTask_def)

lemma addTask_scheduler [simp]: "scheduler_state (addTask t f w) = scheduler_state w"
  by (simp add: addTask_def)

lemma world_ok_start: "world_ok (start_world now)"
  by (simp add: world_ok_def start_world_def)

lemma addEvent_frame:
  "snd (addEvent t w) = w \<or> scheduler_state w = THREAD_STATE_RUNNING \<and> (\<exists>t' l. expiration t' = expiration t \<and> eventId t' \<noteq> 0
     \<and> snd (addEvent t w) = w\<lparr>lastEventId := l, eventIds := insert (eventId t') (eventIds w), eventList := t' # eventList w\<rparr>)"
proof (cases "eventId t = 0")
  case True
  let ?t = "t\<lparr>eventId := next_id (lastEventId w)\<rparr>"
  have "expiration ?t = expiration t" "eventId ?t \<noteq> 0" by (simp_all add: next_id_nonzero)
  with True show ?thesis
    by (auto simp: addEvent_def Let_def intro!: exI [of _ ?t] exI [of _ "next_id (lastEventId w)"])
next
  case False
  then show ?thesis by (auto simp: addEvent_def Let_def intro!: exI [of _ t] exI [of _ "lastEventId w"])
qed

lemma addEvent_ok: "world_ok w \<Longrightarrow> world_ok (snd (addEvent t w))"
  using addEvent_frame [of t w] by (auto simp: world_ok_def)

text \<open>A popped task is due: the one waited for is still in the queue, or an earlier one is.\<close>

lemma popped_is_due:
  assumes "world_ok w" "pc w = WaitUntil due" "due \<le> clock w" "is_top t (eventList w)"
  shows "expiration t \<le> clock w"
proof -
  have "eventList w \<noteq> []" using assms(4) by (auto simp: is_top_def)
  with assms(1,2) obtain u where "u \<in> set (eventList w)" "expiration u \<le> due"
    by (auto simp: world_ok_def)
  with assms(3,4) show ?thesis by (auto simp: is_top_def)
qed

lemma fire_ok:
  assumes "world_ok w" "pc w = WaitUntil due" "due \<le> clock w" "is_top t (eventList w)"
  shows "world_ok (fire t w)"
proof -
  have sub: "set (remove1 t (eventList w)) \<subseteq> set (eventList w)" by (rule set_remove1_subset)
  have ids: "eventIds w - {eventId t} \<subseteq> eventId ` set (remove1 t (eventList w))"
  proof
    fix i
    assume i: "i \<in> eventIds w - {eventId t}"
    then obtain u where "u \<in> set (eventList w)" "i = eventId u" using assms(1) by (auto simp: world_ok_def)
    with i have "u \<in> set (remove1 t (eventList w))" by (metis DiffE in_set_remove1 insertI1)
    with \<open>i = eventId u\<close> show "i \<in> eventId ` set (remove1 t (eventList w))" by blast
  qed
  show ?thesis
  proof (cases "eventId t \<in> eventIds w")
    case True
    with assms(1) sub ids popped_is_due [OF assms] show ?thesis
      by (auto simp: world_ok_def fire_def Let_def)
  next
    case False
    then have "eventIds w \<subseteq> eventId ` set (remove1 t (eventList w))" using ids by auto
    with False assms(1) sub show ?thesis by (auto simp: world_ok_def fire_def Let_def)
  qed
qed

lemma step_ok: "step w l w' \<Longrightarrow> world_ok w \<Longrightarrow> world_ok w'"
proof (induction rule: step.induct)
  case (tick w n)
  then show ?case by (fastforce simp: world_ok_def)
next
  case (wait_until w t)
  then show ?case by (auto simp: world_ok_def begin_wait_def is_top_def)
next
  case (dispatched w w')
  then show ?case by (auto simp: dispatch_def world_ok_def split: list.splits if_splits)
qed (auto simp: addEvent_ok fire_ok, auto simp: world_ok_def stopEvent_def begin_wait_def
    scheduler_shutdown_def dispatcher_shutdown_def)

lemma steps_ok: "steps w ls w' \<Longrightarrow> world_ok w \<Longrightarrow> world_ok w'"
  by (induction rule: steps.induct) (auto intro: step_ok)

section \<open>Properties\<close>

text \<open>
  C29. No delayed event runs early, and none runs without being due, in any interleaving: whatever
  events are added, stopped or waited for while the scheduler thread sleeps, every event it has
  handed to the dispatcher had reached its time by then (the queue may have a different first task
  when the wait ends than when it began), and the dispatcher never executed a task that had
  expired.
\<close>

theorem events_never_early:
  assumes "steps (start_world now) ls w"
  shows "(\<forall>(d, t) \<in> set (fired w). expiration t \<le> d \<and> d \<le> clock w)
       \<and> (\<forall>(d, t) \<in> set (executed w). \<not> hasExpired d t)"
  using steps_ok [OF assms world_ok_start] by (simp add: world_ok_def)

text \<open>The id with which a step enters an event.\<close>

fun enters :: "world \<Rightarrow> label \<Rightarrow> u32 option" where
  "enters w (AddEvent t) = Some (fst (addEvent t w))"
| "enters w l = None"

lemma addEvent_ids:
  "eventIds (snd (addEvent t w)) \<subseteq> insert (fst (addEvent t w)) (eventIds w)"
  by (auto simp: addEvent_def Let_def)

lemma fire_stopped:
  "eid \<notin> eventIds w \<Longrightarrow> eid \<notin> eventIds (fire t w)
     \<and> {x \<in> set (fired (fire t w)). eventId (snd x) = eid} = {x \<in> set (fired w). eventId (snd x) = eid}"
  by (auto simp: fire_def Let_def)

lemma step_keeps_stopped:
  assumes "step w l w'" and "eid \<notin> eventIds w" and "enters w l \<noteq> Some eid"
  shows "eid \<notin> eventIds w'
     \<and> {x \<in> set (fired w'). eventId (snd x) = eid} = {x \<in> set (fired w). eventId (snd x) = eid}"
  using assms
proof (induction rule: step.induct)
  case (add_event w t)
  then have "eid \<notin> eventIds (snd (addEvent t w))" using addEvent_ids [of t w] by auto
  moreover have "fired (snd (addEvent t w)) = fired w" by (simp add: addEvent_def Let_def)
  ultimately show ?case by simp
next
  case (timeout w due t)
  then show ?case using fire_stopped by blast
next
  case (dispatched w w')
  then show ?case by (auto simp: dispatch_def split: list.splits if_splits)
qed (auto simp: stopEvent_def begin_wait_def scheduler_shutdown_def dispatcher_shutdown_def)

text \<open>Runs along which no step enters an event with the given id.\<close>

inductive runs_without :: "u32 \<Rightarrow> world \<Rightarrow> world \<Rightarrow> bool" for eid where
  stay: "runs_without eid w w"
| go: "runs_without eid w w' \<Longrightarrow> step w' l w'' \<Longrightarrow> enters w' l \<noteq> Some eid \<Longrightarrow> runs_without eid w w''"

lemma runs_without_stopped:
  "runs_without eid w w' \<Longrightarrow> eid \<notin> eventIds w \<Longrightarrow>
     eid \<notin> eventIds w' \<and> {x \<in> set (fired w'). eventId (snd x) = eid} = {x \<in> set (fired w). eventId (snd x) = eid}"
proof (induction rule: runs_without.induct)
  case (go w w' l w'')
  then show ?case using step_keeps_stopped [OF go.hyps(2)] by simp
qed simp

text \<open>
  C30. A stopped event never runs. Once \<^verbatim>\<open>stopEvent\<close> has returned true for an id, no later step of
  any thread hands an event with that id to the dispatcher, as long as the id is not given to a new
  event.
\<close>

theorem stopped_event_never_fires:
  assumes "stopEvent eid w = (True, w')" and "runs_without eid w' w''"
  shows "{x \<in> set (fired w''). eventId (snd x) = eid} = {x \<in> set (fired w). eventId (snd x) = eid}"
proof -
  have "eid \<notin> eventIds w'" "fired w' = fired w" using assms(1) by (auto simp: stopEvent_def split: if_splits)
  with runs_without_stopped [OF assms(2)] show ?thesis by simp
qed

definition one_event :: world where
  "one_event = snd (addEvent (createSchedulerTask 0 50 7) (start_world 0))"

theorem stopped_event_never_fires_witness:
  "fst (stopEvent 1 one_event)
   \<and> {x \<in> set (fired (snd (stopEvent 1 one_event))). eventId (snd x) = 1} = {x \<in> set (fired one_event). eventId (snd x) = 1}"
proof -
  have "stopEvent 1 one_event = (True, snd (stopEvent 1 one_event))"
    by (simp add: one_event_def stopEvent_def addEvent_def start_world_def createSchedulerTask_def
        createTask_expiring_def next_id_def Let_def)
  from stopped_event_never_fires [OF this runs_without.stay] show ?thesis
    by (simp add: one_event_def stopEvent_def addEvent_def start_world_def createSchedulerTask_def
        createTask_expiring_def next_id_def Let_def)
qed

theorem events_never_early_witness:
  "\<exists>w. steps (start_world 0) [AddEvent (createSchedulerTask 0 50 7), BeginWait, Tick 60,
       Timeout ((createSchedulerTask 0 50 7)\<lparr>eventId := 1\<rparr>)] w
     \<and> fired w = [(60, (createSchedulerTask 0 50 7)\<lparr>eventId := 1\<rparr>)]
     \<and> (\<forall>(d, t) \<in> set (fired w). expiration t \<le> d)"
proof -
  let ?t = "(createSchedulerTask 0 50 7)\<lparr>eventId := 1\<rparr>"
  let ?w2 = "begin_wait (Some ?t) one_event"
  let ?w3 = "?w2\<lparr>clock := 60\<rparr>"
  note d = one_event_def addEvent_def start_world_def createSchedulerTask_def createTask_expiring_def
    next_id_def Let_def
  have "steps (start_world 0) [AddEvent (createSchedulerTask 0 50 7)] one_event"
    using steps.more [OF steps.none step.add_event] by (simp add: one_event_def)
  moreover have "step one_event BeginWait ?w2"
    by (rule step.wait_until) (simp_all add: d is_top_def)
  moreover have "step ?w2 (Tick 60) ?w3" by (rule step.tick) (simp add: d begin_wait_def)
  moreover have "step ?w3 (Timeout ?t) (fire ?t ?w3)"
    by (rule step.timeout [of _ 50]) (simp_all add: d begin_wait_def is_top_def)
  ultimately have run: "steps (start_world 0) [AddEvent (createSchedulerTask 0 50 7), BeginWait, Tick 60, Timeout ?t] (fire ?t ?w3)"
    using steps.more [OF steps.more [OF steps.more]] by fastforce
  moreover from events_never_early [OF this] have "\<forall>(d, t) \<in> set (fired (fire ?t ?w3)). expiration t \<le> d" by auto
  moreover have "fired (fire ?t ?w3) = [(60, ?t)]" by (simp add: fire_def d begin_wait_def)
  ultimately show ?thesis by blast
qed

section \<open>The dispatcher's order\<close>

text \<open>Tasks handed over at the back, and those taken from the front, executed or expired.\<close>

fun queue_run :: "label list \<Rightarrow> world \<Rightarrow> (task list \<times> task list \<times> world) option" where
  "queue_run [] w = Some ([], [], w)"
| "queue_run (AddTask t f # ls) w =
     (if f then None
      else case queue_run ls (addTask t f w) of None \<Rightarrow> None
        | Some (added, taken, w') \<Rightarrow>
            Some (if dispatcher_state w = THREAD_STATE_RUNNING then (t # added, taken, w') else (added, taken, w')))"
| "queue_run (Tick n # ls) w = queue_run ls (w\<lparr>clock := n\<rparr>)"
| "queue_run (Dispatch # ls) w =
     (case taskList w of [] \<Rightarrow> None
      | t # ts \<Rightarrow>
          (case dispatch w of None \<Rightarrow> None
           | Some w1 \<Rightarrow>
               (case queue_run ls w1 of None \<Rightarrow> None
                | Some (added, taken, w') \<Rightarrow> Some (added, t # taken, w'))))"
| "queue_run (l # ls) w = None"



end
