(* ===== verification/Floats.thy ===== *)
theory Floats
  imports Prelude
begin

text \<open>
  The few floating point computations of the modelled code: quotients and products of small
  natural numbers in \<^verbatim>\<open>float\<close> (24 significant bits) and \<^verbatim>\<open>double\<close> (53 significant bits), rounded to
  nearest with ties to even, followed by \<^verbatim>\<open>std::ceil\<close>. A non-negative value is a pair of numerator and
  denominator. Exponents are not bounded: every value here is 0 or between \<open>2 ^ -32\<close> and \<open>2 ^ 40\<close>, far
  from overflow and from subnormal numbers in either format.
\<close>

section \<open>Rounding\<close>

type_synonym ratio = "nat \<times> nat"

definition round_even :: "nat \<Rightarrow> nat \<Rightarrow> nat" where
  "round_even a b =
     (let q = a div b; r = a mod b
      in if 2 * r < b \<or> 2 * r = b \<and> even q then q else q + 1)"

text \<open>How often the numerator or the denominator is doubled until the quotient is in \<open>[P, 2 P)\<close>.\<close>

function scale_up :: "nat \<Rightarrow> nat \<Rightarrow> nat \<Rightarrow> nat" where
  "scale_up P a b = (if a = 0 \<or> P * b \<le> a then 0 else Suc (scale_up P (2 * a) b))"
  by pat_completeness auto
termination by (relation "measure (\<lambda>(P, a, b). P * b - a)") auto

function scale_down :: "nat \<Rightarrow> nat \<Rightarrow> nat \<Rightarrow> nat" where
  "scale_down P a b =
     (if P = 0 \<or> b = 0 \<or> a < 2 * P * b then 0 else Suc (scale_down P a (2 * b)))"
  by pat_completeness auto
termination
proof (relation "measure (\<lambda>(P, a, b). a - b)")
  fix P a b :: nat
  assume "\<not> (P = 0 \<or> b = 0 \<or> a < 2 * P * b)"
  then have "0 < b" "b \<le> P * b" "2 * (P * b) \<le> a" by auto
  then have "a - 2 * b < a - b" by linarith
  then show "((P, a, 2 * b), P, a, b) \<in> measure (\<lambda>(P, a, b). a - b)" by simp
qed simp

declare scale_up.simps [simp del] scale_down.simps [simp del]

definition fl :: "nat \<Rightarrow> ratio \<Rightarrow> ratio" where
  "fl p x =
     (let (a, b) = x; P = 2 ^ (p - 1); s = scale_up P a b; t = scale_down P a b
      in (round_even (a * 2 ^ s) (b * 2 ^ t) * 2 ^ t, 2 ^ s))"

definition fl_of_nat :: "nat \<Rightarrow> nat \<Rightarrow> ratio" where
  "fl_of_nat p n = fl p (n, 1)"

definition fl_mult :: "nat \<Rightarrow> ratio \<Rightarrow> nat \<Rightarrow> ratio" where
  "fl_mult p x k = fl p (fst x * k, snd x)"

definition fl_div :: "nat \<Rightarrow> ratio \<Rightarrow> nat \<Rightarrow> ratio" where
  "fl_div p x k = fl p (fst x, snd x * k)"

definition fl_ceil :: "ratio \<Rightarrow> nat" where
  "fl_ceil x = (fst x + snd x - 1) div snd x"

section \<open>Lemmas\<close>

lemma round_even_exact [simp]: "0 < b \<Longrightarrow> round_even (n * b) b = n"
  by (simp add: round_even_def)

lemma round_even_le: "0 < b \<Longrightarrow> a \<le> n * b \<Longrightarrow> round_even a b \<le> n"
proof -
  assume b: "0 < b" and le: "a \<le> n * b"
  have a: "a = a div b * b + a mod b" by simp
  have r: "a mod b < b" using b by simp
  have q: "a div b \<le> n" using le b by (metis div_le_mono nonzero_mult_div_cancel_right less_numeral_extra(3))
  show ?thesis
  proof (cases "a div b = n")
    case True
    with a le have "a mod b = 0" by (metis add_le_same_cancel1 le_zero_eq)
    with True b show ?thesis by (simp add: round_even_def)
  next
    case False
    with q show ?thesis by (simp add: round_even_def Let_def)
  qed
qed

lemma round_even_ge: "0 < b \<Longrightarrow> n * b \<le> a \<Longrightarrow> n \<le> round_even a b"
proof -
  assume "0 < b" "n * b \<le> a"
  then have "n \<le> a div b" by (simp add: less_eq_div_iff_mult_less_eq)
  then show ?thesis by (simp add: round_even_def Let_def)
qed

lemma round_even_scale: "0 < k \<Longrightarrow> round_even (a * k) (b * k) = round_even a b"
proof -
  assume k: "0 < k"
  have "2 * (a mod b * k) < b * k \<longleftrightarrow> 2 * (a mod b) < b"
    using k by (metis mult.assoc mult_less_cancel2)
  moreover have "2 * (a mod b * k) = b * k \<longleftrightarrow> 2 * (a mod b) = b"
    using k by (metis mult.assoc mult_cancel2 less_numeral_extra(3))
  ultimately show ?thesis using k by (simp add: round_even_def Let_def mult_mod_left [symmetric])
qed

lemma scale_down_small: "a < 2 * P * b \<Longrightarrow> scale_down P a b = 0"
  by (subst scale_down.simps) simp

lemma scale_up_big: "0 < a \<Longrightarrow> P * b \<le> a * 2 ^ scale_up P a b"
proof (induction P a b rule: scale_up.induct)
  case (1 P a b)
  show ?case
  proof (cases "P * b \<le> a")
    case True
    then show ?thesis by (subst scale_up.simps) simp
  next
    case False
    with 1 show ?thesis by (subst scale_up.simps) (simp add: ac_simps)
  qed
qed

lemma scale_up_pos: "0 < a \<Longrightarrow> a < P * b \<Longrightarrow> 0 < scale_up P a b"
  by (subst scale_up.simps) simp

text \<open>A value below \<open>2 ^ p\<close>: only the numerator is scaled.\<close>

lemma fl_small:
  "a < 2 * 2 ^ (p - 1) * b \<Longrightarrow>
   fl p (a, b) = (round_even (a * 2 ^ scale_up (2 ^ (p - 1)) a b) b, 2 ^ scale_up (2 ^ (p - 1)) a b)"
  by (simp add: fl_def Let_def scale_down_small)

text \<open>Natural numbers below \<open>2 ^ p\<close> are represented exactly.\<close>

lemma fl_nat:
  assumes "n < 2 * 2 ^ (p - 1)"
  obtains s where "fl p (n * 2 ^ k, 2 ^ k) = (n * 2 ^ s, 2 ^ s)"
proof -
  define s where "s = scale_up (2 ^ (p - 1)) (n * 2 ^ k) (2 ^ k)"
  have "n * 2 ^ k < 2 * 2 ^ (p - 1) * 2 ^ k" using assms by simp
  then have "fl p (n * 2 ^ k, 2 ^ k) = (round_even (n * 2 ^ k * 2 ^ s) (2 ^ k), 2 ^ s)"
    unfolding s_def by (rule fl_small)
  also have "n * 2 ^ k * 2 ^ s = n * 2 ^ s * 2 ^ k" by (simp add: ac_simps)
  finally show ?thesis using that by simp
qed

lemma fl_of_nat_exact:
  assumes "n < 2 * 2 ^ (p - 1)"
  obtains s where "fl_of_nat p n = (n * 2 ^ s, 2 ^ s)"
  using fl_nat [OF assms, of 0] by (auto simp: fl_of_nat_def)

text \<open>A rounded value does not pass a natural number below \<open>2 ^ p\<close>, and stays positive.\<close>

lemma fl_between:
  assumes b: "0 < b" and le: "a \<le> n * b" and n: "n < 2 * 2 ^ (p - 1)"
  obtains c d where "fl p (a, b) = (c, d)" "0 < d" "c \<le> n * d" "0 < a \<Longrightarrow> 0 < c"
proof -
  define s where "s = scale_up (2 ^ (p - 1)) a b"
  have "n * b < 2 * 2 ^ (p - 1) * b" using n b by simp
  with le have small: "a < 2 * 2 ^ (p - 1) * b" by (rule le_less_trans)
  have fl: "fl p (a, b) = (round_even (a * 2 ^ s) b, 2 ^ s)"
    unfolding s_def by (rule fl_small [OF small])
  have "a * 2 ^ s \<le> n * 2 ^ s * b" using le by (simp add: ac_simps)
  then have up: "round_even (a * 2 ^ s) b \<le> n * 2 ^ s" using b by (rule round_even_le [rotated])
  have "0 < round_even (a * 2 ^ s) b" if "0 < a"
  proof -
    have "1 * b \<le> 2 ^ (p - 1) * b" by simp
    also have "\<dots> \<le> a * 2 ^ s" unfolding s_def by (rule scale_up_big [OF that])
    finally have "1 \<le> round_even (a * 2 ^ s) b" by (rule round_even_ge [OF b])
    then show ?thesis by simp
  qed
  then show ?thesis using fl up by (intro that [of "round_even (a * 2 ^ s) b" "2 ^ s"]) simp_all
qed

lemma fl_ceil_le: "0 < d \<Longrightarrow> c \<le> n * d \<Longrightarrow> fl_ceil (c, d) \<le> n"
proof -
  assume "0 < d" "c \<le> n * d"
  then have "c + d - 1 < Suc n * d" by simp
  then have "(c + d - 1) div d < Suc n" by (rule less_mult_imp_div_less)
  then show ?thesis by (simp add: fl_ceil_def)
qed

lemma fl_ceil_pos: "0 < d \<Longrightarrow> 0 < c \<Longrightarrow> 0 < fl_ceil (c, d)"
  by (simp add: fl_ceil_def div_greater_zero_iff)

lemma fl_ceil_ge: "0 < d \<Longrightarrow> n * d < c \<Longrightarrow> n < fl_ceil (c, d)"
proof -
  assume d: "0 < d" and "n * d < c"
  then have "Suc n * d \<le> c + d - 1" by simp
  then have "Suc n \<le> (c + d - 1) div d" using d by (simp only: less_eq_div_iff_mult_less_eq)
  then show ?thesis by (simp add: fl_ceil_def)
qed

lemma round_even_third: "3 * j + 2 \<le> x \<Longrightarrow> j < round_even x 3"
proof -
  assume le: "3 * j + 2 \<le> x"
  show ?thesis
  proof (cases "x = 3 * j + 2")
    case True
    then have "x div 3 = j" "x mod 3 = 2" by presburger+
    then show ?thesis by (simp add: round_even_def)
  next
    case False
    with le have "Suc j * 3 \<le> x" by simp
    then show ?thesis using round_even_ge [of 3 "Suc j" x] by simp
  qed
qed

text \<open>Dividing a natural number by three and rounding up, in a format with enough digits.\<close>

lemma fl_ceil_third:
  assumes n: "n < 3 * 2 ^ (p - 1)"
  shows "fl_ceil (fl p (n * 2 ^ t, 2 ^ t * 3)) = (n + 2) div 3"
proof -
  define u where "u = scale_up (2 ^ (p - 1)) (n * 2 ^ t) (2 ^ t * 3)"
  define k where "k = (n + 2) div 3"
  have "n * 2 ^ t < 2 * 2 ^ (p - 1) * (2 ^ t * 3)" using n by simp
  then have "fl p (n * 2 ^ t, 2 ^ t * 3) = (round_even (n * 2 ^ t * 2 ^ u) (2 ^ t * 3), 2 ^ u)"
    unfolding u_def by (rule fl_small)
  also have "round_even (n * 2 ^ t * 2 ^ u) (2 ^ t * 3) = round_even (n * 2 ^ u) 3"
    using round_even_scale [of "2 ^ t" "n * 2 ^ u" 3] by (simp add: ac_simps)
  finally have fl: "fl p (n * 2 ^ t, 2 ^ t * 3) = (round_even (n * 2 ^ u) 3, 2 ^ u)" .
  have "n \<le> 3 * k" by (simp add: k_def)
  then have "n * 2 ^ u \<le> k * 2 ^ u * 3" by (simp add: ac_simps)
  then have "round_even (n * 2 ^ u) 3 \<le> k * 2 ^ u" by (intro round_even_le) simp_all
  then have up: "fl_ceil (round_even (n * 2 ^ u) 3, 2 ^ u) \<le> k" by (intro fl_ceil_le) simp_all
  have low: "k - 1 < fl_ceil (round_even (n * 2 ^ u) 3, 2 ^ u)" if "0 < n"
  proof -
    have "n * 2 ^ t < 2 ^ (p - 1) * (2 ^ t * 3)" using n by (simp add: ac_simps)
    then have "0 < u" unfolding u_def using that by (intro scale_up_pos) simp_all
    then have u: "2 \<le> (2::nat) ^ u" by (cases u) simp_all
    have "3 * (k - 1) + 1 \<le> n" using that by (simp add: k_def)
    then have "(3 * (k - 1) + 1) * 2 ^ u \<le> n * 2 ^ u" by (rule mult_le_mono1)
    then have "3 * ((k - 1) * 2 ^ u) + 2 \<le> n * 2 ^ u" using u by (simp add: algebra_simps)
    from fl_ceil_ge [OF _ round_even_third [OF this]] show ?thesis by simp
  qed
  show ?thesis
  proof (cases "n = 0")
    case True
    then show ?thesis using up unfolding fl k_def by simp
  next
    case False
    then show ?thesis using up low unfolding fl k_def by simp
  qed
qed

lemma fl_0: "fl p (0, b) = (0, 1)"
proof -
  have "scale_up P 0 b = 0" for P by (subst scale_up.simps) simp
  then show ?thesis by (cases b) (simp_all add: fl_def Let_def round_even_def)
qed

lemma fl_zero: "fl_ceil (fl_mult p (fl_div p (fl_of_nat p 0) m) k) = 0"
  by (simp add: fl_of_nat_def fl_div_def fl_mult_def fl_0 fl_ceil_def)

end
