(* ===== verification/Party.thy ===== *)
theory Party
  imports Floats Geometry "HOL-Library.Monad_Syntax"
begin

text \<open>
  \<^verbatim>\<open>creatures/players/grouping/party.cpp\<close> with the player side of it (\<^verbatim>\<open>player.cpp\<close>) and the request
  handlers of \<^verbatim>\<open>game.cpp\<close>: invitations, joining, leaving, leadership and shared experience. Players and
  parties live in two stores; a \<^verbatim>\<open>Player*\<close> is the creature id of a player, a \<^verbatim>\<open>Party*\<close> the address of
  the party. Following a pointer to an object that is not in its store gives \<^term>\<open>None\<close>: undefined
  behaviour. Messages to clients are appended to a log. The Lua event handlers decide from the state
  and are parameters, as are the configuration values.
\<close>

section \<open>State\<close>

type_synonym player_id = u32
type_synonym party_id = nat

record Summon =
  summon_id :: u32
  summon_health :: nat
  summon_max_health :: nat

record Player =
  pl_name :: string
  pl_female :: bool
  pl_level :: u32
  pl_position :: Position
  pl_not_gain_in_fight :: bool
  pl_infight :: bool
  pl_on_tile :: bool
  pl_in_protection_zone :: bool
  pl_health :: nat
  pl_max_health :: nat
  pl_mana :: nat
  pl_max_mana :: nat
  pl_summons :: "Summon list"
  party :: "party_id option"
  invitePartyList :: "party_id list"

record Party =
  ticksMap :: "player_id \<Rightarrow> int option"
  memberList :: "player_id list"
  inviteList :: "player_id list"
  leader :: player_id
  sharedExpActive :: bool
  sharedExpEnabled :: bool

datatype creature_ref = PlayerRef player_id | SummonRef u32

datatype packet =
    TextMessage string
  | ClosePrivate
  | CreatureSkull player_id
  | CreatureShield player_id
  | PartyCreatureShield player_id
  | PartyCreatureSkull player_id
  | PartyCreatureUpdate player_id
  | PartyCreatureShowStatus creature_ref bool
  | PartyCreatureHealth creature_ref nat
  | PartyPlayerMana player_id nat
  | PartyPlayerVocation player_id
  | GainSharedExperience u64

datatype sending = To player_id packet | ToSpectators Position packet

record game =
  players :: "player_id \<Rightarrow> Player option"
  parties :: "party_id \<Rightarrow> Party option"
  next_party :: party_id
  system_time :: int
  sent :: "sending list"

record party_env =
  onJoin :: "game \<Rightarrow> party_id \<Rightarrow> player_id \<Rightarrow> bool"
  onLeave :: "game \<Rightarrow> party_id \<Rightarrow> player_id \<Rightarrow> bool"
  onDisband :: "game \<Rightarrow> party_id \<Rightarrow> bool"
  onShareExperience :: "game \<Rightarrow> party_id \<Rightarrow> u64 \<Rightarrow> u64"
  pz_locked :: int
  party_list_max_distance :: int

section \<open>Access to the stores\<close>

definition live :: "game \<Rightarrow> player_id \<Rightarrow> bool" where
  "live g p \<longleftrightarrow> players g p \<noteq> None"

fun creature_mention :: "creature_ref \<Rightarrow> player_id list" where
  "creature_mention (PlayerRef p) = [p]"
| "creature_mention (SummonRef _) = []"

fun packet_mention :: "packet \<Rightarrow> player_id list" where
  "packet_mention (CreatureSkull p) = [p]"
| "packet_mention (CreatureShield p) = [p]"
| "packet_mention (PartyCreatureShield p) = [p]"
| "packet_mention (PartyCreatureSkull p) = [p]"
| "packet_mention (PartyCreatureUpdate p) = [p]"
| "packet_mention (PartyCreatureShowStatus c _) = creature_mention c"
| "packet_mention (PartyCreatureHealth c _) = creature_mention c"
| "packet_mention (PartyPlayerMana p _) = [p]"
| "packet_mention (PartyPlayerVocation p) = [p]"
| "packet_mention _ = []"

fun send_mention :: "sending \<Rightarrow> player_id list" where
  "send_mention (To p k) = p # packet_mention k"
| "send_mention (ToSpectators _ k) = packet_mention k"

definition sends :: "sending list \<Rightarrow> game \<Rightarrow> game option" where
  "sends ms g =
     (if list_all (\<lambda>m. list_all (live g) (send_mention m)) ms
      then Some (g\<lparr>sent := sent g @ ms\<rparr>) else None)"

definition upd_player :: "player_id \<Rightarrow> (Player \<Rightarrow> Player) \<Rightarrow> game \<Rightarrow> game option" where
  "upd_player p f g =
     do { x \<leftarrow> players g p; Some (g\<lparr>players := (players g)(p \<mapsto> f x)\<rparr>) }"

definition upd_party :: "party_id \<Rightarrow> (Party \<Rightarrow> Party) \<Rightarrow> game \<Rightarrow> game option" where
  "upd_party q f g =
     do { P \<leftarrow> parties g q; Some (g\<lparr>parties := (parties g)(q \<mapsto> f P)\<rparr>) }"

text \<open>A \<^verbatim>\<open>for\<close> loop over a list that its body does not change.\<close>

fun each :: "('a \<Rightarrow> game \<Rightarrow> game option) \<Rightarrow> 'a list \<Rightarrow> game \<Rightarrow> game option" where
  "each f [] g = Some g"
| "each f (x # xs) g = do { g \<leftarrow> f x g; each f xs g }"

definition setParty :: "player_id \<Rightarrow> party_id option \<Rightarrow> game \<Rightarrow> game option" where
  "setParty p q = upd_player p (\<lambda>x. x\<lparr>party := q\<rparr>)"

definition getParty :: "game \<Rightarrow> player_id \<Rightarrow> party_id option option" where
  "getParty g p = map_option party (players g p)"

definition updatePlayerShield :: "player_id \<Rightarrow> game \<Rightarrow> game option" where
  "updatePlayerShield p g =
     do { x \<leftarrow> players g p; sends [ToSpectators (pl_position x) (CreatureShield p)] g }"

definition sendPlayerPartyIcons :: "player_id \<Rightarrow> player_id \<Rightarrow> sending list" where
  "sendPlayerPartyIcons to p = [To to (PartyCreatureShield p), To to (PartyCreatureSkull p)]"

definition addPartyInvitation :: "player_id \<Rightarrow> party_id \<Rightarrow> game \<Rightarrow> game option" where
  "addPartyInvitation p q = upd_player p (\<lambda>x.
     if q \<in> set (invitePartyList x) then x else x\<lparr>invitePartyList := q # invitePartyList x\<rparr>)"

definition removePartyInvitation :: "player_id \<Rightarrow> party_id \<Rightarrow> game \<Rightarrow> game option" where
  "removePartyInvitation p q = upd_player p (\<lambda>x.
     x\<lparr>invitePartyList := removeAll q (invitePartyList x)\<rparr>)"

section \<open>Queries\<close>

definition party_empty :: "Party \<Rightarrow> bool" where
  "party_empty P \<longleftrightarrow> memberList P = [] \<and> inviteList P = []"

definition isPlayerInvited :: "Party \<Rightarrow> player_id \<Rightarrow> bool" where
  "isPlayerInvited P p \<longleftrightarrow> p \<in> set (inviteList P)"

definition isInviting :: "game \<Rightarrow> player_id \<Rightarrow> player_id \<Rightarrow> bool option" where
  "isInviting g self p =
     do { q \<leftarrow> getParty g self;
          case q of None \<Rightarrow> Some False
          | Some q \<Rightarrow> do { P \<leftarrow> parties g q;
              Some (if leader P \<noteq> self then False else isPlayerInvited P p) } }"

definition isPartner :: "game \<Rightarrow> player_id \<Rightarrow> player_id \<Rightarrow> bool option" where
  "isPartner g self p =
     do { q \<leftarrow> getParty g self;
          if q = None \<or> p = self then Some False
          else do { q' \<leftarrow> getParty g p; Some (q = q') } }"

text \<open>\<^verbatim>\<open>static_cast<uint32_t>(std::ceil((static_cast<float>(highestLevel) * 2) / 3))\<close>\<close>

definition shared_min_level :: "u32 \<Rightarrow> u32" where
  "shared_min_level h =
     of_nat (fl_ceil (fl_div 24 (fl_mult 24 (fl_of_nat 24 (unat h)) 2) 3))"

text \<open>\<^verbatim>\<open>std::ceil((static_cast<double>(v) / std::max<int32_t>(m, 1)) * 100)\<close>\<close>

definition percent :: "nat \<Rightarrow> nat \<Rightarrow> nat" where
  "percent v m = fl_ceil (fl_mult 53 (fl_div 53 (fl_of_nat 53 v) (max m 1)) 100)"

definition highest_level :: "Player \<Rightarrow> Player list \<Rightarrow> u32" where
  "highest_level l ms = fold (\<lambda>m h. if pl_level m > h then pl_level m else h) ms (pl_level l)"

definition recently_active :: "party_env \<Rightarrow> game \<Rightarrow> Party \<Rightarrow> player_id \<Rightarrow> bool" where
  "recently_active E g P p =
     (case ticksMap P p of None \<Rightarrow> False
      | Some t \<Rightarrow> \<not> (word_of_int (system_time g - t) > (word_of_int (pz_locked E) :: u64)))"

definition canUseSharedExperience :: "party_env \<Rightarrow> game \<Rightarrow> party_id \<Rightarrow> player_id \<Rightarrow> bool option" where
  "canUseSharedExperience E g q p =
     do { P \<leftarrow> parties g q;
          if memberList P = [] then Some False
          else do {
            l \<leftarrow> players g (leader P);
            ms \<leftarrow> those (map (players g) (memberList P));
            x \<leftarrow> players g p;
            Some (if pl_level x < shared_min_level (highest_level l ms) then False
                  else if \<not> areInRange3 30 30 1 (pl_position l) (pl_position x) then False
                  else if \<not> pl_not_gain_in_fight x \<and> \<not> recently_active E g P p then False
                  else True) } }"

fun all_can_use :: "party_env \<Rightarrow> game \<Rightarrow> party_id \<Rightarrow> player_id list \<Rightarrow> bool option" where
  "all_can_use E g q [] = Some True"
| "all_can_use E g q (p # ps) =
     do { ok \<leftarrow> canUseSharedExperience E g q p;
          if ok then all_can_use E g q ps else Some False }"

definition canEnableSharedExperience :: "party_env \<Rightarrow> game \<Rightarrow> party_id \<Rightarrow> bool option" where
  "canEnableSharedExperience E g q =
     do { P \<leftarrow> parties g q; all_can_use E g q (leader P # memberList P) }"

definition canOpenCorpse :: "game \<Rightarrow> party_id \<Rightarrow> player_id \<Rightarrow> bool option" where
  "canOpenCorpse g q ownerId =
     (case players g ownerId of None \<Rightarrow> Some False
      | Some x \<Rightarrow> do { P \<leftarrow> parties g q; Some (leader P = ownerId \<or> party x = Some q) })"

section \<open>Operations of a party\<close>

definition updateAllPartyIcons :: "party_id \<Rightarrow> game \<Rightarrow> game option" where
  "updateAllPartyIcons q g =
     do { P \<leftarrow> parties g q;
          sends (concat (map (\<lambda>m.
              map (\<lambda>m'. To m (PartyCreatureShield m')) (memberList P) @
              [To m (PartyCreatureShield (leader P)), To (leader P) (PartyCreatureShield m)])
            (memberList P)) @ [To (leader P) (PartyCreatureShield (leader P))]) g }"

definition broadcastPartyMessage :: "string \<Rightarrow> bool \<Rightarrow> party_id \<Rightarrow> game \<Rightarrow> game option" where
  "broadcastPartyMessage msg sendToInvitations q g =
     do { P \<leftarrow> parties g q;
          sends (map (\<lambda>m. To m (TextMessage msg)) (memberList P) @
                 [To (leader P) (TextMessage msg)] @
                 (if sendToInvitations then map (\<lambda>i. To i (TextMessage msg)) (inviteList P) else [])) g }"

definition updateSharedExperience :: "party_env \<Rightarrow> party_id \<Rightarrow> game \<Rightarrow> game option" where
  "updateSharedExperience E q g =
     do { P \<leftarrow> parties g q;
          if sharedExpActive P then do {
            result \<leftarrow> canEnableSharedExperience E g q;
            if result \<noteq> sharedExpEnabled P then do {
              g \<leftarrow> upd_party q (\<lambda>P. P\<lparr>sharedExpEnabled := result\<rparr>) g;
              updateAllPartyIcons q g }
            else Some g }
          else Some g }"

definition clearPlayerPoints :: "party_env \<Rightarrow> party_id \<Rightarrow> player_id \<Rightarrow> game \<Rightarrow> game option" where
  "clearPlayerPoints E q p g =
     do { P \<leftarrow> parties g q;
          case ticksMap P p of None \<Rightarrow> Some g
          | Some _ \<Rightarrow> do {
              g \<leftarrow> upd_party q (\<lambda>P. P\<lparr>ticksMap := (ticksMap P)(p := None)\<rparr>) g;
              updateSharedExperience E q g } }"

definition updatePlayerTicks :: "party_env \<Rightarrow> party_id \<Rightarrow> player_id \<Rightarrow> u32 \<Rightarrow> game \<Rightarrow> game option" where
  "updatePlayerTicks E q p points g =
     do { x \<leftarrow> players g p;
          if points \<noteq> 0 \<and> \<not> pl_not_gain_in_fight x then do {
            g \<leftarrow> upd_party q (\<lambda>P. P\<lparr>ticksMap := (ticksMap P)(p \<mapsto> system_time g)\<rparr>) g;
            updateSharedExperience E q g }
          else Some g }"

definition new_party :: "player_id \<Rightarrow> game \<Rightarrow> (party_id \<times> game) option" where
  "new_party p g =
     (let q = next_party g;
          P = \<lparr>ticksMap = Map.empty, memberList = [], inviteList = [], leader = p,
               sharedExpActive = False, sharedExpEnabled = False\<rparr>
      in do { g \<leftarrow> setParty p (Some q) (g\<lparr>parties := (parties g)(q \<mapsto> P), next_party := Suc q\<rparr>);
              Some (q, g) })"

definition disband :: "party_env \<Rightarrow> party_id \<Rightarrow> game \<Rightarrow> game option" where
  "disband E q g =
     do { P \<leftarrow> parties g q;
          if \<not> onDisband E g q then Some g
          else do {
            let l = leader P;
            let bye = TextMessage ''Your party has been disbanded.'';
            g \<leftarrow> setParty l None g;
            g \<leftarrow> sends [To l ClosePrivate] g;
            g \<leftarrow> updatePlayerShield l g;
            g \<leftarrow> sends [To l (CreatureSkull l), To l bye] g;
            g \<leftarrow> each (\<lambda>i g. do {
                   g \<leftarrow> removePartyInvitation i q g;
                   sends [To l (CreatureShield i)] g }) (inviteList P) g;
            g \<leftarrow> each (\<lambda>m g. do {
                   g \<leftarrow> setParty m None g;
                   sends [To m ClosePrivate, To m bye] g }) (memberList P) g;
            g \<leftarrow> each (\<lambda>m g. do {
                   g \<leftarrow> updatePlayerShield m g;
                   sends (map (\<lambda>m'. To m' (CreatureSkull m)) (memberList P) @
                          [To m (CreatureSkull l), To l (CreatureSkull m)]) g }) (memberList P) g;
            Some (g\<lparr>parties := (parties g)(q := None)\<rparr>) } }"

definition passPartyLeadership :: "party_env \<Rightarrow> party_id \<Rightarrow> player_id \<Rightarrow> game \<Rightarrow> (bool \<times> game) option" where
  "passPartyLeadership E q p g =
     do { P \<leftarrow> parties g q;
          refused \<leftarrow> (if leader P = p then Some True
                     else do { x \<leftarrow> players g p; Some (party x \<noteq> Some q) });
          if refused then Some (False, g)
          else do {
            x \<leftarrow> players g p;
            g \<leftarrow> upd_party q (\<lambda>P. P\<lparr>memberList := remove1 p (memberList P)\<rparr>) g;
            g \<leftarrow> broadcastPartyMessage (pl_name x @ '' is now the leader of the party.'') True q g;
            let oldLeader = leader P;
            g \<leftarrow> upd_party q (\<lambda>P. P\<lparr>leader := p, memberList := oldLeader # memberList P\<rparr>) g;
            g \<leftarrow> updateSharedExperience E q g;
            P \<leftarrow> parties g q;
            g \<leftarrow> sends (concat (map (\<lambda>m.
                     [To m (PartyCreatureShield oldLeader), To m (PartyCreatureShield p)]) (memberList P)) @
                   concat (map (\<lambda>i.
                     [To i (CreatureShield oldLeader), To i (CreatureShield p)]) (inviteList P)) @
                   [To p (PartyCreatureShield oldLeader), To p (PartyCreatureShield p),
                    To p (TextMessage ''You are now the leader of the party.'')]) g;
            Some (True, g) } }"

text \<open>What \<^verbatim>\<open>leaveParty\<close> does once the leadership is settled.\<close>

definition leave_rest :: "party_env \<Rightarrow> party_id \<Rightarrow> player_id \<Rightarrow> string \<Rightarrow> bool \<Rightarrow> game \<Rightarrow> game option" where
  "leave_rest E q p name missingLeader g =
     do {
     g \<leftarrow> upd_party q (\<lambda>P. P\<lparr>memberList := remove1 p (memberList P)\<rparr>) g;
     g \<leftarrow> setParty p None g;
     g \<leftarrow> sends [To p ClosePrivate] g;
     g \<leftarrow> updatePlayerShield p g;
     P \<leftarrow> parties g q;
     g \<leftarrow> sends (concat (map (\<lambda>m.
              [To m (CreatureSkull p)] @ sendPlayerPartyIcons p m @
              [To m (PartyCreatureUpdate p)]) (memberList P)) @
            [To (leader P) (CreatureSkull p), To p (CreatureSkull p)] @
            sendPlayerPartyIcons p (leader P) @
            [To (leader P) (PartyCreatureUpdate p),
             To p (TextMessage ''You have left the party.'')]) g;
     g \<leftarrow> updateSharedExperience E q g;
     g \<leftarrow> clearPlayerPoints E q p g;
     g \<leftarrow> broadcastPartyMessage (name @ '' has left the party.'') False q g;
     P \<leftarrow> parties g q;
     if missingLeader \<or> party_empty P then disband E q g else Some g }"

definition leaveParty :: "party_env \<Rightarrow> party_id \<Rightarrow> player_id \<Rightarrow> game \<Rightarrow> (bool \<times> game) option" where
  "leaveParty E q p g =
     do { P \<leftarrow> parties g q;
          x \<leftarrow> players g p;
          if party x \<noteq> Some q \<and> leader P \<noteq> p then Some (False, g)
          else if \<not> onLeave E g q p then Some (False, g)
          else do {
            let missingLeader = (leader P = p \<and>
                  (memberList P = [] \<or> length (memberList P) = 1 \<and> inviteList P = []));
            g \<leftarrow> (if leader P = p \<and> \<not> missingLeader
                 then map_option snd (passPartyLeadership E q (hd (memberList P)) g) else Some g);
            g \<leftarrow> leave_rest E q p (pl_name x) missingLeader g;
            Some (True, g) } }"

section \<open>Status shown to party members\<close>

definition summon_status :: "player_id \<Rightarrow> bool \<Rightarrow> Summon \<Rightarrow> sending list" where
  "summon_status to showStatus s =
     To to (PartyCreatureShowStatus (SummonRef (summon_id s)) showStatus) #
     (if showStatus
      then [To to (PartyCreatureHealth (SummonRef (summon_id s))
              (percent (summon_health s) (summon_max_health s)))] else [])"

definition showPlayerStatus :: "player_id \<Rightarrow> player_id \<Rightarrow> bool \<Rightarrow> game \<Rightarrow> game option" where
  "showPlayerStatus p m showStatus g =
     do { x \<leftarrow> players g p;
          y \<leftarrow> players g m;
          sends ([To p (PartyCreatureShowStatus (PlayerRef m) showStatus),
                  To m (PartyCreatureShowStatus (PlayerRef p) showStatus)] @
            (if showStatus then
               concat (map (summon_status p True) (pl_summons y)) @
               concat (map (summon_status m True) (pl_summons x)) @
               [To p (PartyCreatureHealth (PlayerRef m) (percent (pl_health y) (pl_max_health y))),
                To m (PartyCreatureHealth (PlayerRef p) (percent (pl_health x) (pl_max_health x))),
                To p (PartyPlayerMana m (percent (pl_mana y) (pl_max_mana y))),
                To m (PartyPlayerMana p (percent (pl_mana x) (pl_max_mana x)))]
             else
               concat (map (summon_status m False) (pl_summons x)) @
               concat (map (summon_status p False) (pl_summons y)))) g }"

definition within_list_distance :: "int \<Rightarrow> Position \<Rightarrow> Position \<Rightarrow> bool" where
  "within_list_distance d a b \<longleftrightarrow> getDistanceX a b \<le> d \<and> getDistanceY a b \<le> d"

definition shown_to :: "party_env \<Rightarrow> Position \<Rightarrow> Position \<Rightarrow> bool" where
  "shown_to E a b \<longleftrightarrow>
     party_list_max_distance E = 0 \<or> within_list_distance (party_list_max_distance E) a b"

definition updatePlayerStatus :: "party_env \<Rightarrow> party_id \<Rightarrow> player_id \<Rightarrow> game \<Rightarrow> game option" where
  "updatePlayerStatus E q p g =
     do { P \<leftarrow> parties g q;
          each (\<lambda>m g. do {
              x \<leftarrow> players g p;
              y \<leftarrow> players g m;
              showPlayerStatus p m (shown_to E (pl_position x) (pl_position y)) g })
            (memberList P @ [leader P]) g }"

definition status_move :: "party_env \<Rightarrow> player_id \<Rightarrow> Position \<Rightarrow> Position \<Rightarrow> player_id \<Rightarrow> game \<Rightarrow> game option" where
  "status_move E p oldPos newPos m g =
     do { y \<leftarrow> players g m;
          let condition1 = within_list_distance (party_list_max_distance E) oldPos (pl_position y);
          let condition2 = within_list_distance (party_list_max_distance E) newPos (pl_position y);
          if condition1 \<and> \<not> condition2 then showPlayerStatus p m False g
          else if \<not> condition1 \<and> condition2 then showPlayerStatus p m True g
          else Some g }"

definition updatePlayerStatus_move ::
    "party_env \<Rightarrow> party_id \<Rightarrow> player_id \<Rightarrow> Position \<Rightarrow> Position \<Rightarrow> game \<Rightarrow> game option" where
  "updatePlayerStatus_move E q p oldPos newPos g =
     do { P \<leftarrow> parties g q;
          if party_list_max_distance E \<noteq> 0
          then each (status_move E p oldPos newPos) (memberList P @ [leader P]) g
          else Some g }"

text \<open>The three notifications below send one packet about a player to everyone it is shown to.\<close>

definition send_to_shown :: "party_env \<Rightarrow> party_id \<Rightarrow> player_id \<Rightarrow> packet \<Rightarrow> game \<Rightarrow> game option" where
  "send_to_shown E q p k g =
     do { P \<leftarrow> parties g q;
          each (\<lambda>m g. do {
              x \<leftarrow> players g p;
              y \<leftarrow> players g m;
              if shown_to E (pl_position x) (pl_position y) then sends [To m k] g else Some g })
            (memberList P @ [leader P]) g }"

definition updatePlayerHealth ::
    "party_env \<Rightarrow> party_id \<Rightarrow> player_id \<Rightarrow> creature_ref \<Rightarrow> nat \<Rightarrow> game \<Rightarrow> game option" where
  "updatePlayerHealth E q p target healthPercent =
     send_to_shown E q p (PartyCreatureHealth target healthPercent)"

definition updatePlayerMana :: "party_env \<Rightarrow> party_id \<Rightarrow> player_id \<Rightarrow> nat \<Rightarrow> game \<Rightarrow> game option" where
  "updatePlayerMana E q p manaPercent = send_to_shown E q p (PartyPlayerMana p manaPercent)"

definition updatePlayerVocation :: "party_env \<Rightarrow> party_id \<Rightarrow> player_id \<Rightarrow> game \<Rightarrow> game option" where
  "updatePlayerVocation E q p = send_to_shown E q p (PartyPlayerVocation p)"

section \<open>Invitations\<close>

definition joinParty :: "party_env \<Rightarrow> party_id \<Rightarrow> player_id \<Rightarrow> game \<Rightarrow> (bool \<times> game) option" where
  "joinParty E q p g =
     (if \<not> onJoin E g q p then Some (False, g)
      else do {
        P \<leftarrow> parties g q;
        if p \<notin> set (inviteList P) then Some (False, g)
        else do {
          g \<leftarrow> upd_party q (\<lambda>P. P\<lparr>inviteList := remove1 p (inviteList P)\<rparr>) g;
          x \<leftarrow> players g p;
          g \<leftarrow> broadcastPartyMessage (pl_name x @ '' has joined the party.'') False q g;
          g \<leftarrow> setParty p (Some q) g;
          g \<leftarrow> updatePlayerShield p g;
          g \<leftarrow> sends (concat (map (\<lambda>m. To m (CreatureSkull p) # sendPlayerPartyIcons p m) (memberList P)) @
                 [To p (CreatureSkull p), To (leader P) (CreatureSkull p)] @
                 sendPlayerPartyIcons p (leader P)) g;
          g \<leftarrow> upd_party q (\<lambda>P. P\<lparr>memberList := memberList P @ [p]\<rparr>) g;
          g \<leftarrow> updatePlayerStatus E q p g;
          g \<leftarrow> removePartyInvitation p q g;
          g \<leftarrow> updateSharedExperience E q g;
          l \<leftarrow> players g (leader P);
          c \<leftarrow> (if pl_name l = [] then None else Some (last (pl_name l)));
          g \<leftarrow> sends [To p (TextMessage (''You have joined '' @ pl_name l @ [CHR 0x27] @
                 (if c = CHR ''s'' then [] else ''s'') @
                 '' party. Open the party channel to communicate with your companions.''))] g;
          Some (True, g) } })"

definition removeInvite :: "party_env \<Rightarrow> party_id \<Rightarrow> player_id \<Rightarrow> bool \<Rightarrow> game \<Rightarrow> (bool \<times> game) option" where
  "removeInvite E q p removeFromPlayer g =
     do { P \<leftarrow> parties g q;
          if p \<notin> set (inviteList P) then Some (False, g)
          else do {
            g \<leftarrow> upd_party q (\<lambda>P. P\<lparr>inviteList := remove1 p (inviteList P)\<rparr>) g;
            g \<leftarrow> sends [To (leader P) (CreatureShield p), To p (CreatureShield (leader P))] g;
            g \<leftarrow> (if removeFromPlayer then removePartyInvitation p q g else Some g);
            P \<leftarrow> parties g q;
            g \<leftarrow> (if party_empty P then disband E q g else Some g);
            Some (True, g) } }"

definition her_his :: "Player \<Rightarrow> string" where
  "her_his x = (if pl_female x then ''her'' else ''his'')"

definition revokeInvitation :: "party_env \<Rightarrow> party_id \<Rightarrow> player_id \<Rightarrow> game \<Rightarrow> game option" where
  "revokeInvitation E q p g =
     do { P \<leftarrow> parties g q;
          l \<leftarrow> players g (leader P);
          x \<leftarrow> players g p;
          g \<leftarrow> sends [To p (TextMessage (pl_name l @ '' has revoked '' @ her_his l @ '' invitation.'')),
                 To (leader P) (TextMessage (''Invitation for '' @ pl_name x @ '' has been revoked.''))] g;
          map_option snd (removeInvite E q p True g) }"

definition invitePlayer :: "party_id \<Rightarrow> player_id \<Rightarrow> game \<Rightarrow> (bool \<times> game) option" where
  "invitePlayer q p g =
     do { P \<leftarrow> parties g q;
          if isPlayerInvited P p then Some (False, g)
          else do {
            x \<leftarrow> players g p;
            g \<leftarrow> (if party_empty P then do {
                     g \<leftarrow> updatePlayerShield (leader P) g;
                     sends [To (leader P) (CreatureSkull (leader P))] g }
                 else Some g);
            g \<leftarrow> sends [To (leader P) (TextMessage (pl_name x @ '' has been invited.'' @
                   (if party_empty P
                    then '' Open the party channel to communicate with your members.'' else [])))] g;
            g \<leftarrow> upd_party q (\<lambda>P. P\<lparr>inviteList := inviteList P @ [p]\<rparr>) g;
            g \<leftarrow> sends [To (leader P) (CreatureShield p), To p (CreatureShield (leader P))] g;
            g \<leftarrow> addPartyInvitation p q g;
            l \<leftarrow> players g (leader P);
            g \<leftarrow> sends [To p (TextMessage (pl_name l @ '' has invited you to '' @ her_his l @ '' party.''))] g;
            Some (True, g) } }"

definition clearPartyInvitations :: "party_env \<Rightarrow> player_id \<Rightarrow> game \<Rightarrow> game option" where
  "clearPartyInvitations E p g =
     do { x \<leftarrow> players g p;
          g \<leftarrow> each (\<lambda>q g. map_option snd (removeInvite E q p False g)) (invitePartyList x) g;
          upd_player p (\<lambda>x. x\<lparr>invitePartyList := []\<rparr>) g }"

section \<open>Shared experience\<close>

definition setSharedExperience :: "party_env \<Rightarrow> party_id \<Rightarrow> player_id \<Rightarrow> bool \<Rightarrow> game \<Rightarrow> (bool \<times> game) option" where
  "setSharedExperience E q p newSharedExpActive g =
     do { P \<leftarrow> parties g q;
          if leader P \<noteq> p then Some (False, g)
          else if sharedExpActive P = newSharedExpActive then Some (True, g)
          else do {
            g \<leftarrow> upd_party q (\<lambda>P. P\<lparr>sharedExpActive := newSharedExpActive\<rparr>) g;
            g \<leftarrow> (if newSharedExpActive then do {
                     enabled \<leftarrow> canEnableSharedExperience E g q;
                     g \<leftarrow> upd_party q (\<lambda>P. P\<lparr>sharedExpEnabled := enabled\<rparr>) g;
                     sends [To p (TextMessage (if enabled then ''Shared Experience is now active.''
                       else ''Shared Experience has been activated, but some members of your party are inactive.''))] g }
                 else sends [To p (TextMessage ''Shared Experience has been deactivated.'')] g);
            g \<leftarrow> updateAllPartyIcons q g;
            Some (True, g) } }"

definition shareExperience :: "party_env \<Rightarrow> party_id \<Rightarrow> u64 \<Rightarrow> game \<Rightarrow> game option" where
  "shareExperience E q experience g =
     do { let share = onShareExperience E g q experience;
          P \<leftarrow> parties g q;
          sends (map (\<lambda>m. To m (GainSharedExperience share)) (memberList P @ [leader P])) g }"

datatype PartyShields_t =
    SHIELD_NONE | SHIELD_WHITEYELLOW | SHIELD_WHITEBLUE | SHIELD_BLUE | SHIELD_YELLOW
  | SHIELD_BLUE_SHAREDEXP | SHIELD_YELLOW_SHAREDEXP | SHIELD_BLUE_NOSHAREDEXP_BLINK
  | SHIELD_YELLOW_NOSHAREDEXP_BLINK | SHIELD_BLUE_NOSHAREDEXP | SHIELD_YELLOW_NOSHAREDEXP
  | SHIELD_GRAY

definition shared_shield ::
    "party_env \<Rightarrow> game \<Rightarrow> party_id \<Rightarrow> Party \<Rightarrow> player_id \<Rightarrow>
     PartyShields_t \<Rightarrow> PartyShields_t \<Rightarrow> PartyShields_t \<Rightarrow> PartyShields_t \<Rightarrow> PartyShields_t option" where
  "shared_shield E g q P p plain enabled usable blinking =
     (if sharedExpActive P then
        if sharedExpEnabled P then Some enabled
        else do { ok \<leftarrow> canUseSharedExperience E g q p; Some (if ok then usable else blinking) }
      else Some plain)"

definition getPartyShield :: "party_env \<Rightarrow> game \<Rightarrow> player_id \<Rightarrow> player_id \<Rightarrow> PartyShields_t option" where
  "getPartyShield E g self p =
     do { mine \<leftarrow> getParty g self;
          inner \<leftarrow> (case mine of None \<Rightarrow> Some None
            | Some q \<Rightarrow> do {
                P \<leftarrow> parties g q;
                theirs \<leftarrow> getParty g p;
                if leader P = p then
                  map_option Some (shared_shield E g q P p SHIELD_YELLOW SHIELD_YELLOW_SHAREDEXP
                    SHIELD_YELLOW_NOSHAREDEXP SHIELD_YELLOW_NOSHAREDEXP_BLINK)
                else if theirs = Some q then
                  map_option Some (shared_shield E g q P p SHIELD_BLUE SHIELD_BLUE_SHAREDEXP
                    SHIELD_BLUE_NOSHAREDEXP SHIELD_BLUE_NOSHAREDEXP_BLINK)
                else do {
                  inviting \<leftarrow> isInviting g self p;
                  Some (if inviting then Some SHIELD_WHITEBLUE else None) } });
          case inner of Some s \<Rightarrow> Some s
          | None \<Rightarrow> do {
              invited \<leftarrow> isInviting g p self;
              theirs \<leftarrow> getParty g p;
              Some (if invited then SHIELD_WHITEYELLOW
                    else if theirs \<noteq> None then SHIELD_GRAY else SHIELD_NONE) } }"

section \<open>Requests of the clients\<close>

definition playerInviteToParty :: "player_id \<Rightarrow> player_id \<Rightarrow> game \<Rightarrow> game option" where
  "playerInviteToParty p i g =
     (if p = i then Some g
      else if players g p = None \<or> players g i = None then Some g
      else do {
        inviting \<leftarrow> isInviting g i p;
        if inviting then Some g
        else do {
          y \<leftarrow> players g i;
          if party y \<noteq> None
          then sends [To p (TextMessage (pl_name y @ '' is already in a party.''))] g
          else do {
            mine \<leftarrow> getParty g p;
            case mine of
              None \<Rightarrow> do { (q, g) \<leftarrow> new_party p g; map_option snd (invitePlayer q i g) }
            | Some q \<Rightarrow> do {
                P \<leftarrow> parties g q;
                if leader P \<noteq> p then Some g else map_option snd (invitePlayer q i g) } } } })"

definition playerJoinParty :: "party_env \<Rightarrow> player_id \<Rightarrow> player_id \<Rightarrow> game \<Rightarrow> game option" where
  "playerJoinParty E p l g =
     (if players g p = None \<or> players g l = None then Some g
      else do {
        inviting \<leftarrow> isInviting g l p;
        if \<not> inviting then Some g
        else do {
          theirs \<leftarrow> getParty g l;
          case theirs of None \<Rightarrow> Some g
          | Some q \<Rightarrow> do {
              P \<leftarrow> parties g q;
              mine \<leftarrow> getParty g p;
              if leader P \<noteq> l then Some g
              else if mine \<noteq> None
              then sends [To p (TextMessage ''You are already in a party.'')] g
              else map_option snd (joinParty E q p g) } } })"

text \<open>The party of a player who leads it.\<close>

definition led_party :: "game \<Rightarrow> player_id \<Rightarrow> party_id option option" where
  "led_party g p =
     do { mine \<leftarrow> getParty g p;
          case mine of None \<Rightarrow> Some None
          | Some q \<Rightarrow> do { P \<leftarrow> parties g q; Some (if leader P = p then Some q else None) } }"

definition playerRevokePartyInvitation :: "party_env \<Rightarrow> player_id \<Rightarrow> player_id \<Rightarrow> game \<Rightarrow> game option" where
  "playerRevokePartyInvitation E p i g =
     (if players g p = None then Some g
      else do {
        mine \<leftarrow> led_party g p;
        case mine of None \<Rightarrow> Some g
        | Some q \<Rightarrow>
            if players g i = None then Some g
            else do {
              inviting \<leftarrow> isInviting g p i;
              if \<not> inviting then Some g else revokeInvitation E q i g } })"

definition playerPassPartyLeadership :: "party_env \<Rightarrow> player_id \<Rightarrow> player_id \<Rightarrow> game \<Rightarrow> game option" where
  "playerPassPartyLeadership E p n g =
     (if players g p = None then Some g
      else do {
        mine \<leftarrow> led_party g p;
        case mine of None \<Rightarrow> Some g
        | Some q \<Rightarrow>
            if players g n = None then Some g
            else do {
              partner \<leftarrow> isPartner g p n;
              if \<not> partner then Some g else map_option snd (passPartyLeadership E q n g) } })"

definition playerLeaveParty :: "party_env \<Rightarrow> player_id \<Rightarrow> game \<Rightarrow> game option" where
  "playerLeaveParty E p g =
     (case players g p of None \<Rightarrow> Some g
      | Some x \<Rightarrow>
          (case party x of None \<Rightarrow> Some g
           | Some q \<Rightarrow> if pl_infight x then Some g else map_option snd (leaveParty E q p g)))"

definition playerEnableSharedPartyExperience :: "party_env \<Rightarrow> player_id \<Rightarrow> bool \<Rightarrow> game \<Rightarrow> game option" where
  "playerEnableSharedPartyExperience E p active g =
     (case players g p of None \<Rightarrow> Some g
      | Some x \<Rightarrow>
          (case party x of None \<Rightarrow> Some g
           | Some q \<Rightarrow>
               if pl_infight x \<and> pl_on_tile x \<and> \<not> pl_in_protection_zone x then Some g
               else map_option snd (setSharedExperience E q p active g)))"

section \<open>Changes of a player\<close>

text \<open>
  What \<^verbatim>\<open>Player::onCreatureMove\<close>, \<^verbatim>\<open>onAttackedCreatureDrainHealth\<close>, \<^verbatim>\<open>onIdleStatus\<close>,
  \<^verbatim>\<open>Game::addCreatureHealth\<close>, \<^verbatim>\<open>addPlayerMana\<close>, \<^verbatim>\<open>addPlayerVocation\<close> and \<^verbatim>\<open>Player::onRemoveCreature\<close> do to
  the party of a player. On removal only the invitations are cleared, and the player object is
  released; the call that would leave the party is commented out in the source.
\<close>

definition with_party :: "(party_id \<Rightarrow> player_id \<Rightarrow> game \<Rightarrow> game option) \<Rightarrow> player_id \<Rightarrow> game \<Rightarrow> game option" where
  "with_party f p g =
     (case players g p of None \<Rightarrow> Some g
      | Some x \<Rightarrow> (case party x of None \<Rightarrow> Some g | Some q \<Rightarrow> f q p g))"

definition player_moved :: "party_env \<Rightarrow> player_id \<Rightarrow> Position \<Rightarrow> game \<Rightarrow> game option" where
  "player_moved E p newPos g =
     (case players g p of None \<Rightarrow> Some g
      | Some x \<Rightarrow> do {
          g \<leftarrow> upd_player p (\<lambda>x. x\<lparr>pl_position := newPos\<rparr>) g;
          with_party (\<lambda>q p g. do {
             g \<leftarrow> updateSharedExperience E q g;
             updatePlayerStatus_move E q p (pl_position x) newPos g }) p g })"

definition addCreatureHealth :: "party_env \<Rightarrow> player_id \<Rightarrow> game \<Rightarrow> game option" where
  "addCreatureHealth E = with_party (\<lambda>q p g. do {
     x \<leftarrow> players g p;
     updatePlayerHealth E q p (PlayerRef p) (percent (pl_health x) (pl_max_health x)) g })"

definition addPlayerMana :: "party_env \<Rightarrow> player_id \<Rightarrow> game \<Rightarrow> game option" where
  "addPlayerMana E = with_party (\<lambda>q p g. do {
     x \<leftarrow> players g p;
     updatePlayerMana E q p (percent (pl_mana x) (pl_max_mana x)) g })"

definition onRemoveCreature :: "party_env \<Rightarrow> player_id \<Rightarrow> game \<Rightarrow> game option" where
  "onRemoveCreature E p g =
     (case players g p of None \<Rightarrow> Some g
      | Some _ \<Rightarrow> do {
          g \<leftarrow> clearPartyInvitations E p g;
          Some (g\<lparr>players := (players g)(p := None)\<rparr>) })"

datatype party_event =
    Login player_id Player
  | Logout player_id
  | Invite player_id player_id
  | Join player_id player_id
  | Revoke player_id player_id
  | PassLeadership player_id player_id
  | Leave player_id
  | EnableShared player_id bool
  | Share player_id u64
  | Moved player_id Position
  | Attacked player_id u32
  | Idle player_id
  | HealthChanged player_id nat
  | ManaChanged player_id nat
  | VocationChanged player_id
  | TimePasses int

fun party_step :: "party_env \<Rightarrow> party_event \<Rightarrow> game \<Rightarrow> game option" where
  "party_step E (Login p x) g =
     (if players g p = None
      then Some (g\<lparr>players := (players g)(p \<mapsto> x\<lparr>party := None, invitePartyList := []\<rparr>)\<rparr>)
      else Some g)"
| "party_step E (Logout p) g = onRemoveCreature E p g"
| "party_step E (Invite p i) g = playerInviteToParty p i g"
| "party_step E (Join p l) g = playerJoinParty E p l g"
| "party_step E (Revoke p i) g = playerRevokePartyInvitation E p i g"
| "party_step E (PassLeadership p n) g = playerPassPartyLeadership E p n g"
| "party_step E (Leave p) g = playerLeaveParty E p g"
| "party_step E (EnableShared p b) g = playerEnableSharedPartyExperience E p b g"
| "party_step E (Share p n) g = with_party (\<lambda>q _. shareExperience E q n) p g"
| "party_step E (Moved p pos) g = player_moved E p pos g"
| "party_step E (Attacked p n) g = with_party (\<lambda>q p. updatePlayerTicks E q p n) p g"
| "party_step E (Idle p) g = with_party (clearPlayerPoints E) p g"
| "party_step E (HealthChanged p h) g =
     (if players g p = None then Some g
      else do { g \<leftarrow> upd_player p (\<lambda>x. x\<lparr>pl_health := h\<rparr>) g; addCreatureHealth E p g })"
| "party_step E (ManaChanged p h) g =
     (if players g p = None then Some g
      else do { g \<leftarrow> upd_player p (\<lambda>x. x\<lparr>pl_mana := h\<rparr>) g; addPlayerMana E p g })"
| "party_step E (VocationChanged p) g = with_party (updatePlayerVocation E) p g"
| "party_step E (TimePasses t) g = Some (g\<lparr>system_time := t\<rparr>)"

definition no_players :: game where
  "no_players = \<lparr>players = Map.empty, parties = Map.empty, next_party = 0, system_time = 0, sent = []\<rparr>"

section \<open>The links between players and parties\<close>

text \<open>
  The part of the state that says who is where: the party pointer and the pending invitations of
  every player, leader, members and invitees of every party. Sending packets and the bookkeeping of
  shared experience do not change it.
\<close>

type_synonym party_shape = "player_id \<times> player_id list \<times> player_id list"
type_synonym links =
  "(player_id \<Rightarrow> party_id option option) \<times> (player_id \<Rightarrow> party_id list option) \<times>
   (party_id \<Rightarrow> party_shape option) \<times> party_id \<times> (player_id \<Rightarrow> string option)"

definition shape_of :: "Party \<Rightarrow> party_shape" where
  "shape_of P = (leader P, memberList P, inviteList P)"

definition links :: "game \<Rightarrow> links" where
  "links g = (getParty g, \<lambda>p. map_option invitePartyList (players g p),
     \<lambda>q. map_option shape_of (parties g q), next_party g, \<lambda>p. map_option pl_name (players g p))"

text \<open>A computation that is defined and ends with given links.\<close>

definition ends :: "game option \<Rightarrow> links \<Rightarrow> bool" where
  "ends r v \<longleftrightarrow> (\<exists>g. r = Some g \<and> links g = v)"

named_theorems ends_intros \<open>computations that are defined, with the links they end with\<close>

lemma ends_Some [ends_intros]: "links g = v \<Longrightarrow> ends (Some g) v"
  by (simp add: ends_def)

lemma ends_bind: "ends r v \<Longrightarrow> (\<And>g. links g = v \<Longrightarrow> ends (k g) v') \<Longrightarrow> ends (r \<bind> k) v'"
  by (auto simp: ends_def)

lemma links_player:
  assumes "links g = (pp, il, sh, n, nm)" "pp p = Some r"
  obtains x where "players g p = Some x" "party x = r" "il p = Some (invitePartyList x)"
    "nm p = Some (pl_name x)"
  using assms by (auto simp: links_def getParty_def)

lemma links_party:
  assumes "links g = (pp, il, sh, n, nm)" "sh q = Some (l, ms, vs)"
  obtains P where "parties g q = Some P" "leader P = l" "memberList P = ms" "inviteList P = vs"
  using assms by (auto simp: links_def shape_of_def)

lemma ends_player:
  assumes "links g = (pp, il, sh, n, nm)" "pp p = Some r"
    and "\<And>x. \<lbrakk>players g p = Some x; party x = r; il p = Some (invitePartyList x);
      nm p = Some (pl_name x)\<rbrakk> \<Longrightarrow> ends (k x) v"
  shows "ends (players g p \<bind> k) v"
  using links_player [OF assms(1,2)] assms(3) by (metis bind.bind_lunit)

lemma ends_party:
  assumes "links g = (pp, il, sh, n, nm)" "sh q = Some (l, ms, vs)"
    and "\<And>P. \<lbrakk>parties g q = Some P; leader P = l; memberList P = ms; inviteList P = vs\<rbrakk> \<Longrightarrow> ends (k P) v"
  shows "ends (parties g q \<bind> k) v"
  using links_party [OF assms(1,2)] assms(3) by (metis bind.bind_lunit)

lemma live_links: "links g = (pp, il, sh, n, nm) \<Longrightarrow> live g p \<longleftrightarrow> pp p \<noteq> None"
  by (auto simp: links_def live_def getParty_def)

definition addressed :: "(player_id \<Rightarrow> party_id option option) \<Rightarrow> sending list \<Rightarrow> bool" where
  "addressed pp ms \<longleftrightarrow> (\<forall>m\<in>set ms. \<forall>p\<in>set (send_mention m). pp p \<noteq> None)"

lemma addressed_simps [simp]:
  "addressed pp []"
  "addressed pp (m # ms) \<longleftrightarrow> (\<forall>p\<in>set (send_mention m). pp p \<noteq> None) \<and> addressed pp ms"
  "addressed pp (ms @ ms') \<longleftrightarrow> addressed pp ms \<and> addressed pp ms'"
  "addressed pp (map f xs) \<longleftrightarrow> (\<forall>x\<in>set xs. \<forall>p\<in>set (send_mention (f x)). pp p \<noteq> None)"
  "addressed pp (concat (map h xs)) \<longleftrightarrow> (\<forall>x\<in>set xs. addressed pp (h x))"
  by (auto simp: addressed_def)

lemma ends_sends [ends_intros]:
  "links g = (pp, il, sh, n, nm) \<Longrightarrow> addressed pp ms \<Longrightarrow> ends (sends ms g) (pp, il, sh, n, nm)"
  by (auto simp: sends_def list_all_iff live_links addressed_def ends_def)
     (auto simp: links_def getParty_def)

lemma ends_shield [ends_intros]:
  "links g = (pp, il, sh, n, nm) \<Longrightarrow> pp p = Some r \<Longrightarrow>
   ends (updatePlayerShield p g) (pp, il, sh, n, nm)"
  unfolding updatePlayerShield_def by (rule ends_player, assumption+) (auto intro!: ends_sends)

lemma ends_setParty [ends_intros]:
  "links g = (pp, il, sh, n, nm) \<Longrightarrow> pp p = Some r \<Longrightarrow>
   ends (setParty p q g) (pp(p \<mapsto> q), il, sh, n, nm)"
  unfolding setParty_def upd_player_def
  by (rule ends_player, assumption+)
     (auto simp: ends_def links_def getParty_def fun_eq_iff)

lemma ends_removePartyInvitation [ends_intros]:
  "links g = (pp, il, sh, n, nm) \<Longrightarrow> pp p = Some r \<Longrightarrow> il p = Some l \<Longrightarrow>
   ends (removePartyInvitation p q g) (pp, il(p \<mapsto> removeAll q l), sh, n, nm)"
  unfolding removePartyInvitation_def upd_player_def
  by (rule ends_player, assumption+)
     (auto simp: ends_def links_def getParty_def fun_eq_iff)

lemma ends_addPartyInvitation [ends_intros]:
  "links g = (pp, il, sh, n, nm) \<Longrightarrow> pp p = Some r \<Longrightarrow> il p = Some l \<Longrightarrow> q \<notin> set l \<Longrightarrow>
   ends (addPartyInvitation p q g) (pp, il(p \<mapsto> q # l), sh, n, nm)"
  unfolding addPartyInvitation_def upd_player_def
  by (rule ends_player, assumption+)
     (auto simp: ends_def links_def getParty_def fun_eq_iff)

lemma ends_upd_party [ends_intros]:
  "links g = (pp, il, sh, n, nm) \<Longrightarrow> sh q = Some (l, ms, vs) \<Longrightarrow>
   (\<And>P. shape_of P = (l, ms, vs) \<Longrightarrow> shape_of (f P) = s') \<Longrightarrow>
   ends (upd_party q f g) (pp, il, sh(q \<mapsto> s'), n, nm)"
  unfolding upd_party_def
  by (rule ends_party, assumption+)
     (auto simp: ends_def links_def getParty_def fun_eq_iff shape_of_def)

section \<open>Operations that keep the links\<close>

text \<open>Everybody the party can reach by a pointer is online.\<close>

definition all_online :: "(player_id \<Rightarrow> party_id option option) \<Rightarrow> party_shape \<Rightarrow> bool" where
  "all_online pp s = (case s of (l, ms, vs) \<Rightarrow> \<forall>p\<in>set (l # ms @ vs). pp p \<noteq> None)"

lemma all_onlineD: "all_online pp (l, ms, vs) \<Longrightarrow> p \<in> set (l # ms @ vs) \<Longrightarrow> \<exists>r. pp p = Some r"
  by (auto simp: all_online_def)

lemma all_online_sub:
  "all_online pp (l, ms, vs) \<Longrightarrow> set (l' # ms' @ vs') \<subseteq> set (l # ms @ vs) \<Longrightarrow> all_online pp (l', ms', vs')"
  unfolding all_online_def by (auto simp del: not_None_eq)

lemma ends_each:
  assumes "links g = v" "\<And>x g. x \<in> set xs \<Longrightarrow> links g = v \<Longrightarrow> ends (f x g) v"
  shows "ends (each f xs g) v"
  using assms
proof (induction xs arbitrary: g)
  case Nil
  then show ?case by (simp add: ends_Some)
next
  case (Cons x xs)
  show ?case unfolding each.simps
    by (rule ends_bind [OF Cons.prems(2)]) (use Cons in \<open>auto\<close>)
qed

lemma those_total: "\<forall>x\<in>set xs. f x \<noteq> None \<Longrightarrow> \<exists>ys. those (map f xs) = Some ys"
  by (induction xs) auto

lemma canUse_total:
  assumes v: "links g = (pp, il, sh, n, nm)" and q: "sh q = Some (l, ms, vs)"
    and on: "all_online pp (l, ms, vs)" and p: "pp p \<noteq> None"
  shows "canUseSharedExperience E g q p \<noteq> None"
proof -
  obtain P where P: "parties g q = Some P" "leader P = l" "memberList P = ms"
    using links_party [OF v q] by metis
  have live: "players g x \<noteq> None" if "pp x \<noteq> None" for x
    using that live_links [OF v, of x] by (simp add: live_def)
  obtain y where y: "players g l = Some y" using on live by (auto simp: all_online_def)
  obtain ys where ys: "those (map (players g) ms) = Some ys"
    using those_total [of ms "players g"] on live by (auto simp: all_online_def)
  obtain x where x: "players g p = Some x" using p live by auto
  show ?thesis by (simp add: canUseSharedExperience_def P y ys x del: not_None_eq)
qed

lemma canEnable_total:
  assumes v: "links g = (pp, il, sh, n, nm)" and q: "sh q = Some (l, ms, vs)"
    and on: "all_online pp (l, ms, vs)"
  shows "canEnableSharedExperience E g q \<noteq> None"
proof -
  have "all_can_use E g q ps \<noteq> None" if "\<forall>p\<in>set ps. pp p \<noteq> None" for ps
    using that
  proof (induction ps)
    case Nil
    then show ?case by simp
  next
    case (Cons p ps)
    then obtain b where "canUseSharedExperience E g q p = Some b"
      using canUse_total [OF v q on, of p E] by auto
    with Cons show ?case by auto
  qed
  moreover obtain P where "parties g q = Some P" "leader P = l" "memberList P = ms"
    using links_party [OF v q] by metis
  moreover have "\<forall>p\<in>set (l # ms). pp p \<noteq> None" using on by (simp add: all_online_def)
  ultimately show ?thesis by (metis canEnableSharedExperience_def bind.bind_lunit)
qed

lemma ends_icons [ends_intros]:
  "links g = (pp, il, sh, n, nm) \<Longrightarrow> sh q = Some (l, ms, vs) \<Longrightarrow> all_online pp (l, ms, vs) \<Longrightarrow>
   ends (updateAllPartyIcons q g) (pp, il, sh, n, nm)"
  unfolding updateAllPartyIcons_def
  by (rule ends_party, assumption+) (rule ends_sends, assumption, auto simp: all_online_def)

lemma ends_broadcast [ends_intros]:
  "links g = (pp, il, sh, n, nm) \<Longrightarrow> sh q = Some (l, ms, vs) \<Longrightarrow> all_online pp (l, ms, vs) \<Longrightarrow>
   ends (broadcastPartyMessage msg b q g) (pp, il, sh, n, nm)"
  unfolding broadcastPartyMessage_def
  by (rule ends_party, assumption+) (rule ends_sends, assumption, auto simp: all_online_def)

lemma ends_upd_party_same:
  assumes "links g = (pp, il, sh, n, nm)" "sh q = Some (l, ms, vs)"
    "\<And>P. shape_of (f P) = shape_of P"
  shows "ends (upd_party q f g) (pp, il, sh, n, nm)"
proof -
  have "sh(q \<mapsto> (l, ms, vs)) = sh" using assms(2) by auto
  then show ?thesis using ends_upd_party [OF assms(1,2), of f "(l, ms, vs)"] assms(3) by simp
qed

lemma ends_updateShared [ends_intros]:
  assumes v: "links g = (pp, il, sh, n, nm)" and q: "sh q = Some (l, ms, vs)"
    and on: "all_online pp (l, ms, vs)"
  shows "ends (updateSharedExperience E q g) (pp, il, sh, n, nm)"
proof -
  obtain P where P: "parties g q = Some P" using links_party [OF v q] by metis
  obtain b where b: "canEnableSharedExperience E g q = Some b"
    using canEnable_total [OF v q on] by auto
  have "ends (upd_party q (\<lambda>P. P\<lparr>sharedExpEnabled := b\<rparr>) g \<bind> updateAllPartyIcons q) (pp, il, sh, n, nm)"
    by (rule ends_bind [OF ends_upd_party_same [OF v q]])
       (auto simp: shape_of_def intro: ends_icons [of _ pp il sh n nm q l ms vs, OF _ q on])
  then show ?thesis using v
    by (cases "b = sharedExpEnabled P") (auto simp: updateSharedExperience_def P b ends_Some)
qed

lemma ends_clearPoints [ends_intros]:
  assumes v: "links g = (pp, il, sh, n, nm)" and q: "sh q = Some (l, ms, vs)"
    and on: "all_online pp (l, ms, vs)"
  shows "ends (clearPlayerPoints E q p g) (pp, il, sh, n, nm)"
  unfolding clearPlayerPoints_def
  by (rule ends_party [OF v q])
     (auto split: option.split simp: shape_of_def v
       intro!: ends_Some ends_bind [OF ends_upd_party_same [OF v q]] ends_updateShared [of _ pp il sh n nm q l ms vs, OF _ q on])

lemma ends_ticks [ends_intros]:
  assumes v: "links g = (pp, il, sh, n, nm)" and q: "sh q = Some (l, ms, vs)"
    and on: "all_online pp (l, ms, vs)" and p: "pp p = Some r"
  shows "ends (updatePlayerTicks E q p k g) (pp, il, sh, n, nm)"
  unfolding updatePlayerTicks_def
  by (rule ends_player [OF v p])
     (auto simp: shape_of_def v
       intro!: ends_Some ends_bind [OF ends_upd_party_same [OF v q]] ends_updateShared [of _ pp il sh n nm q l ms vs, OF _ q on])

lemma ends_showStatus [ends_intros]:
  assumes v: "links g = (pp, il, sh, n, nm)" and p: "pp p = Some r" and m: "pp m = Some r'"
  shows "ends (showPlayerStatus p m b g) (pp, il, sh, n, nm)"
  unfolding showPlayerStatus_def
  by (rule ends_player [OF v p], rule ends_player [OF v m])
     (auto simp: p m summon_status_def intro!: ends_sends [OF v])

lemma ends_status [ends_intros]:
  assumes v: "links g = (pp, il, sh, n, nm)" and q: "sh q = Some (l, ms, vs)"
    and on: "all_online pp (l, ms, vs)" and p: "pp p = Some r"
  shows "ends (updatePlayerStatus E q p g) (pp, il, sh, n, nm)"
  unfolding updatePlayerStatus_def
proof (rule ends_party [OF v q], rule ends_each [OF v])
  fix P m g'
  assume "memberList P = ms" "leader P = l" and m: "m \<in> set (memberList P @ [leader P])"
    and v': "links g' = (pp, il, sh, n, nm)"
  with on obtain r' where r': "pp m = Some r'" by (auto simp: all_online_def)
  show "ends (players g' p \<bind> (\<lambda>x. players g' m \<bind> (\<lambda>y.
      showPlayerStatus p m (shown_to E (pl_position x) (pl_position y)) g'))) (pp, il, sh, n, nm)"
    by (rule ends_player [OF v' p], rule ends_player [OF v' r'], rule ends_showStatus [OF v' p r'])
qed

lemma ends_status_move [ends_intros]:
  assumes v: "links g = (pp, il, sh, n, nm)" and q: "sh q = Some (l, ms, vs)"
    and on: "all_online pp (l, ms, vs)" and p: "pp p = Some r"
  shows "ends (updatePlayerStatus_move E q p a b g) (pp, il, sh, n, nm)"
proof -
  have "ends (status_move E p a b m g') (pp, il, sh, n, nm)"
    if m: "m \<in> set (ms @ [l])" and v': "links g' = (pp, il, sh, n, nm)" for m g'
  proof -
    obtain r' where r': "pp m = Some r'" using on m by (auto simp: all_online_def)
    show ?thesis unfolding status_move_def
      by (rule ends_player [OF v' r'])
         (auto simp: Let_def v' intro!: ends_Some ends_showStatus [OF v' p r'])
  qed
  then show ?thesis unfolding updatePlayerStatus_move_def
    by (intro ends_party [OF v q]) (auto simp: v intro!: ends_Some ends_each [OF v])
qed

lemma ends_shown [ends_intros]:
  assumes v: "links g = (pp, il, sh, n, nm)" and q: "sh q = Some (l, ms, vs)"
    and on: "all_online pp (l, ms, vs)" and p: "pp p = Some r"
    and k: "\<forall>c\<in>set (packet_mention k). pp c \<noteq> None"
  shows "ends (send_to_shown E q p k g) (pp, il, sh, n, nm)"
  unfolding send_to_shown_def
proof (rule ends_party [OF v q], rule ends_each [OF v])
  fix P m g'
  assume "memberList P = ms" "leader P = l" and m: "m \<in> set (memberList P @ [leader P])"
    and v': "links g' = (pp, il, sh, n, nm)"
  with on obtain r' where r': "pp m = Some r'" by (auto simp: all_online_def)
  show "ends (players g' p \<bind> (\<lambda>x. players g' m \<bind> (\<lambda>y.
      if shown_to E (pl_position x) (pl_position y) then sends [To m k] g' else Some g')))
      (pp, il, sh, n, nm)"
    by (rule ends_player [OF v' p], rule ends_player [OF v' r'])
       (use v' r' k in \<open>auto intro!: ends_Some ends_sends\<close>)
qed

section \<open>Operations that change the links\<close>

definition clear_party :: "player_id list \<Rightarrow> (player_id \<Rightarrow> party_id option option) \<Rightarrow> player_id \<Rightarrow> party_id option option" where
  "clear_party ps pp = (\<lambda>p. if p \<in> set ps then Some None else pp p)"

definition clear_invites :: "party_id \<Rightarrow> player_id list \<Rightarrow> (player_id \<Rightarrow> party_id list option) \<Rightarrow> player_id \<Rightarrow> party_id list option" where
  "clear_invites q ps il = (\<lambda>p. if p \<in> set ps then map_option (removeAll q) (il p) else il p)"

lemma links_dom: "links g = (pp, il, sh, n, nm) \<Longrightarrow> il p = None \<longleftrightarrow> pp p = None"
  by (auto simp: links_def getParty_def)

lemma each_setParty:
  assumes "links g = (pp, il, sh, n, nm)" "\<forall>m\<in>set ms. pp m \<noteq> None"
  shows "ends (each (\<lambda>m g. setParty m None g \<bind> sends [To m ClosePrivate, To m (TextMessage t)]) ms g)
    (clear_party ms pp, il, sh, n, nm)"
  using assms
proof (induction ms arbitrary: g pp)
  case Nil
  then show ?case by (simp add: ends_Some clear_party_def)
next
  case (Cons m ms)
  then obtain r where r: "pp m = Some r" by auto
  have eq: "clear_party (m # ms) pp = clear_party ms (pp(m \<mapsto> None))"
    by (auto simp: clear_party_def)
  show ?case unfolding each.simps eq
  proof (rule ends_bind [where v = "(pp(m \<mapsto> None), il, sh, n, nm)"])
    show "ends (setParty m None g \<bind> sends [To m ClosePrivate, To m (TextMessage t)])
        (pp(m \<mapsto> None), il, sh, n, nm)"
      by (rule ends_bind [OF ends_setParty [OF Cons.prems(1) r]]) (rule ends_sends, auto)
  qed (rule Cons.IH, use Cons.prems in \<open>auto\<close>)
qed

lemma each_removeInvitation:
  assumes "links g = (pp, il, sh, n, nm)" "\<forall>p\<in>set vs. pp p \<noteq> None" "pp l \<noteq> None"
  shows "ends (each (\<lambda>i g. removePartyInvitation i q g \<bind> sends [To l (CreatureShield i)]) vs g)
    (pp, clear_invites q vs il, sh, n, nm)"
  using assms
proof (induction vs arbitrary: g il)
  case Nil
  then show ?case by (simp add: ends_Some clear_invites_def)
next
  case (Cons i vs)
  then obtain r k where r: "pp i = Some r" "il i = Some k" using links_dom by fastforce
  have eq: "clear_invites q (i # vs) il = clear_invites q vs (il(i \<mapsto> removeAll q k))"
    by (auto simp: clear_invites_def fun_eq_iff r)
  show ?case unfolding each.simps eq
  proof (rule ends_bind [where v = "(pp, il(i \<mapsto> removeAll q k), sh, n, nm)"])
    show "ends (removePartyInvitation i q g \<bind> sends [To l (CreatureShield i)])
        (pp, il(i \<mapsto> removeAll q k), sh, n, nm)"
      by (rule ends_bind [OF ends_removePartyInvitation [OF Cons.prems(1) r]])
         (rule ends_sends, use Cons.prems in \<open>auto\<close>)
  qed (use Cons in \<open>auto\<close>)
qed

lemma all_online_clear [simp]: "all_online pp s \<Longrightarrow> all_online (clear_party ps pp) s"
  by (auto simp: all_online_def clear_party_def split: prod.splits)

lemma online_clear [simp]: "pp p = Some r \<Longrightarrow> \<exists>r'. clear_party ps pp p = Some r'"
  by (simp add: clear_party_def)

lemma clear_party_upd: "clear_party ms (pp(l \<mapsto> None)) = clear_party (l # ms) pp"
  by (auto simp: clear_party_def)

lemma ends_disband [ends_intros]:
  assumes v: "links g = (pp, il, sh, n, nm)" and q: "sh q = Some (l, ms, vs)"
    and on: "all_online pp (l, ms, vs)" and E: "onDisband E g q"
  shows "ends (disband E q g)
    (clear_party (l # ms) pp, clear_invites q vs il, sh(q := None), n, nm)"
  unfolding disband_def
proof (rule ends_party [OF v q], goal_cases)
  case (1 P)
  obtain r where r: "pp l = Some r" using on by (auto simp: all_online_def)
  have mem: "\<forall>m\<in>set ms. pp m \<noteq> None" and inv: "\<forall>m\<in>set vs. pp m \<noteq> None"
    using on by (auto simp: all_online_def)
  let ?pp = "clear_party (l # ms) pp" and ?il = "clear_invites q vs il"
  have shields: "ends (each (\<lambda>m g. updatePlayerShield m g \<bind> sends (map (\<lambda>m'. To m' (CreatureSkull m)) ms @
      [To m (CreatureSkull l), To l (CreatureSkull m)])) ms h) (?pp, ?il, sh, n, nm)"
    if h: "links h = (?pp, ?il, sh, n, nm)" for h
  proof (rule ends_each [OF h])
    fix m h'
    assume m: "m \<in> set ms" and h': "links h' = (?pp, ?il, sh, n, nm)"
    have "?pp m = Some None" using m by (simp add: clear_party_def)
    from ends_shield [OF h' this]
    show "ends (updatePlayerShield m h' \<bind> sends (map (\<lambda>m'. To m' (CreatureSkull m)) ms @
      [To m (CreatureSkull l), To l (CreatureSkull m)])) (?pp, ?il, sh, n, nm)"
      by (rule ends_bind) (erule ends_sends, use m in \<open>auto simp: clear_party_def\<close>)
  qed
  show ?case
    apply (simp only: 1 E if_True not_True_eq_False if_False Let_def)
    apply (rule ends_bind [OF ends_setParty [OF v r, of None]])
    apply (rule ends_bind, erule ends_sends, simp)
    apply (rule ends_bind, erule ends_shield, simp)
    apply (rule ends_bind, erule ends_sends, simp)
    apply (rule ends_bind, erule each_removeInvitation, use inv in simp, simp)
    apply (rule ends_bind, erule each_setParty, use mem in simp)
    apply (unfold clear_party_upd)
    apply (rule ends_bind, erule shields)
    apply (auto simp: ends_def links_def getParty_def fun_eq_iff)
    done
qed

text \<open>The state an operation with a boolean result ends in.\<close>

lemma result_bind: "map_option snd (r \<bind> k) = r \<bind> (\<lambda>x. map_option snd (k x))"
  by (cases r) auto

lemma result_if: "map_option snd (if b then r else r') = (if b then map_option snd r else map_option snd r')"
  by simp

lemmas result_simps = result_bind result_if option.map(2) snd_conv

lemma ends_pass:
  assumes v: "links g = (pp, il, sh, n, nm)" and q: "sh q = Some (l, ms, vs)"
    and on: "all_online pp (l, ms, vs)" and p: "pp p = Some (Some q)" "p \<noteq> l"
  shows "ends (map_option snd (passPartyLeadership E q p g))
    (pp, il, sh(q \<mapsto> (p, l # remove1 p ms, vs)), n, nm)"
  unfolding passPartyLeadership_def result_simps
proof (rule ends_party [OF v q], goal_cases)
  case (1 P)
  obtain x where x: "players g p = Some x" "party x = Some q" using links_player [OF v p(1)] by metis
  have on1: "all_online pp (l, remove1 p ms, vs)" and on2: "all_online pp (p, l # remove1 p ms, vs)"
    using on p set_remove1_subset [of p ms] by (auto simp: all_online_def)
  have lp: "(l = p) = False" using p(2) by simp
  show ?case
    apply (simp only: 1 x lp if_False bind.bind_lunit simp_thms Let_def result_simps)
    apply (rule ends_bind [OF ends_upd_party [OF v q, of _ "(l, remove1 p ms, vs)"]])
     apply (simp add: shape_of_def)
    apply (rule ends_bind, erule ends_broadcast, simp, rule on1)
    apply (rule ends_bind, erule ends_upd_party [where s' = "(p, l # remove1 p ms, vs)"], simp)
     apply (simp add: shape_of_def)
    apply (rule ends_bind, erule ends_updateShared, simp, rule on2)
    apply (rule ends_party, assumption, simp)
    apply (rule ends_bind, erule ends_sends)
     apply (use on2 in \<open>auto simp: all_online_def\<close>)[1]
    apply (simp add: ends_Some)
    done
qed

lemma ends_removeInvite:
  assumes v: "links g = (pp, il, sh, n, nm)" and q: "sh q = Some (l, ms, vs)"
    and on: "all_online pp (l, ms, vs)" and p: "p \<in> set vs" "il p = Some k"
    and E: "\<forall>g. onDisband E g q" and d: "distinct vs"
  shows "ends (map_option snd (removeInvite E q p b g))
    (if ms = [] \<and> vs = [p] then clear_party [l] pp else pp,
     if b then il(p \<mapsto> removeAll q k) else il,
     if ms = [] \<and> vs = [p] then sh(q := None) else sh(q \<mapsto> (l, ms, remove1 p vs)), n, nm)"
  unfolding removeInvite_def result_simps
proof (rule ends_party [OF v q], goal_cases)
  case (1 P)
  obtain r r' where r: "pp p = Some r" "pp l = Some r'"
    using all_onlineD [OF on, of p] all_onlineD [OF on, of l] p by auto
  have on1: "all_online pp (l, ms, remove1 p vs)"
    using set_remove1_subset [of p vs] by (intro all_online_sub [OF on]) auto
  have e: "remove1 p vs = [] \<longleftrightarrow> vs = [p]" using d p(1) by (cases vs) auto
  let ?il = "if b then il(p \<mapsto> removeAll q k) else il"
  show ?case
    apply (simp only: 1 p not_True_eq_False if_False result_simps)
    apply (rule ends_bind [OF ends_upd_party [OF v q, of _ "(l, ms, remove1 p vs)"]])
     apply (simp add: shape_of_def)
    apply (rule ends_bind, erule ends_sends, simp add: r)
    apply (rule ends_bind [where v = "(pp, ?il, sh(q \<mapsto> (l, ms, remove1 p vs)), n, nm)"])
    subgoal using r p by (auto intro: ends_removePartyInvitation ends_Some)
    subgoal premises prems for g1 g2 g3
    proof (rule ends_party [OF prems(3), of q l ms "remove1 p vs"], simp, goal_cases)
      case (1 P)
      then have e': "party_empty P \<longleftrightarrow> ms = [] \<and> vs = [p]" by (simp add: party_empty_def e)
      show ?case
      proof (cases "ms = [] \<and> vs = [p]")
        case True
        have "ends (disband E q g3) (clear_party [l] pp, ?il, sh(q := None), n, nm)"
          using ends_disband [OF prems(3), of q l ms "remove1 p vs" E] on1 E True
          by (simp add: clear_invites_def)
        with True e' show ?thesis by simp
      next
        case False
        with e' prems(3) show ?thesis by (auto intro!: ends_Some)
      qed
    qed
    done
qed

lemma ends_invite:
  assumes v: "links g = (pp, il, sh, n, nm)" and q: "sh q = Some (l, ms, vs)"
    and on: "all_online pp (l, ms, vs)" and p: "pp p = Some r" "il p = Some k"
    and new: "p \<notin> set vs" "q \<notin> set k"
  shows "ends (map_option snd (invitePlayer q p g))
    (pp, il(p \<mapsto> q # k), sh(q \<mapsto> (l, ms, vs @ [p])), n, nm)"
  unfolding invitePlayer_def result_simps
proof (rule ends_party [OF v q], goal_cases)
  case (1 P)
  obtain x where x: "players g p = Some x" using links_player [OF v p(1)] by metis
  obtain r' where r': "pp l = Some r'" using all_onlineD [OF on, of l] by auto
  show ?case
    apply (simp only: 1 x isPlayerInvited_def new if_False bind.bind_lunit result_simps)
    apply (rule ends_bind [where v = "(pp, il, sh, n, nm)"])
    subgoal using r' v by (auto intro!: ends_Some ends_bind [OF ends_shield] ends_sends)
    apply (rule ends_bind, erule ends_sends, simp add: r')
    apply (rule ends_bind, erule ends_upd_party [where s' = "(l, ms, vs @ [p])"], rule q)
     apply (simp add: shape_of_def)
    apply (rule ends_bind, erule ends_sends, simp add: r' p)
    apply (rule ends_bind, erule ends_addPartyInvitation, rule p, rule p, rule new)
    apply (rule ends_player, assumption, rule r')
    apply (rule ends_bind, erule ends_sends, simp add: p)
    apply (erule ends_Some)
    done
qed

lemma ends_join:
  assumes v: "links g = (pp, il, sh, n, nm)" and q: "sh q = Some (l, ms, vs)"
    and on: "all_online pp (l, ms, vs)" and p: "p \<in> set vs" "il p = Some k"
    and E: "onJoin E g q p" and nm: "nm l \<noteq> Some []"
  shows "ends (map_option snd (joinParty E q p g))
    (pp(p \<mapsto> Some q), il(p \<mapsto> removeAll q k), sh(q \<mapsto> (l, ms @ [p], remove1 p vs)), n, nm)"
  unfolding joinParty_def result_simps
proof (simp only: E not_True_eq_False if_False, rule ends_party [OF v q], goal_cases)
  case (1 P)
  obtain r r' where r: "pp p = Some r" "pp l = Some r'"
    using all_onlineD [OF on, of p] all_onlineD [OF on, of l] p by auto
  have on1: "all_online pp (l, ms, remove1 p vs)"
    using set_remove1_subset [of p vs] by (intro all_online_sub [OF on]) auto
  have on2: "all_online (pp(p \<mapsto> Some q)) (l, ms @ [p], remove1 p vs)"
    using on1 p by (auto simp: all_online_def)
  have on3: "\<forall>m\<in>set (l # ms). pp m \<noteq> None" using on by (simp add: all_online_def)
  obtain rl where rl: "(pp(p \<mapsto> Some q)) l = Some rl" using r by (cases "p = l") auto
  show ?case
    apply (simp only: 1 p simp_thms if_False result_simps)
    apply (rule ends_bind [OF ends_upd_party [OF v q, of _ "(l, ms, remove1 p vs)"]])
     apply (simp add: shape_of_def)
    apply (rule ends_player, assumption, rule r)
    apply (rule ends_bind, erule ends_broadcast, simp, rule on1)
    apply (rule ends_bind, erule ends_setParty [where q = "Some q"], rule r)
    apply (rule ends_bind, erule ends_shield, simp)
    apply (rule ends_bind, erule ends_sends)
    subgoal using on3 by (auto simp: sendPlayerPartyIcons_def)
    apply (rule ends_bind, erule ends_upd_party [where s' = "(l, ms @ [p], remove1 p vs)"], simp)
     apply (simp add: shape_of_def)
    apply (rule ends_bind, erule ends_status, simp, rule on2, simp)
    apply (rule ends_bind, erule ends_removePartyInvitation, simp, rule p)
    apply (rule ends_bind, erule ends_updateShared, simp, rule on2)
    apply (rule ends_player, assumption, rule rl)
    apply (subst if_not_P, use nm in force)
    apply (simp only: bind.bind_lunit)
    apply (rule ends_bind, erule ends_sends, simp)
    apply (simp add: ends_Some)
    done
qed

lemma ends_leave_rest:
  assumes v: "links g = (pp, il, sh, n, nm)" and q: "sh q = Some (l, ms, vs)"
    and on: "all_online pp (l, ms, vs)" and p: "pp p = Some r" and E: "\<forall>g. onDisband E g q"
  shows "ends (leave_rest E q p name missing g)
    (if missing \<or> remove1 p ms = [] \<and> vs = []
     then (clear_party (l # remove1 p ms) (pp(p \<mapsto> None)), clear_invites q vs il, sh(q := None), n, nm)
     else (pp(p \<mapsto> None), il, sh(q \<mapsto> (l, remove1 p ms, vs)), n, nm))"
proof -
  have on1: "all_online (pp(p \<mapsto> None)) (l, remove1 p ms, vs)"
    using on set_remove1_subset [of p ms] by (auto simp: all_online_def)
  then have on2: "\<forall>m\<in>set (l # remove1 p ms). (pp(p \<mapsto> None)) m \<noteq> None"
    by (simp only: all_online_def prod.case) auto
  show ?thesis
    unfolding leave_rest_def
    apply (rule ends_bind [OF ends_upd_party [OF v q, of _ "(l, remove1 p ms, vs)"]])
     apply (simp add: shape_of_def)
    apply (rule ends_bind, erule ends_setParty [where q = None], rule p)
    apply (rule ends_bind, erule ends_sends, simp)
    apply (rule ends_bind, erule ends_shield, simp)
    apply (rule ends_party, assumption, simp)
    apply (rule ends_bind, erule ends_sends)
    subgoal using on2 by (auto simp: sendPlayerPartyIcons_def)
    apply (rule ends_bind, erule ends_updateShared, simp, rule on1)
    apply (rule ends_bind, erule ends_clearPoints, simp, rule on1)
    apply (rule ends_bind, erule ends_broadcast, simp, rule on1)
    apply (rule ends_party, assumption, simp)
    subgoal premises prems for _ _ _ _ _ _ _ _ h P
    proof -
      have h: "links h = (pp(p \<mapsto> None), il, sh(q \<mapsto> (l, remove1 p ms, vs)), n, nm)" using prems by simp
      have "party_empty P \<longleftrightarrow> remove1 p ms = [] \<and> vs = []" using prems by (simp add: party_empty_def)
      then show ?thesis
        using ends_disband [OF h, of q l "remove1 p ms" vs E] on1 E h by (auto intro: ends_Some)
    qed
    done
qed

section \<open>The invariant\<close>

text \<open>
  Pointers in both directions agree: a party's leader and members are exactly the players whose
  party pointer is that party, its invitees exactly the players who hold its invitation, and no
  pointer leads to a party that was deleted.
\<close>

definition holds_invite :: "(player_id \<Rightarrow> party_id list option) \<Rightarrow> player_id \<Rightarrow> party_id \<Rightarrow> bool" where
  "holds_invite il p q \<longleftrightarrow> (\<exists>k. il p = Some k \<and> q \<in> set k)"

definition fits ::
    "(player_id \<Rightarrow> party_id option option) \<Rightarrow> (player_id \<Rightarrow> party_id list option) \<Rightarrow>
     party_id \<Rightarrow> party_shape option \<Rightarrow> bool" where
  "fits pp il q s = (case s of
     None \<Rightarrow> (\<forall>p. pp p \<noteq> Some (Some q) \<and> \<not> holds_invite il p q)
   | Some (l, ms, vs) \<Rightarrow> distinct (l # ms @ vs) \<and>
       (\<forall>p. pp p = Some (Some q) \<longleftrightarrow> p \<in> set (l # ms)) \<and>
       (\<forall>p. holds_invite il p q \<longleftrightarrow> p \<in> set vs))"

definition linked :: "links \<Rightarrow> bool" where
  "linked v = (case v of (pp, il, sh, n, nm) \<Rightarrow>
     (\<forall>q. fits pp il q (sh q)) \<and>
     (\<forall>q. sh q \<noteq> None \<longrightarrow> q < n) \<and>
     (\<forall>p k. il p = Some k \<longrightarrow> distinct k) \<and>
     (\<forall>p. il p = None \<longleftrightarrow> pp p = None) \<and>
     (\<forall>p. nm p \<noteq> Some []))"

text \<open>No party consists of its leader alone.\<close>

definition peopled :: "links \<Rightarrow> bool" where
  "peopled v = (case v of (pp, il, sh, n, nm) \<Rightarrow>
     \<forall>q l ms vs. sh q = Some (l, ms, vs) \<longrightarrow> ms \<noteq> [] \<or> vs \<noteq> [])"

lemma linkedD:
  assumes "linked (pp, il, sh, n, nm)"
  shows "fits pp il q (sh q)" "sh q \<noteq> None \<Longrightarrow> q < n" "il p = Some k \<Longrightarrow> distinct k"
    "il p = None \<longleftrightarrow> pp p = None" "nm p \<noteq> Some []"
  using assms by (auto simp: linked_def)

lemma linked_party:
  assumes "linked (pp, il, sh, n, nm)" "sh q = Some (l, ms, vs)"
  shows "distinct (l # ms @ vs)" "pp p = Some (Some q) \<longleftrightarrow> p \<in> set (l # ms)"
    "holds_invite il p q \<longleftrightarrow> p \<in> set vs"
  using linkedD(1) [OF assms(1), of q] assms(2) by (auto simp: fits_def)

lemma linked_pointer: "linked (pp, il, sh, n, nm) \<Longrightarrow> pp p = Some (Some q) \<Longrightarrow> \<exists>s. sh q = Some s"
  using linkedD(1) [of pp il sh n nm q] by (cases "sh q") (auto simp: fits_def)

lemma linked_invitation:
  "linked (pp, il, sh, n, nm) \<Longrightarrow> il p = Some k \<Longrightarrow> q \<in> set k \<Longrightarrow> \<exists>s. sh q = Some s"
  using linkedD(1) [of pp il sh n nm q] by (cases "sh q") (auto simp: fits_def holds_invite_def)

lemma linked_online:
  assumes "linked (pp, il, sh, n, nm)" "sh q = Some (l, ms, vs)"
  shows "all_online pp (l, ms, vs)"
proof -
  have "pp p \<noteq> None" if p: "p \<in> set (l # ms @ vs)" for p
  proof (cases "p \<in> set vs")
    case True
    then have "il p \<noteq> None" using linked_party(3) [OF assms, of p] by (auto simp: holds_invite_def)
    then show ?thesis using linkedD(4) [OF assms(1), of p] by simp
  next
    case False
    then show ?thesis using p linked_party(2) [OF assms, of p] by auto
  qed
  then show ?thesis by (simp add: all_online_def)
qed

text \<open>A change that concerns the pointers to one party only.\<close>

lemma linked_change:
  assumes "linked (pp, il, sh, n, nm)"
    and "\<And>p q'. q' \<noteq> q \<Longrightarrow> pp' p = Some (Some q') \<longleftrightarrow> pp p = Some (Some q')"
    and "\<And>p q'. q' \<noteq> q \<Longrightarrow> holds_invite il' p q' \<longleftrightarrow> holds_invite il p q'"
    and "fits pp' il' q s" and "q < n'" and "n \<le> n'"
    and "\<And>p k. il' p = Some k \<Longrightarrow> distinct k" "\<And>p. il' p = None \<longleftrightarrow> pp' p = None"
  shows "linked (pp', il', sh(q := s), n', nm)"
proof -
  have "fits pp' il' q' (sh q')" if "q' \<noteq> q" for q'
    using linkedD(1) [OF assms(1), of q'] that assms(2,3) [OF that]
    by (cases "sh q'") (auto simp: fits_def)
  moreover have "sh q' \<noteq> None \<Longrightarrow> q' < n'" for q'
    using linkedD(2) [OF assms(1), of q'] assms(6) by simp
  ultimately show ?thesis using assms linkedD(5) [OF assms(1)] by (auto simp: linked_def)
qed

lemma linked_id: "linked (pp, il, sh, n, nm) \<Longrightarrow> sh q = Some s \<Longrightarrow> q < n"
  using linkedD(2) [of pp il sh n nm q] by simp

lemma holds_invite_upd:
  "holds_invite (il(p \<mapsto> k)) p' q \<longleftrightarrow> (if p' = p then q \<in> set k else holds_invite il p' q)"
  by (simp add: holds_invite_def)

lemma holds_invite_clear:
  "holds_invite (clear_invites q vs il) p q' \<longleftrightarrow> (if p \<in> set vs \<and> q' = q then False else holds_invite il p q')"
  by (auto simp: holds_invite_def clear_invites_def)

lemmas fits_simps = fits_def holds_invite_upd holds_invite_clear clear_party_def

lemma linked_invite:
  assumes v: "linked (pp, il, sh, n, nm)" and q: "sh q = Some (l, ms, vs)" and k: "il p = Some k"
    and new: "q \<notin> set k" "pp p \<noteq> Some (Some q)"
  shows "linked (pp, il(p \<mapsto> q # k), sh(q \<mapsto> (l, ms, vs @ [p])), n, nm)"
proof (rule linked_change [OF v])
  have "holds_invite il p q' \<longleftrightarrow> q' \<in> set k" for q' using k by (simp add: holds_invite_def)
  with new show "fits pp (il(p \<mapsto> q # k)) q (Some (l, ms, vs @ [p]))"
    using linked_party [OF v q] linked_party(2) [OF v q, of p] by (auto simp: fits_simps)
qed (use v k new linkedD(4) [OF v, of p] in \<open>auto simp: holds_invite_def linkedD linked_id [OF v q] split: if_splits dest: linkedD(3)\<close>)

lemma linked_join:
  assumes v: "linked (pp, il, sh, n, nm)" and q: "sh q = Some (l, ms, vs)" and k: "il p = Some k"
    and p: "p \<in> set vs" "pp p = Some None"
  shows "linked (pp(p \<mapsto> Some q), il(p \<mapsto> removeAll q k), sh(q \<mapsto> (l, ms @ [p], remove1 p vs)), n, nm)"
proof (rule linked_change [OF v])
  show "fits (pp(p \<mapsto> Some q)) (il(p \<mapsto> removeAll q k)) q (Some (l, ms @ [p], remove1 p vs))"
    using linked_party [OF v q] p by (auto simp: fits_simps)
qed (use v k p in \<open>auto simp: holds_invite_def linkedD linked_id [OF v q] distinct_removeAll split: if_splits dest: linkedD(3)\<close>)

lemma linked_revoke:
  assumes v: "linked (pp, il, sh, n, nm)" and q: "sh q = Some (l, ms, vs)" and k: "il p = Some k"
  shows "linked (pp, il(p \<mapsto> removeAll q k), sh(q \<mapsto> (l, ms, remove1 p vs)), n, nm)"
proof (rule linked_change [OF v])
  show "fits pp (il(p \<mapsto> removeAll q k)) q (Some (l, ms, remove1 p vs))"
    using linked_party [OF v q] by (auto simp: fits_simps)
qed (use v k linkedD(4) [OF v, of p] in \<open>auto simp: holds_invite_def linkedD linked_id [OF v q] distinct_removeAll split: if_splits dest: linkedD(3)\<close>)

lemma linked_pass:
  assumes v: "linked (pp, il, sh, n, nm)" and q: "sh q = Some (l, ms, vs)" and p: "p \<in> set ms"
  shows "linked (pp, il, sh(q \<mapsto> (p, l # remove1 p ms, vs)), n, nm)"
proof (rule linked_change [OF v])
  show "fits pp il q (Some (p, l # remove1 p ms, vs))"
    using linked_party [OF v q] p by (auto simp: fits_simps)
qed (use v in \<open>auto simp: linkedD linked_id [OF v q] dest: linkedD(3)\<close>)

lemma linked_leave:
  assumes v: "linked (pp, il, sh, n, nm)" and q: "sh q = Some (l, ms, vs)" and p: "p \<in> set ms"
  shows "linked (pp(p \<mapsto> None), il, sh(q \<mapsto> (l, remove1 p ms, vs)), n, nm)"
proof (rule linked_change [OF v])
  have "pp p = Some (Some q)" using linked_party(2) [OF v q, of p] p by simp
  then show "(pp(p \<mapsto> None)) p' = Some (Some q') \<longleftrightarrow> pp p' = Some (Some q')"
    if "q' \<noteq> q" for p' q' using that by auto
  show "fits (pp(p \<mapsto> None)) il q (Some (l, remove1 p ms, vs))"
    using linked_party [OF v q] p by (auto simp: fits_simps)
qed (use v p linkedD(4) [OF v, of p] linked_party(2) [OF v q, of p] in \<open>auto simp: linkedD linked_id [OF v q] dest: linkedD(3)\<close>)

lemma linked_disband:
  assumes v: "linked (pp, il, sh, n, nm)" and q: "sh q = Some (l, ms, vs)"
  shows "linked (clear_party (l # ms) pp, clear_invites q vs il, sh(q := None), n, nm)"
proof (rule linked_change [OF v])
  have "pp p = Some (Some q)" if "p \<in> set (l # ms)" for p using linked_party(2) [OF v q, of p] that by simp
  then show "clear_party (l # ms) pp p = Some (Some q') \<longleftrightarrow> pp p = Some (Some q')" if "q' \<noteq> q" for p q'
    using that by (auto simp: clear_party_def)
  show "fits (clear_party (l # ms) pp) (clear_invites q vs il) q None"
    using linked_party [OF v q] by (auto simp: fits_simps)
  show "distinct k" if "clear_invites q vs il p = Some k" for p k
    using that v by (auto simp: clear_invites_def distinct_removeAll split: if_splits dest: linkedD(3))
  show "clear_invites q vs il p = None \<longleftrightarrow> clear_party (l # ms) pp p = None" for p
    using linkedD(4) [OF v, of p] linked_party(2) [OF v q, of p]
    by (auto simp: clear_invites_def clear_party_def)
qed (auto simp: holds_invite_clear linked_id [OF v q])

lemma linked_new:
  assumes v: "linked (pp, il, sh, n, nm)" and p: "pp p = Some None"
  shows "linked (pp(p \<mapsto> Some n), il, sh(n \<mapsto> (p, [], [])), Suc n, nm)"
proof (rule linked_change [OF v])
  have "sh n = None" using linkedD(2) [OF v, of n] by (cases "sh n") auto
  then show "fits (pp(p \<mapsto> Some n)) il n (Some (p, [], []))"
    using linkedD(1) [OF v, of n] p by (auto simp: fits_simps)
qed (use v p in \<open>auto simp: linkedD dest: linkedD(3)\<close>)

lemma clear_invites_Nil [simp]: "clear_invites q [] il = il"
  by (simp add: clear_invites_def)

lemma linked_removed:
  assumes v: "linked (pp, il, sh, n, nm)" and q: "sh q = Some (l, ms, vs)" and k: "il p = Some k"
    and p: "p \<in> set vs"
  shows "linked (if ms = [] \<and> vs = [p] then clear_party [l] pp else pp, il(p \<mapsto> removeAll q k),
     if ms = [] \<and> vs = [p] then sh(q := None) else sh(q \<mapsto> (l, ms, remove1 p vs)), n, nm)"
proof (cases "ms = [] \<and> vs = [p]")
  case True
  then show ?thesis
    using linked_disband [OF linked_revoke [OF v q k], of q l ms "remove1 p vs"] by simp
next
  case False
  show ?thesis unfolding if_not_P [OF False] by (rule linked_revoke [OF v q k])
qed

definition game_ok :: "game \<Rightarrow> bool" where
  "game_ok g \<longleftrightarrow> linked (links g) \<and> peopled (links g)"

definition safe :: "game option \<Rightarrow> bool" where
  "safe r \<longleftrightarrow> (\<exists>g. r = Some g \<and> game_ok g)"

lemma safe_ends: "ends r v \<Longrightarrow> linked v \<Longrightarrow> peopled v \<Longrightarrow> safe r"
  by (auto simp: ends_def safe_def game_ok_def)

lemma safe_Some [simp]: "safe (Some g) \<longleftrightarrow> game_ok g"
  by (simp add: safe_def)

lemma peopled_upd:
  "peopled (pp, il, sh, n, nm) \<Longrightarrow> ms \<noteq> [] \<or> vs \<noteq> [] \<Longrightarrow> peopled (pp', il', sh(q \<mapsto> (l, ms, vs)), n', nm')"
  by (simp add: peopled_def)

lemma peopled_del: "peopled (pp, il, sh, n, nm) \<Longrightarrow> peopled (pp', il', sh(q := None), n', nm')"
  by (simp add: peopled_def)

lemma peopled_removed:
  assumes "peopled (pp, il, sh, n, nm)" "p \<in> set vs" "distinct vs"
  shows "peopled (pp', il', if ms = [] \<and> vs = [p] then sh(q := None) else sh(q \<mapsto> (l, ms, remove1 p vs)), n', nm')"
proof -
  have "remove1 p vs = [] \<longleftrightarrow> vs = [p]" using assms(2,3) by (cases vs) auto
  then show ?thesis using peopled_del [OF assms(1)] peopled_upd [OF assms(1)] by auto
qed

text \<open>The links of a state, taken apart.\<close>

lemma game_ok_links:
  assumes "game_ok g"
  obtains pp il sh n nm where "links g = (pp, il, sh, n, nm)" "linked (pp, il, sh, n, nm)"
    "peopled (pp, il, sh, n, nm)"
  using assms by (metis game_ok_def prod.exhaust)

lemma removeInvite_safe:
  assumes v: "links g = (pp, il, sh, n, nm)" "linked (pp, il, sh, n, nm)" "peopled (pp, il, sh, n, nm)"
    and q: "sh q = Some (l, ms, vs)" and p: "p \<in> set vs" and E: "\<forall>g q. onDisband E g q"
  shows "safe (map_option snd (removeInvite E q p True g))"
proof -
  have d: "distinct vs" using linked_party(1) [OF v(2) q] by simp
  obtain k where k: "il p = Some k" using linked_party(3) [OF v(2) q, of p] p by (auto simp: holds_invite_def)
  have E': "\<forall>g. onDisband E g q" using E by simp
  show ?thesis
    using ends_removeInvite [OF v(1) q linked_online [OF v(2) q] p k E' d, of True]
      linked_removed [OF v(2) q k p] peopled_removed [OF v(3) p d]
    by (auto intro!: safe_ends simp del: fun_upd_apply)
qed

section \<open>Every request keeps the invariant\<close>

lemma linked_leave_rest:
  assumes v: "linked (pp, il, sh, n, nm)" "peopled (pp, il, sh, n, nm)"
    and q: "sh q = Some (l, ms, vs)" and p: "p \<in> set (l # ms)"
    and miss: "missing \<longleftrightarrow> p = l"
    and res: "v' = (if missing \<or> remove1 p ms = [] \<and> vs = []
     then (clear_party (l # remove1 p ms) (pp(p \<mapsto> None)), clear_invites q vs il, sh(q := None), n, nm)
     else (pp(p \<mapsto> None), il, sh(q \<mapsto> (l, remove1 p ms, vs)), n, nm))"
  shows "linked v'" "peopled v'"
proof -
  have d: "distinct (l # ms @ vs)" by (rule linked_party(1) [OF v(1) q])
  show "linked v'"
  proof (cases "p = l")
    case True
    with d have "clear_party (l # remove1 p ms) (pp(p \<mapsto> None)) = clear_party (l # ms) pp"
      by (auto simp: clear_party_def remove1_idem)
    with True miss res linked_disband [OF v(1) q] show ?thesis by simp
  next
    case False
    with p have pm: "p \<in> set ms" by simp
    note l = linked_leave [OF v(1) q pm]
    show ?thesis
    proof (cases "remove1 p ms = [] \<and> vs = []")
      case True
      with linked_disband [OF l, of q l "remove1 p ms" vs] res show ?thesis by simp
    next
      case no: False
      with False miss res l show ?thesis by auto
    qed
  qed
  show "peopled v'" using res peopled_del [OF v(2)] peopled_upd [OF v(2)] by auto
qed

lemma leave_rest_safe:
  assumes v: "links g = (pp, il, sh, n, nm)" "linked (pp, il, sh, n, nm)" "peopled (pp, il, sh, n, nm)"
    and q: "sh q = Some (l, ms, vs)" and p: "p \<in> set (l # ms)"
    and miss: "missing \<longleftrightarrow> p = l" and E: "\<forall>g q. onDisband E g q"
  shows "safe (leave_rest E q p name missing g)"
proof -
  have pp: "pp p = Some (Some q)" using linked_party(2) [OF v(2) q, of p] p by simp
  have E': "\<forall>g. onDisband E g q" using E by simp
  from safe_ends [OF ends_leave_rest [OF v(1) q linked_online [OF v(2) q] pp E']
      linked_leave_rest [OF v(2,3) q p miss refl]]
  show ?thesis .
qed

lemma leave_as_leader_safe:
  assumes v: "links g = (pp, il, sh, n, nm)" "linked (pp, il, sh, n, nm)" "peopled (pp, il, sh, n, nm)"
    and q: "sh q = Some (p, m # ms, vs)" and E: "\<forall>g q. onDisband E g q"
  shows "safe (map_option snd (passPartyLeadership E q m g) \<bind> leave_rest E q p name False)"
proof -
  let ?sh = "sh(q \<mapsto> (m, p # ms, vs))"
  have m: "pp m = Some (Some q)" "m \<noteq> p" "p \<in> set (m # p # ms)"
    using linked_party(1) [OF v(2) q] linked_party(2) [OF v(2) q, of m] by auto
  have "ends (map_option snd (passPartyLeadership E q m g)) (pp, il, ?sh, n, nm)"
    using ends_pass [OF v(1) q linked_online [OF v(2) q] m(1,2)] by simp
  then obtain g' where g': "map_option snd (passPartyLeadership E q m g) = Some g'"
    "links g' = (pp, il, ?sh, n, nm)" by (auto simp: ends_def)
  have l1: "linked (pp, il, ?sh, n, nm)" using linked_pass [OF v(2) q, of m] by simp
  have p1: "peopled (pp, il, ?sh, n, nm)" by (rule peopled_upd [OF v(3)]) simp
  have q1: "?sh q = Some (m, p # ms, vs)" and no: "False \<longleftrightarrow> p = m" using m by auto
  show ?thesis unfolding g'(1) bind.bind_lunit by (rule leave_rest_safe [OF g'(2) l1 p1 q1 m(3) no E])
qed

lemma leaveParty_safe:
  assumes g: "game_ok g" and x: "players g p = Some x" "party x = Some q"
    and E: "\<forall>g q. onDisband E g q"
  shows "safe (map_option snd (leaveParty E q p g))"
proof -
  obtain pp il sh n nm where v: "links g = (pp, il, sh, n, nm)" "linked (pp, il, sh, n, nm)"
    "peopled (pp, il, sh, n, nm)" using g by (rule game_ok_links)
  have pp: "pp p = Some (Some q)" using v(1) x by (auto simp: links_def getParty_def)
  obtain l ms vs where q: "sh q = Some (l, ms, vs)" using linked_pointer [OF v(2) pp] by auto
  obtain P where P: "parties g q = Some P" "leader P = l" "memberList P = ms" "inviteList P = vs"
    using links_party [OF v(1) q] by metis
  have pm: "p \<in> set (l # ms)" using linked_party(2) [OF v(2) q, of p] pp by simp
  define missing where "missing \<longleftrightarrow> l = p \<and> (ms = [] \<or> length ms = 1 \<and> vs = [])"
  have run: "map_option snd (leaveParty E q p g) =
      (if onLeave E g q p then
         (if l = p \<and> \<not> missing then map_option snd (passPartyLeadership E q (hd ms) g) else Some g)
         \<bind> leave_rest E q p (pl_name x) missing else Some g)"
    by (auto simp: leaveParty_def P x missing_def Let_def result_simps)
  show ?thesis
  proof (cases "l = p \<and> \<not> missing")
    case False
    then have "missing \<longleftrightarrow> p = l" by (auto simp: missing_def)
    from leave_rest_safe [OF v q pm this E] False g show ?thesis by (auto simp: run)
  next
    case True
    then obtain m ms' where "ms = m # ms'" by (cases ms) (auto simp: missing_def)
    with True leave_as_leader_safe [OF v, of q p m ms' vs E] q E g show ?thesis by (auto simp: run)
  qed
qed

text \<open>Reading pointers in a state that satisfies the invariant.\<close>

lemma links_get: "links g = (pp, il, sh, n, nm) \<Longrightarrow> getParty g = pp"
  by (simp add: links_def)

lemma links_none: "links g = (pp, il, sh, n, nm) \<Longrightarrow> players g p = None \<longleftrightarrow> pp p = None"
  by (auto simp: links_def getParty_def)

lemma isInviting_links:
  assumes v: "links g = (pp, il, sh, n, nm)" "linked (pp, il, sh, n, nm)" and p: "pp p = Some r"
  shows "isInviting g p i = Some (\<exists>q ms vs. r = Some q \<and> sh q = Some (p, ms, vs) \<and> i \<in> set vs)"
proof (cases r)
  case None
  then show ?thesis using p by (simp add: isInviting_def links_get [OF v(1)])
next
  case (Some q)
  then obtain l ms vs where q: "sh q = Some (l, ms, vs)" using linked_pointer [OF v(2)] p by fastforce
  obtain P where "parties g q = Some P" "leader P = l" "memberList P = ms" "inviteList P = vs"
    using links_party [OF v(1) q] by metis
  then show ?thesis using p Some q by (simp add: isInviting_def isPlayerInvited_def links_get [OF v(1)])
qed

lemma led_party_links:
  assumes v: "links g = (pp, il, sh, n, nm)" "linked (pp, il, sh, n, nm)" and p: "pp p = Some r"
  shows "led_party g p = Some None \<or>
    (\<exists>q ms vs. r = Some q \<and> led_party g p = Some (Some q) \<and> sh q = Some (p, ms, vs))"
proof (cases r)
  case None
  then show ?thesis using p by (simp add: led_party_def links_get [OF v(1)])
next
  case (Some q)
  then obtain l ms vs where q: "sh q = Some (l, ms, vs)" using linked_pointer [OF v(2)] p by fastforce
  obtain P where "parties g q = Some P" "leader P = l" using links_party [OF v(1) q] by metis
  then show ?thesis using p Some q by (simp add: led_party_def links_get [OF v(1)])
qed

lemma invitePlayer_safe:
  assumes v: "links g = (pp, il, sh, n, nm)" "linked (pp, il, sh, n, nm)"
    and q: "sh q = Some (l, ms, vs)" and i: "pp i = Some r" "r \<noteq> Some q"
    and others: "\<forall>q' l ms vs. q' \<noteq> q \<longrightarrow> sh q' = Some (l, ms, vs) \<longrightarrow> ms \<noteq> [] \<or> vs \<noteq> []"
  shows "safe (map_option snd (invitePlayer q i g))"
proof (cases "i \<in> set vs")
  case True
  obtain P where "parties g q = Some P" "inviteList P = vs" using links_party [OF v(1) q] by metis
  moreover have "peopled (pp, il, sh, n, nm)" unfolding peopled_def prod.case
  proof (intro allI impI)
    fix q' l' ms' vs'
    assume "sh q' = Some (l', ms', vs')"
    then show "ms' \<noteq> [] \<or> vs' \<noteq> []" using others q True by (cases "q' = q") auto
  qed
  ultimately show ?thesis using True v by (simp add: invitePlayer_def isPlayerInvited_def game_ok_def)
next
  case False
  obtain k where k: "il i = Some k" using linkedD(4) [OF v(2), of i] i by auto
  have new: "q \<notin> set k" using linked_party(3) [OF v(2) q, of i] False k by (simp add: holds_invite_def)
  have "linked (pp, il(i \<mapsto> q # k), sh(q \<mapsto> (l, ms, vs @ [i])), n, nm)"
    using linked_invite [OF v(2) q k new] i by simp
  moreover have "peopled (pp, il(i \<mapsto> q # k), sh(q \<mapsto> (l, ms, vs @ [i])), n, nm)"
    using others by (simp add: peopled_def)
  ultimately show ?thesis
    using safe_ends ends_invite [OF v(1) q linked_online [OF v(2) q] i(1) k False new] by blast
qed

lemma new_party_links:
  assumes v: "links g = (pp, il, sh, n, nm)" and p: "pp p = Some r"
  obtains g' where "new_party p g = Some (n, g')"
    "links g' = (pp(p \<mapsto> Some n), il, sh(n \<mapsto> (p, [], [])), Suc n, nm)"
proof -
  let ?P = "\<lparr>ticksMap = Map.empty, memberList = [], inviteList = [], leader = p,
    sharedExpActive = False, sharedExpEnabled = False\<rparr>"
  let ?g = "g\<lparr>parties := (parties g)(n \<mapsto> ?P), next_party := Suc n\<rparr>"
  have n: "next_party g = n" using v by (simp add: links_def)
  have "links ?g = (pp, il, sh(n \<mapsto> (p, [], [])), Suc n, nm)"
    using v by (auto simp: links_def shape_of_def getParty_def fun_eq_iff)
  from ends_setParty [OF this p, of "Some n"] obtain g'
    where "setParty p (Some n) ?g = Some g'"
      "links g' = (pp(p \<mapsto> Some n), il, sh(n \<mapsto> (p, [], [])), Suc n, nm)" by (auto simp: ends_def)
  with that show ?thesis by (simp add: new_party_def n Let_def)
qed

lemma playerInviteToParty_safe:
  assumes g: "game_ok g"
  shows "safe (playerInviteToParty p i g)"
proof -
  obtain pp il sh n nm where v: "links g = (pp, il, sh, n, nm)" "linked (pp, il, sh, n, nm)"
    "peopled (pp, il, sh, n, nm)" using g by (rule game_ok_links)
  show ?thesis
  proof (cases "p = i \<or> pp p = None \<or> pp i = None \<or> isInviting g i p = Some True")
    case True
    then show ?thesis using g links_none [OF v(1)] by (auto simp: playerInviteToParty_def)
  next
    case False
    then obtain r r' where r: "pp p = Some r" "pp i = Some r'" "p \<noteq> i" "isInviting g i p \<noteq> Some True" by auto
    obtain y where y: "players g i = Some y" "party y = r'" using links_player [OF v(1) r(2)] by metis
    have run: "playerInviteToParty p i g =
      (if r' \<noteq> None then sends [To p (TextMessage (pl_name y @ '' is already in a party.''))] g
       else (case r of
         None \<Rightarrow> new_party p g \<bind> (\<lambda>(q, g). map_option snd (invitePlayer q i g))
       | Some q \<Rightarrow> parties g q \<bind> (\<lambda>P. if leader P \<noteq> p then Some g else map_option snd (invitePlayer q i g))))"
      using r y links_none [OF v(1), of p] isInviting_links [OF v(1,2) r(2), of p]
      by (auto simp: playerInviteToParty_def links_get [OF v(1)])
    show ?thesis
    proof (cases r')
      case (Some q)
      have "ends (sends [To p (TextMessage (pl_name y @ '' is already in a party.''))] g) (pp, il, sh, n, nm)"
        by (rule ends_sends [OF v(1)]) (simp add: r)
      with safe_ends [OF this v(2,3)] Some show ?thesis by (simp add: run)
    next
      case inone: None
      show ?thesis
      proof (cases r)
        case None
        obtain g' where g': "new_party p g = Some (n, g')"
          "links g' = (pp(p \<mapsto> Some n), il, sh(n \<mapsto> (p, [], [])), Suc n, nm)"
          using new_party_links [OF v(1) r(1)] by metis
        have "safe (map_option snd (invitePlayer n i g'))"
          by (rule invitePlayer_safe [OF g'(2) linked_new [OF v(2)]])
             (use r None inone v(3) in \<open>auto simp: peopled_def\<close>)
        then show ?thesis using None inone g' by (simp add: run)
      next
        case (Some q)
        then obtain l ms vs where q: "sh q = Some (l, ms, vs)" using linked_pointer [OF v(2)] r by fastforce
        obtain P where P: "parties g q = Some P" using links_party [OF v(1) q] by metis
        have "safe (map_option snd (invitePlayer q i g))"
          by (rule invitePlayer_safe [OF v(1,2) q r(2)]) (use inone v(3) in \<open>auto simp: peopled_def\<close>)
        then show ?thesis using Some inone g P by (simp add: run)
      qed
    qed
  qed
qed

lemma playerJoinParty_safe:
  assumes g: "game_ok g"
  shows "safe (playerJoinParty E p l g)"
proof -
  obtain pp il sh n nm where v: "links g = (pp, il, sh, n, nm)" "linked (pp, il, sh, n, nm)"
    "peopled (pp, il, sh, n, nm)" using g by (rule game_ok_links)
  show ?thesis
  proof (cases "pp p = None \<or> pp l = None \<or> isInviting g l p = Some False")
    case True
    then show ?thesis using g links_none [OF v(1)] by (auto simp: playerJoinParty_def)
  next
    case False
    then obtain r r' where r: "pp p = Some r" "pp l = Some r'" by auto
    with False obtain q ms vs where q: "r' = Some q" "sh q = Some (l, ms, vs)" "p \<in> set vs"
      using isInviting_links [OF v(1,2) r(2), of p] by auto
    obtain P where P: "parties g q = Some P" "leader P = l" using links_party [OF v(1) q(2)] by metis
    obtain k where k: "il p = Some k"
      using linked_party(3) [OF v(2) q(2), of p] q(3) by (auto simp: holds_invite_def)
    have run: "playerJoinParty E p l g = (if r \<noteq> None
        then sends [To p (TextMessage ''You are already in a party.'')] g
        else map_option snd (joinParty E q p g))"
      using r q P links_none [OF v(1)] isInviting_links [OF v(1,2) r(2), of p]
      by (auto simp: playerJoinParty_def links_get [OF v(1)])
    consider "r \<noteq> None" | "r = None" "\<not> onJoin E g q p" | "r = None" "onJoin E g q p" by blast
    then show ?thesis
    proof cases
      case 1
      have "ends (sends [To p (TextMessage ''You are already in a party.'')] g) (pp, il, sh, n, nm)"
        by (rule ends_sends [OF v(1)]) (simp add: r)
      from safe_ends [OF this v(2,3)] 1 show ?thesis by (simp add: run)
    next
      case 2
      then show ?thesis using g by (simp add: run joinParty_def)
    next
      case 3
      have "ends (map_option snd (joinParty E q p g)) (pp(p \<mapsto> Some q), il(p \<mapsto> removeAll q k),
          sh(q \<mapsto> (l, ms @ [p], remove1 p vs)), n, nm)"
        by (rule ends_join [OF v(1) q(2) linked_online [OF v(2) q(2)] q(3) k 3(2) linkedD(5) [OF v(2)]])
      moreover have "linked (pp(p \<mapsto> Some q), il(p \<mapsto> removeAll q k), sh(q \<mapsto> (l, ms @ [p], remove1 p vs)), n, nm)"
        by (rule linked_join [OF v(2) q(2) k q(3)]) (simp add: r 3)
      ultimately show ?thesis using 3 safe_ends peopled_upd [OF v(3)] by (simp add: run)
    qed
  qed
qed

lemma playerRevoke_safe:
  assumes g: "game_ok g" and E: "\<forall>g q. onDisband E g q"
  shows "safe (playerRevokePartyInvitation E p i g)"
proof -
  obtain pp il sh n nm where v: "links g = (pp, il, sh, n, nm)" "linked (pp, il, sh, n, nm)"
    "peopled (pp, il, sh, n, nm)" using g by (rule game_ok_links)
  show ?thesis
  proof (cases "pp p = None \<or> pp i = None \<or> led_party g p = Some None \<or> isInviting g p i = Some False")
    case True
    then show ?thesis using g links_none [OF v(1)] led_party_links [OF v(1,2), of p]
      by (cases "pp p") (auto simp: playerRevokePartyInvitation_def)
  next
    case False
    then obtain r ri where r: "pp p = Some r" "pp i = Some ri" by auto
    with False obtain q ms vs where q: "led_party g p = Some (Some q)" "sh q = Some (p, ms, vs)" "r = Some q"
      using led_party_links [OF v(1,2) r(1)] by auto
    have i: "i \<in> set vs" using False isInviting_links [OF v(1,2) r(1), of i] q by auto
    obtain x y where xy: "players g p = Some x" "players g i = Some y"
      using links_player [OF v(1) r(1)] links_player [OF v(1) r(2)] by metis
    obtain P where P: "parties g q = Some P" "leader P = p" using links_party [OF v(1) q(2)] by metis
    have "ends (sends [To i (TextMessage (pl_name x @ '' has revoked '' @ her_his x @ '' invitation.'')),
        To p (TextMessage (''Invitation for '' @ pl_name y @ '' has been revoked.''))] g) (pp, il, sh, n, nm)"
      by (rule ends_sends [OF v(1)]) (simp add: r)
    then obtain g' where g': "sends [To i (TextMessage (pl_name x @ '' has revoked '' @ her_his x @ '' invitation.'')),
        To p (TextMessage (''Invitation for '' @ pl_name y @ '' has been revoked.''))] g = Some g'"
      "links g' = (pp, il, sh, n, nm)" by (auto simp: ends_def)
    have "playerRevokePartyInvitation E p i g = map_option snd (removeInvite E q i True g')"
      using False q xy P isInviting_links [OF v(1,2) r(1), of i] i g'(1)
      by (auto simp: playerRevokePartyInvitation_def revokeInvitation_def)
    then show ?thesis using removeInvite_safe [OF g'(2) v(2,3) q(2) i E] by simp
  qed
qed

lemma playerPass_safe:
  assumes g: "game_ok g"
  shows "safe (playerPassPartyLeadership E p i g)"
proof -
  obtain pp il sh n nm where v: "links g = (pp, il, sh, n, nm)" "linked (pp, il, sh, n, nm)"
    "peopled (pp, il, sh, n, nm)" using g by (rule game_ok_links)
  show ?thesis
  proof (cases "pp p = None \<or> pp i = None \<or> led_party g p = Some None \<or> pp i \<noteq> pp p \<or> i = p")
    case True
    then show ?thesis using g links_none [OF v(1)] led_party_links [OF v(1,2), of p]
      by (cases "pp p") (auto simp: playerPassPartyLeadership_def isPartner_def links_get [OF v(1)]
        split: option.splits)
  next
    case False
    then obtain r where r: "pp p = Some r" "pp i = Some r" "i \<noteq> p" by auto
    with False obtain q ms vs where q: "led_party g p = Some (Some q)" "sh q = Some (p, ms, vs)" "r = Some q"
      using led_party_links [OF v(1,2) r(1)] by auto
    have i: "i \<in> set ms" using linked_party(2) [OF v(2) q(2), of i] r q by auto
    have "playerPassPartyLeadership E p i g = map_option snd (passPartyLeadership E q i g)"
      using q r links_none [OF v(1)]
      by (simp add: playerPassPartyLeadership_def isPartner_def links_get [OF v(1)])
    moreover have "ends (map_option snd (passPartyLeadership E q i g))
        (pp, il, sh(q \<mapsto> (i, p # remove1 i ms, vs)), n, nm)"
      using ends_pass [OF v(1) q(2) linked_online [OF v(2) q(2)]] r q by simp
    moreover have "linked (pp, il, sh(q \<mapsto> (i, p # remove1 i ms, vs)), n, nm)"
      by (rule linked_pass [OF v(2) q(2) i])
    ultimately show ?thesis using safe_ends peopled_upd [OF v(3)] by simp
  qed
qed

text \<open>What happens to a member of a party and keeps the links.\<close>

lemma with_party_safe:
  assumes g: "game_ok g"
    and f: "\<And>q pp il sh n nm l ms vs. \<lbrakk>links g = (pp, il, sh, n, nm); sh q = Some (l, ms, vs);
      all_online pp (l, ms, vs); pp p = Some (Some q)\<rbrakk> \<Longrightarrow> ends (f q p g) (pp, il, sh, n, nm)"
  shows "safe (with_party f p g)"
proof -
  obtain pp il sh n nm where v: "links g = (pp, il, sh, n, nm)" "linked (pp, il, sh, n, nm)"
    "peopled (pp, il, sh, n, nm)" using g by (rule game_ok_links)
  show ?thesis
  proof (cases "\<exists>q. pp p = Some (Some q)")
    case True
    then obtain q where q: "pp p = Some (Some q)" by auto
    obtain l ms vs where s: "sh q = Some (l, ms, vs)" using linked_pointer [OF v(2) q] by auto
    obtain x where x: "players g p = Some x" "party x = Some q" using links_player [OF v(1) q] by metis
    from safe_ends [OF f [OF v(1) s linked_online [OF v(2) s] q] v(2,3)]
    show ?thesis by (simp add: with_party_def x)
  next
    case False
    then show ?thesis using g v(1)
      by (auto simp: with_party_def links_def getParty_def split: option.split)
  qed
qed

lemma upd_player_safe:
  assumes "game_ok g" "players g p = Some x" "\<And>x. party (f x) = party x"
    "\<And>x. invitePartyList (f x) = invitePartyList x" "\<And>x. pl_name (f x) = pl_name x"
    "\<And>g'. game_ok g' \<Longrightarrow> safe (k g')"
  shows "safe (upd_player p f g \<bind> k)"
proof -
  have "links (g\<lparr>players := (players g)(p \<mapsto> f x)\<rparr>) = links g"
    using assms(2-5) by (auto simp: links_def getParty_def fun_eq_iff)
  then show ?thesis using assms by (simp add: upd_player_def game_ok_def)
qed

lemma ends_setShared:
  assumes v: "links g = (pp, il, sh, n, nm)" and q: "sh q = Some (l, ms, vs)"
    and on: "all_online pp (l, ms, vs)" and p: "pp p = Some r"
  shows "ends (map_option snd (setSharedExperience E q p b g)) (pp, il, sh, n, nm)"
  unfolding setSharedExperience_def result_simps
proof (rule ends_party [OF v q], goal_cases)
  case (1 P)
  obtain g1 where g1: "upd_party q (\<lambda>P. P\<lparr>sharedExpActive := b\<rparr>) g = Some g1"
    "links g1 = (pp, il, sh, n, nm)"
    using ends_upd_party_same [OF v q, of "\<lambda>P. P\<lparr>sharedExpActive := b\<rparr>"] by (auto simp: ends_def shape_of_def)
  obtain en where en: "canEnableSharedExperience E g1 q = Some en"
    using canEnable_total [OF g1(2) q on] by auto
  have "ends (if b then canEnableSharedExperience E g1 q \<bind> (\<lambda>en.
      upd_party q (\<lambda>P. P\<lparr>sharedExpEnabled := en\<rparr>) g1 \<bind>
      sends [To p (TextMessage (if en then ''Shared Experience is now active.''
        else ''Shared Experience has been activated, but some members of your party are inactive.''))])
    else sends [To p (TextMessage ''Shared Experience has been deactivated.'')] g1) (pp, il, sh, n, nm)"
    using p g1 by (auto simp: en shape_of_def
      intro!: ends_sends ends_bind [OF ends_upd_party_same [OF g1(2) q]])
  then have "ends (upd_party q (\<lambda>P. P\<lparr>sharedExpActive := b\<rparr>) g \<bind> (\<lambda>g.
    (if b then canEnableSharedExperience E g q \<bind> (\<lambda>en.
      upd_party q (\<lambda>P. P\<lparr>sharedExpEnabled := en\<rparr>) g \<bind>
      sends [To p (TextMessage (if en then ''Shared Experience is now active.''
        else ''Shared Experience has been activated, but some members of your party are inactive.''))])
    else sends [To p (TextMessage ''Shared Experience has been deactivated.'')] g) \<bind>
    updateAllPartyIcons q)) (pp, il, sh, n, nm)"
    unfolding g1(1) bind.bind_lunit by (rule ends_bind) (erule ends_icons, rule q, rule on)
  then show ?case using v by (auto intro: ends_Some)
qed

lemma ends_share:
  assumes v: "links g = (pp, il, sh, n, nm)" and q: "sh q = Some (l, ms, vs)"
    and on: "all_online pp (l, ms, vs)"
  shows "ends (shareExperience E q e g) (pp, il, sh, n, nm)"
  unfolding shareExperience_def Let_def
  by (rule ends_party [OF v q], rule ends_sends [OF v]) (use on in \<open>auto simp: all_online_def\<close>)

lemma player_moved_safe:
  assumes g: "game_ok g"
  shows "safe (player_moved E p pos g)"
proof (cases "players g p")
  case None
  then show ?thesis using g by (simp add: player_moved_def)
next
  case (Some x)
  show ?thesis unfolding player_moved_def Some option.case
    by (rule upd_player_safe [OF g Some], simp_all)
       (erule with_party_safe, rule ends_bind [OF ends_updateShared], assumption+,
        rule ends_status_move, assumption+)
qed

lemma health_safe: "game_ok g \<Longrightarrow> safe (addCreatureHealth E p g)"
  unfolding addCreatureHealth_def
  by (erule with_party_safe, rule ends_player, assumption+)
     (auto simp: updatePlayerHealth_def intro: ends_shown)

lemma mana_safe: "game_ok g \<Longrightarrow> safe (addPlayerMana E p g)"
  unfolding addPlayerMana_def
  by (erule with_party_safe, rule ends_player, assumption+)
     (auto simp: updatePlayerMana_def intro: ends_shown)

lemma vocation_safe: "game_ok g \<Longrightarrow> safe (with_party (updatePlayerVocation E) p g)"
  by (erule with_party_safe) (auto simp: updatePlayerVocation_def intro: ends_shown)

text \<open>
  Clearing the invitations of a player: while the loop runs, the player still holds the invitations
  already withdrawn, so the invariant is about the list that is left.
\<close>

lemma clear_loop:
  assumes "links g = (pp, il, sh, n, nm)" "linked (pp, il(p \<mapsto> ks), sh, n, nm)"
    "peopled (pp, il, sh, n, nm)" "il p = Some k" "\<forall>g q. onDisband E g q"
  shows "\<exists>pp' sh'. ends (each (\<lambda>q g. map_option snd (removeInvite E q p False g)) ks g) (pp', il, sh', n, nm)
    \<and> linked (pp', il(p \<mapsto> []), sh', n, nm) \<and> peopled (pp', il, sh', n, nm) \<and> pp' p = pp p
    \<and> (\<forall>q. q \<notin> set ks \<longrightarrow> sh' q = sh q)"
  using assms
proof (induction ks arbitrary: g pp sh)
  case Nil
  then show ?case by (auto intro: ends_Some)
next
  case (Cons q ks)
  let ?il = "il(p \<mapsto> q # ks)"
  obtain l ms vs where s: "sh q = Some (l, ms, vs)"
    using linked_invitation [OF Cons.prems(2), of p "q # ks" q] by auto
  have p: "p \<in> set vs" using linked_party(3) [OF Cons.prems(2) s, of p] by (simp add: holds_invite_def)
  have d: "distinct vs" using linked_party(1) [OF Cons.prems(2) s] by simp
  have "distinct (q # ks)" using linkedD(3) [OF Cons.prems(2), of p] by simp
  then have r: "removeAll q (q # ks) = ks" by (simp add: removeAll_id)
  define pp' where "pp' = (if ms = [] \<and> vs = [p] then clear_party [l] pp else pp)"
  define sh' where "sh' = (if ms = [] \<and> vs = [p] then sh(q := None) else sh(q \<mapsto> (l, ms, remove1 p vs)))"
  have lk: "linked (pp', il(p \<mapsto> ks), sh', n, nm)"
    using linked_removed [OF Cons.prems(2) s fun_upd_same p] unfolding r pp'_def sh'_def fun_upd_upd .
  have pe: "peopled (pp', il, sh', n, nm)"
    unfolding sh'_def by (rule peopled_removed [OF Cons.prems(3) p d])
  obtain g' where g': "map_option snd (removeInvite E q p False g) = Some g'" "links g' = (pp', il, sh', n, nm)"
    using ends_removeInvite [OF Cons.prems(1) s linked_online [OF Cons.prems(2) s] p Cons.prems(4) _ d, of E False]
      Cons.prems(5) unfolding pp'_def sh'_def by (auto simp: ends_def)
  have "pp' p = pp p" using linked_party(1) [OF Cons.prems(2) s] p by (auto simp: pp'_def clear_party_def)
  moreover have "q' \<noteq> q \<longrightarrow> sh' q' = sh q'" for q' by (simp add: sh'_def)
  moreover obtain pp2 sh2 where
    "ends (each (\<lambda>q g. map_option snd (removeInvite E q p False g)) ks g') (pp2, il, sh2, n, nm)"
    "linked (pp2, il(p \<mapsto> []), sh2, n, nm)" "peopled (pp2, il, sh2, n, nm)" "pp2 p = pp' p"
    "\<forall>q. q \<notin> set ks \<longrightarrow> sh2 q = sh' q"
    using Cons.IH [OF g'(2) lk pe Cons.prems(4,5)] by blast
  ultimately show ?case by (intro exI [of _ pp2] exI [of _ sh2]) (simp add: g'(1) del: fun_upd_apply)
qed

lemma logout_links:
  assumes v: "links g = (pp, il, sh, n, nm)" "linked (pp, il, sh, n, nm)" "peopled (pp, il, sh, n, nm)"
    and x: "players g p = Some x" and E: "\<forall>g q. onDisband E g q"
  obtains g' pp' sh' where "onRemoveCreature E p g = Some g'"
    "links g' = (pp'(p := None), il(p := None), sh', n, nm(p := None))"
    "linked (pp', il(p \<mapsto> []), sh', n, nm)" "peopled (pp', il, sh', n, nm)" "pp' p = Some (party x)"
    "\<forall>q. q \<notin> set (invitePartyList x) \<longrightarrow> sh' q = sh q"
proof -
  have k: "il p = Some (invitePartyList x)" "pp p = Some (party x)"
    using v(1) x by (auto simp: links_def getParty_def)
  have lk: "linked (pp, il(p \<mapsto> invitePartyList x), sh, n, nm)" using v(2) k by (simp add: fun_upd_idem)
  obtain pp' sh' where l: "ends (each (\<lambda>q g. map_option snd (removeInvite E q p False g)) (invitePartyList x) g)
      (pp', il, sh', n, nm)" "linked (pp', il(p \<mapsto> []), sh', n, nm)" "peopled (pp', il, sh', n, nm)"
    "pp' p = pp p" "\<forall>q. q \<notin> set (invitePartyList x) \<longrightarrow> sh' q = sh q"
    using clear_loop [OF v(1) lk v(3) k(1) E] by blast
  obtain g1 where g1: "each (\<lambda>q g. map_option snd (removeInvite E q p False g)) (invitePartyList x) g = Some g1"
    "links g1 = (pp', il, sh', n, nm)" using l(1) by (auto simp: ends_def)
  have pp': "pp' p = Some (party x)" using l(4) k(2) by simp
  obtain y where y: "players g1 p = Some y" using links_player [OF g1(2) pp'] by metis
  define g2 where "g2 = g1\<lparr>players := (players g1)(p := None)\<rparr>"
  have run: "onRemoveCreature E p g = Some g2"
    by (simp add: onRemoveCreature_def clearPartyInvitations_def x g1(1) upd_player_def y g2_def)
  have l2: "links g2 = (pp'(p := None), il(p := None), sh', n, nm(p := None))"
    using g1(2) by (auto simp: g2_def links_def getParty_def fun_eq_iff)
  from that [OF run l2 l(2,3) pp' l(5)] show ?thesis .
qed

lemma logout_safe:
  assumes g: "game_ok g" and E: "\<forall>g q. onDisband E g q"
    and out: "\<And>x. players g p = Some x \<Longrightarrow> party x = None"
  shows "safe (onRemoveCreature E p g)"
proof (cases "players g p")
  case None
  then show ?thesis using g by (simp add: onRemoveCreature_def)
next
  case (Some x)
  obtain pp il sh n nm where v: "links g = (pp, il, sh, n, nm)" "linked (pp, il, sh, n, nm)"
    "peopled (pp, il, sh, n, nm)" using g by (rule game_ok_links)
  obtain g2 pp' sh' where run: "onRemoveCreature E p g = Some g2"
    and l2: "links g2 = (pp'(p := None), il(p := None), sh', n, nm(p := None))"
    and l: "linked (pp', il(p \<mapsto> []), sh', n, nm)" "peopled (pp', il, sh', n, nm)" "pp' p = Some None"
    using logout_links [OF v Some E] out [OF Some] by metis
  have "fits (pp'(p := None)) (il(p := None)) q (sh' q)" for q
  proof -
    have "(pp'(p := None)) p' = Some (Some q) \<longleftrightarrow> pp' p' = Some (Some q)"
      "holds_invite (il(p := None)) p' q \<longleftrightarrow> holds_invite (il(p \<mapsto> [])) p' q" for p'
      using l(3) by (auto simp: holds_invite_def)
    then show ?thesis using linkedD(1) [OF l(1), of q] unfolding fits_def by presburger
  qed
  then have "linked (links g2)" using l(1) unfolding l2 by (auto simp: linked_def split: if_splits)
  moreover have "peopled (links g2)" using l(2) unfolding l2 by (simp add: peopled_def)
  ultimately show ?thesis by (simp add: run game_ok_def)
qed

section \<open>Runs of the server\<close>

text \<open>
  Players have names. The source never takes a player who logs out out of the party; a run is orderly
  when nobody logs out from inside one.
\<close>

fun orderly :: "game \<Rightarrow> party_event \<Rightarrow> bool" where
  "orderly g (Login p x) \<longleftrightarrow> pl_name x \<noteq> []"
| "orderly g (Logout p) \<longleftrightarrow> (case players g p of None \<Rightarrow> True | Some x \<Rightarrow> party x = None)"
| "orderly g _ \<longleftrightarrow> True"

definition allowed_event :: "party_env \<Rightarrow> game \<Rightarrow> party_event \<Rightarrow> bool" where
  "allowed_event E g e \<longleftrightarrow> (\<forall>g q. onDisband E g q) \<and> orderly g e"

definition party_reach :: "party_env \<Rightarrow> game \<Rightarrow> bool" where
  "party_reach E = reached (party_step E) (allowed_event E) no_players"

lemma login_safe:
  assumes g: "game_ok g" and new: "players g p = None" and x: "pl_name x \<noteq> []" "party x = None" "invitePartyList x = []"
  shows "game_ok (g\<lparr>players := (players g)(p \<mapsto> x)\<rparr>)"
proof -
  obtain pp il sh n nm where v: "links g = (pp, il, sh, n, nm)" "linked (pp, il, sh, n, nm)"
    "peopled (pp, il, sh, n, nm)" using g by (rule game_ok_links)
  have l: "links (g\<lparr>players := (players g)(p \<mapsto> x)\<rparr>) = (pp(p \<mapsto> None), il(p \<mapsto> []), sh, n, nm(p \<mapsto> pl_name x))"
    using v(1) x by (auto simp: links_def getParty_def fun_eq_iff)
  have p: "pp p = None" "il p = None" using v(1) new by (auto simp: links_def getParty_def)
  have "fits (pp(p \<mapsto> None)) (il(p \<mapsto> [])) q (sh q)" for q
  proof -
    have "(pp(p \<mapsto> None)) p' = Some (Some q) \<longleftrightarrow> pp p' = Some (Some q)"
      "holds_invite (il(p \<mapsto> [])) p' q \<longleftrightarrow> holds_invite il p' q" for p'
      using p by (auto simp: holds_invite_def)
    then show ?thesis using linkedD(1) [OF v(2), of q] unfolding fits_def by presburger
  qed
  then show ?thesis using v(2,3) x unfolding game_ok_def l by (auto simp: linked_def peopled_def)
qed

lemma party_step_safe:
  assumes g: "game_ok g" and E: "\<forall>g q. onDisband E g q" and e: "orderly g e"
  shows "safe (party_step E e g)"
proof (cases e)
  case (Login p x)
  then show ?thesis using g e login_safe [OF g, of p "x\<lparr>party := None, invitePartyList := []\<rparr>"] by simp
next
  case (Logout p)
  then show ?thesis using e by (auto intro: logout_safe [OF g E] split: option.splits)
next
  case (Leave p)
  then show ?thesis using g leaveParty_safe [OF g _ _ E]
    by (auto simp: playerLeaveParty_def split: option.split)
next
  case (EnableShared p b)
  have "safe (with_party (\<lambda>q p g. map_option snd (setSharedExperience E q p b g)) p g)"
    by (rule with_party_safe [OF g]) (rule ends_setShared)
  then show ?thesis using g EnableShared
    by (auto simp: playerEnableSharedPartyExperience_def with_party_def split: option.splits)
next
  case (Share p k)
  then show ?thesis by (auto intro!: with_party_safe [OF g] ends_share)
next
  case (Attacked p k)
  then show ?thesis by (auto intro!: with_party_safe [OF g] intro: ends_ticks)
next
  case (Idle p)
  then show ?thesis by (auto intro!: with_party_safe [OF g] intro: ends_clearPoints)
next
  case (HealthChanged p h)
  then show ?thesis using g by (auto intro!: upd_player_safe [OF g] health_safe)
next
  case (ManaChanged p h)
  then show ?thesis using g by (auto intro!: upd_player_safe [OF g] mana_safe)
next
  case (TimePasses t)
  have "links (g\<lparr>system_time := t\<rparr>) = links g" by (simp add: links_def getParty_def fun_eq_iff)
  then show ?thesis using g TimePasses by (simp add: game_ok_def)
qed (simp_all add: playerInviteToParty_safe playerJoinParty_safe playerRevoke_safe playerPass_safe
  player_moved_safe vocation_safe g E)

lemma no_players_ok: "game_ok no_players"
  by (simp add: game_ok_def links_def getParty_def no_players_def linked_def peopled_def fits_def holds_invite_def)

interpretation parties_machine: safe_machine "party_step E" "allowed_event E" game_ok for E
  using party_step_safe by unfold_locales (auto simp: safe_def allowed_event_def)

lemma party_reach_ok: "party_reach E g \<Longrightarrow> game_ok g"
  unfolding party_reach_def by (rule parties_machine.reached_ok [OF _ no_players_ok])

lemma party_reach_step:
  "party_reach E g \<Longrightarrow> \<forall>g q. onDisband E g q \<Longrightarrow> orderly g e \<Longrightarrow> party_step E e g = Some g' \<Longrightarrow> party_reach E g'"
  by (simp add: party_reach_def reached_step allowed_event_def)

lemma sends_dangling: "players g p = None \<Longrightarrow> To p k \<in> set ms \<Longrightarrow> sends ms g = None"
  by (force simp: sends_def list_all_iff live_def)

lemma party_side:
  assumes "game_ok g" "parties g q = Some P"
  shows "distinct (leader P # memberList P @ inviteList P) \<and> \<not> party_empty P \<and>
      (\<forall>p\<in>set (leader P # memberList P). \<exists>x. players g p = Some x \<and> party x = Some q) \<and>
      (\<forall>p\<in>set (inviteList P). \<exists>x. players g p = Some x \<and> q \<in> set (invitePartyList x))"
proof -
  obtain pp il sh n nm where v: "links g = (pp, il, sh, n, nm)" "linked (pp, il, sh, n, nm)"
    "peopled (pp, il, sh, n, nm)" using assms(1) by (rule game_ok_links)
  have pl: "pp p = map_option party (players g p)" "il p = map_option invitePartyList (players g p)" for p
    using v(1) by (auto simp: links_def getParty_def)
  have s: "sh q = Some (leader P, memberList P, inviteList P)"
    using v(1) assms(2) by (auto simp: links_def shape_of_def)
  have "\<not> party_empty P" using v(3) s by (fastforce simp: peopled_def party_empty_def)
  moreover have "\<exists>x. players g p = Some x \<and> party x = Some q" if "p \<in> set (leader P # memberList P)" for p
    using linked_party(2) [OF v(2) s, of p] that pl by auto
  moreover have "\<exists>x. players g p = Some x \<and> q \<in> set (invitePartyList x)" if "p \<in> set (inviteList P)" for p
    using linked_party(3) [OF v(2) s, of p] that pl by (auto simp: holds_invite_def)
  ultimately show ?thesis using linked_party(1) [OF v(2) s] by blast
qed

lemma player_side:
  assumes "game_ok g" "players g p = Some x"
  shows "party x = Some q \<Longrightarrow> \<exists>P. parties g q = Some P \<and> p \<in> set (leader P # memberList P)"
    "q \<in> set (invitePartyList x) \<Longrightarrow> \<exists>P. parties g q = Some P \<and> p \<in> set (inviteList P)"
proof -
  obtain pp il sh n nm where v: "links g = (pp, il, sh, n, nm)" "linked (pp, il, sh, n, nm)"
    "peopled (pp, il, sh, n, nm)" using assms(1) by (rule game_ok_links)
  have pl: "pp p = Some (party x)" "il p = Some (invitePartyList x)" "sh q = map_option shape_of (parties g q)"
    using v(1) assms(2) by (auto simp: links_def getParty_def)
  show "\<exists>P. parties g q = Some P \<and> p \<in> set (leader P # memberList P)" if "party x = Some q"
    using linkedD(1) [OF v(2), of q] that pl by (cases "parties g q") (auto simp: fits_def shape_of_def)
  show "\<exists>P. parties g q = Some P \<and> p \<in> set (inviteList P)" if "q \<in> set (invitePartyList x)"
    using linkedD(1) [OF v(2), of q] that pl
    by (cases "parties g q") (auto simp: fits_def shape_of_def holds_invite_def)
qed

section \<open>Properties\<close>

text \<open>
  C5. Party operations never follow a dangling pointer: as long as the scripts let parties disband and
  nobody logs out from inside a party, every request and every notification is defined in every
  reachable state, and the run goes on.
\<close>

theorem party_never_dangles:
  assumes "\<forall>g q. onDisband E g q" "party_reach E g" "orderly g e"
  shows "\<exists>g'. party_step E e g = Some g' \<and> party_reach E g'"
  using parties_machine.never_stuck [OF assms(2) [unfolded party_reach_def] no_players_ok] assms(1,3)
  by (simp add: allowed_event_def party_reach_def)

text \<open>
  C6. In every reachable state the pointers between parties and players agree: nobody is twice in a
  party or both member and invited, every leader and member is online and points back to the party,
  every invitee is online and holds the invitation, no player points to a party that is gone or that
  does not list the player, and no party consists of its leader alone.
\<close>

theorem party_pointers_agree:
  assumes "\<forall>g q. onDisband E g q" "party_reach E g"
  shows "(\<forall>q P. parties g q = Some P \<longrightarrow>
      distinct (leader P # memberList P @ inviteList P) \<and> \<not> party_empty P \<and>
      (\<forall>p\<in>set (leader P # memberList P). \<exists>x. players g p = Some x \<and> party x = Some q) \<and>
      (\<forall>p\<in>set (inviteList P). \<exists>x. players g p = Some x \<and> q \<in> set (invitePartyList x))) \<and>
    (\<forall>p x. players g p = Some x \<longrightarrow>
      (\<forall>q. party x = Some q \<longrightarrow> (\<exists>P. parties g q = Some P \<and> p \<in> set (leader P # memberList P))) \<and>
      (\<forall>q\<in>set (invitePartyList x). \<exists>P. parties g q = Some P \<and> p \<in> set (inviteList P)))"
  using party_side [OF party_reach_ok [OF assms(2)]] player_side [OF party_reach_ok [OF assms(2)]]
  by blast

text \<open>
  C7. When the leader of a party leaves and somebody else stays behind, the longest-standing member
  takes over, the other members and the pending invitations stay as they are, and the leaver belongs
  to no party any more.
\<close>

theorem leadership_passes_on:
  assumes "\<forall>g q. onDisband E g q" "party_reach E g"
    and x: "players g p = Some x" "party x = Some q" "\<not> pl_infight x"
    and P: "parties g q = Some P" "leader P = p" "memberList P = m # ms" "ms \<noteq> [] \<or> inviteList P \<noteq> []"
    and "onLeave E g q p"
  shows "\<exists>g' P'. party_step E (Leave p) g = Some g' \<and> parties g' q = Some P' \<and> leader P' = m \<and>
    memberList P' = ms \<and> inviteList P' = inviteList P \<and> getParty g' p = Some None"
proof -
  have ok: "game_ok g" by (rule party_reach_ok [OF assms(2)])
  obtain pp il sh n nm where v: "links g = (pp, il, sh, n, nm)" "linked (pp, il, sh, n, nm)"
    "peopled (pp, il, sh, n, nm)" using ok by (rule game_ok_links)
  let ?vs = "inviteList P" and ?sh = "sh(q \<mapsto> (m, p # ms, inviteList P))"
  have q: "sh q = Some (p, m # ms, ?vs)" using v(1) P by (auto simp: links_def shape_of_def)
  have m: "pp m = Some (Some q)" "m \<noteq> p"
    using linked_party(1) [OF v(2) q] linked_party(2) [OF v(2) q, of m] by auto
  have pass: "ends (map_option snd (passPartyLeadership E q m g)) (pp, il, ?sh, n, nm)"
    using ends_pass [OF v(1) q linked_online [OF v(2) q] m] by simp
  have on: "all_online pp (m, p # ms, ?vs)" by (rule all_online_sub [OF linked_online [OF v(2) q]]) auto
  have pp: "pp p = Some (Some q)" using v(1) x by (auto simp: links_def getParty_def)
  have "ends (map_option snd (passPartyLeadership E q m g) \<bind> leave_rest E q p (pl_name x) False)
      (pp(p \<mapsto> None), il, ?sh(q \<mapsto> (m, ms, ?vs)), n, nm)"
  proof (rule ends_bind [OF pass])
    fix h
    assume h: "links h = (pp, il, ?sh, n, nm)"
    show "ends (leave_rest E q p (pl_name x) False h) (pp(p \<mapsto> None), il, ?sh(q \<mapsto> (m, ms, ?vs)), n, nm)"
      using ends_leave_rest [OF h _ on pp, of q E "pl_name x" False] P(4) assms(1)
      by (cases "ms = []") simp_all
  qed
  then obtain g' where g': "party_step E (Leave p) g = Some g'"
    "links g' = (pp(p \<mapsto> None), il, ?sh(q \<mapsto> (m, ms, ?vs)), n, nm)"
    using assms by (auto simp: playerLeaveParty_def leaveParty_def Let_def result_simps ends_def)
  obtain P' where "parties g' q = Some P'" "leader P' = m" "memberList P' = ms" "inviteList P' = ?vs"
    using links_party [OF g'(2), of q m ms ?vs] by auto
  then show ?thesis using g' by (auto simp: links_def)
qed

text \<open>
  C8. A player who logs out from inside a party stays in it: the player object is released while the
  party still lists it, and every message to the party then goes through the dangling pointer.
\<close>

theorem logout_leaves_dangling_member:
  assumes "\<forall>g q. onDisband E g q" "party_reach E g"
    and x: "players g p = Some x" "party x = Some q"
  shows "\<exists>g' P. party_step E (Logout p) g = Some g' \<and> players g' p = None \<and>
    parties g' q = Some P \<and> p \<in> set (leader P # memberList P) \<and>
    (\<forall>msg inv. broadcastPartyMessage msg inv q g' = None)"
proof -
  have ok: "game_ok g" by (rule party_reach_ok [OF assms(2)])
  obtain pp il sh n nm where v: "links g = (pp, il, sh, n, nm)" "linked (pp, il, sh, n, nm)"
    "peopled (pp, il, sh, n, nm)" using ok by (rule game_ok_links)
  obtain g' pp' sh' where g': "onRemoveCreature E p g = Some g'"
    "links g' = (pp'(p := None), il(p := None), sh', n, nm(p := None))"
    "linked (pp', il(p \<mapsto> []), sh', n, nm)" "pp' p = Some (Some q)"
    using logout_links [OF v x(1) assms(1)] x(2) by metis
  obtain l ms vs where q: "sh' q = Some (l, ms, vs)" using linked_pointer [OF g'(3,4)] by auto
  have p: "p \<in> set (l # ms)" using linked_party(2) [OF g'(3) q, of p] g'(4) by simp
  obtain P where P: "parties g' q = Some P" "leader P = l" "memberList P = ms"
    using links_party [OF g'(2) q] by metis
  have gone: "players g' p = None" using links_none [OF g'(2), of p] by simp
  have "broadcastPartyMessage msg inv q g' = None" for msg inv
    unfolding broadcastPartyMessage_def P(1) bind.bind_lunit
    by (rule sends_dangling [OF gone, of "TextMessage msg"]) (use p P in auto)
  then show ?thesis using g'(1) gone P p by auto
qed

section \<open>A party of three\<close>

definition default_scripts :: party_env where
  "default_scripts = \<lparr>onJoin = (\<lambda>_ _ _. True), onLeave = (\<lambda>_ _ _. True), onDisband = (\<lambda>_ _. True),
     onShareExperience = (\<lambda>_ _ e. e), pz_locked = 60000, party_list_max_distance = 30\<rparr>"

definition named :: "string \<Rightarrow> Player" where
  "named s = \<lparr>pl_name = s, pl_female = False, pl_level = 8, pl_position = Position 100 100 7,
     pl_not_gain_in_fight = False, pl_infight = False, pl_on_tile = True, pl_in_protection_zone = True,
     pl_health = 185, pl_max_health = 185, pl_mana = 90, pl_max_mana = 90, pl_summons = [],
     party = None, invitePartyList = []\<rparr>"

definition standing :: "(player_id \<Rightarrow> Player option) \<Rightarrow> Party option \<Rightarrow> nat \<Rightarrow> sending list \<Rightarrow> game" where
  "standing ps P n s =
     \<lparr>players = ps, parties = (\<lambda>q. if q = 0 then P else None), next_party = n, system_time = 0, sent = s\<rparr>"

definition group :: "player_id list \<Rightarrow> player_id list \<Rightarrow> Party" where
  "group ms vs = \<lparr>ticksMap = Map.empty, memberList = ms, inviteList = vs, leader = 1,
     sharedExpActive = False, sharedExpEnabled = False\<rparr>"

definition joined :: "string \<Rightarrow> Player" where "joined s = (named s)\<lparr>party := Some 0\<rparr>"

definition waiting :: "string \<Rightarrow> Player" where "waiting s = (named s)\<lparr>invitePartyList := [0]\<rparr>"

lemmas demo_simps = no_players_def default_scripts_def playerInviteToParty_def playerJoinParty_def
  isInviting_def getParty_def new_party_def setParty_def upd_player_def upd_party_def Let_def invitePlayer_def
  isPlayerInvited_def party_empty_def updatePlayerShield_def sends_def live_def addPartyInvitation_def
  joinParty_def broadcastPartyMessage_def sendPlayerPartyIcons_def updatePlayerStatus_def shown_to_def
  within_list_distance_def showPlayerStatus_def removePartyInvitation_def updateSharedExperience_def
  getDistanceX_def getDistanceY_def getOffsetX_def getOffsetY_def standing_def group_def named_def
  joined_def waiting_def fun_eq_iff

lemma demo_logins:
  "party_step E (Login 1 (named ''A'')) no_players = Some (standing [1 \<mapsto> named ''A''] None 0 [])"
  "party_step E (Login 2 (named ''B'')) (standing [1 \<mapsto> named ''A''] None 0 []) =
     Some (standing [1 \<mapsto> named ''A'', 2 \<mapsto> named ''B''] None 0 [])"
  by (simp_all add: demo_simps)

lemma demo_invite:
  "\<exists>s. party_step E (Invite 1 2) (standing [1 \<mapsto> named ''A'', 2 \<mapsto> named ''B''] None 0 []) =
     Some (standing [1 \<mapsto> joined ''A'', 2 \<mapsto> waiting ''B''] (Some (group [] [2])) 1 s)"
  by (auto simp: demo_simps)

lemma demo_join:
  "\<exists>s'. party_step default_scripts (Join 2 1)
       (standing [1 \<mapsto> joined ''A'', 2 \<mapsto> waiting ''B''] (Some (group [] [2])) 1 s) =
     Some (standing [1 \<mapsto> joined ''A'', 2 \<mapsto> joined ''B''] (Some (group [2] [])) 1 s')"
  by (auto simp: demo_simps)

lemma demo_login_3:
  "party_step E (Login 3 (named ''C'')) (standing [1 \<mapsto> joined ''A'', 2 \<mapsto> joined ''B''] P n s) =
     Some (standing [1 \<mapsto> joined ''A'', 2 \<mapsto> joined ''B'', 3 \<mapsto> named ''C''] P n s)"
  by (simp add: demo_simps)

lemma demo_invite_3:
  "\<exists>s'. party_step E (Invite 1 3)
       (standing [1 \<mapsto> joined ''A'', 2 \<mapsto> joined ''B'', 3 \<mapsto> named ''C''] (Some (group [2] [])) 1 s) =
     Some (standing [1 \<mapsto> joined ''A'', 2 \<mapsto> joined ''B'', 3 \<mapsto> waiting ''C''] (Some (group [2] [3])) 1 s')"
  by (auto simp: demo_simps)

definition trio :: "sending list \<Rightarrow> game" where
  "trio s = standing [1 \<mapsto> joined ''A'', 2 \<mapsto> joined ''B'', 3 \<mapsto> waiting ''C''] (Some (group [2] [3])) 1 s"

lemma default_disband: "\<forall>g q. onDisband default_scripts g q" "onLeave default_scripts g q p"
  by (simp_all add: default_scripts_def)

lemma trio_reached: "\<exists>s. party_reach default_scripts (trio s)"
proof -
  have name: "pl_name (named s) = s" for s by (simp add: named_def)
  have "party_reach default_scripts no_players" by (simp add: party_reach_def reached_start)
  then have "party_reach default_scripts (standing [1 \<mapsto> named ''A''] None 0 [])"
    by (rule party_reach_step [OF _ default_disband(1) _ demo_logins(1)]) (simp add: name)
  then have "party_reach default_scripts (standing [1 \<mapsto> named ''A'', 2 \<mapsto> named ''B''] None 0 [])"
    by (rule party_reach_step [OF _ default_disband(1) _ demo_logins(2)]) (simp add: name)
  then obtain s where "party_reach default_scripts
      (standing [1 \<mapsto> joined ''A'', 2 \<mapsto> waiting ''B''] (Some (group [] [2])) 1 s)"
    using demo_invite by (meson orderly.simps(3) party_reach_step default_disband(1))
  then obtain s where "party_reach default_scripts
      (standing [1 \<mapsto> joined ''A'', 2 \<mapsto> joined ''B''] (Some (group [2] [])) 1 s)"
    using demo_join by (meson orderly.simps(4) party_reach_step default_disband(1))
  then have "party_reach default_scripts
      (standing [1 \<mapsto> joined ''A'', 2 \<mapsto> joined ''B'', 3 \<mapsto> named ''C''] (Some (group [2] [])) 1 s)"
    by (rule party_reach_step [OF _ default_disband(1) _ demo_login_3]) (simp add: name)
  then show ?thesis
    unfolding trio_def using demo_invite_3 by (meson orderly.simps(3) party_reach_step default_disband(1))
qed

lemma trio_players:
  "players (trio s) 1 = Some (joined ''A'')" "players (trio s) 2 = Some (joined ''B'')"
  "party (joined t) = Some 0" "\<not> pl_infight (joined t)" "parties (trio s) 0 = Some (group [2] [3])"
  "leader (group ms vs) = 1" "memberList (group ms vs) = ms" "inviteList (group ms vs) = vs"
  by (simp_all add: trio_def standing_def joined_def named_def group_def)

theorem party_never_dangles_witness:
  "\<exists>s g'. party_step default_scripts (Leave 1) (trio s) = Some g' \<and> party_reach default_scripts g'"
proof -
  obtain s where s: "party_reach default_scripts (trio s)" using trio_reached by blast
  show ?thesis using party_never_dangles [OF default_disband(1) s, of "Leave 1"] by auto
qed

theorem party_pointers_agree_witness:
  "\<exists>s P. party_reach default_scripts (trio s) \<and> parties (trio s) 0 = Some P \<and>
     distinct (leader P # memberList P @ inviteList P) \<and> \<not> party_empty P"
  using trio_reached party_pointers_agree [OF default_disband(1), of "trio s" for s] trio_players(5) by blast

theorem leadership_passes_on_witness:
  "\<exists>s g' P'. party_step default_scripts (Leave 1) (trio s) = Some g' \<and> parties g' 0 = Some P' \<and>
     leader P' = 2 \<and> memberList P' = [] \<and> inviteList P' = [3] \<and> getParty g' 1 = Some None"
proof -
  obtain s where s: "party_reach default_scripts (trio s)" using trio_reached by blast
  show ?thesis
    using leadership_passes_on [OF default_disband(1) s trio_players(1,3,4,5,6), of 2 "[]"] trio_players default_disband
    by (intro exI [of _ s]) simp
qed

theorem logout_leaves_dangling_member_witness:
  "\<exists>s g'. party_step default_scripts (Logout 2) (trio s) = Some g' \<and>
     broadcastPartyMessage ''hello'' False 0 g' = None"
proof -
  obtain s where s: "party_reach default_scripts (trio s)" using trio_reached by blast
  show ?thesis
    using logout_leaves_dangling_member [OF default_disband(1) s trio_players(2,3)] by blast
qed

text \<open>
  Up to level 8388607 the threshold for shared experience, computed in single precision, is two
  thirds of the highest level in the party, rounded up.
\<close>

theorem shared_level_threshold:
  assumes "unat h < 8388608"
  shows "unat (shared_min_level h) = (2 * unat h + 2) div 3"
proof -
  obtain s where s: "fl_of_nat 24 (unat h) = (unat h * 2 ^ s, 2 ^ s)"
    using fl_of_nat_exact [of "unat h" 24] assms by auto
  obtain t where t: "fl_mult 24 (fl_of_nat 24 (unat h)) 2 = (2 * unat h * 2 ^ t, 2 ^ t)"
    using fl_nat [of "2 * unat h" 24 s] assms by (auto simp: fl_mult_def s ac_simps)
  have "2 * unat h < 3 * 2 ^ (24 - 1)" using assms by simp
  from fl_ceil_third [OF this, of t]
  have "shared_min_level h = of_nat ((2 * unat h + 2) div 3)"
    unfolding shared_min_level_def t by (simp add: fl_div_def)
  then show ?thesis using assms by (simp add: unat_of_nat)
qed

theorem shared_level_threshold_witness: "unat (shared_min_level 100) = 67"
  using shared_level_threshold [of 100] by simp

text \<open>
  The health and mana percentages shown to party members, computed in double precision, never
  exceed 100 while the value is within its maximum, and are 0 only for the value 0.
\<close>

theorem percent_bounds:
  assumes "v \<le> m" "m < 2147483648"
  shows "percent v m \<le> 100 \<and> (percent v m = 0 \<longleftrightarrow> v = 0)"
proof (cases "v = 0")
  case True
  then show ?thesis by (simp add: percent_def fl_zero)
next
  case False
  obtain s where s: "fl_of_nat 53 v = (v * 2 ^ s, 2 ^ s)"
    using fl_of_nat_exact [of v 53] assms by auto
  have le: "v * 2 ^ s \<le> 1 * (2 ^ s * max m 1)" and pos: "0 < 2 ^ s * max m 1"
    and fit: "(1::nat) < 2 * 2 ^ (53 - 1)" "(100::nat) < 2 * 2 ^ (53 - 1)"
    using assms by (simp_all add: max_def)
  obtain c d where c: "fl 53 (v * 2 ^ s, 2 ^ s * max m 1) = (c, d)" "0 < d" "c \<le> 1 * d"
    "0 < v * 2 ^ s \<Longrightarrow> 0 < c"
    using fl_between [OF pos le fit(1)] by blast
  have "c * 100 \<le> 100 * d" using c(3) by simp
  then obtain c' d' where c': "fl 53 (c * 100, d) = (c', d')" "0 < d'" "c' \<le> 100 * d'"
    "0 < c * 100 \<Longrightarrow> 0 < c'"
    using fl_between [OF c(2) _ fit(2)] by blast
  have e: "percent v m = fl_ceil (c', d')"
    by (simp add: percent_def s fl_div_def fl_mult_def c(1) [unfolded One_nat_def] c'(1))
  have "0 < c'" using False c(4) c'(4) by simp
  then show ?thesis
    unfolding e using fl_ceil_le [OF c'(2,3)] fl_ceil_pos [OF c'(2)] False by simp
qed

theorem percent_bounds_witness: "percent 0 150 = 0 \<and> percent 7 100 \<le> 100"
  using percent_bounds [of 0 150] percent_bounds [of 7 100] by simp

end
