(* ===== verification/Chat.thy ===== *)
theory Chat
  imports Prelude "HOL-Library.Monad_Syntax"
begin

text \<open>
  \<^verbatim>\<open>creatures/interactions/chat.cpp\<close> and \<^verbatim>\<open>chat.h\<close> with the channel requests of \<^verbatim>\<open>game.cpp\<close>: public,
  guild, party and private chat channels. The four \<^verbatim>\<open>std::map\<close>s of the chat are ordered maps. A
  \<^verbatim>\<open>Player*\<close> is the creature id of a player; following it when the player is gone gives \<open>None\<close>. A
  pointer to a channel is the map it lives in and its key. The Lua scripts of a channel are a
  parameter, with their failures, and so is the content of the channel file.
\<close>

section \<open>State\<close>

definition CHANNEL_GUILD :: u16 where "CHANNEL_GUILD = 0"
definition CHANNEL_PARTY :: u16 where "CHANNEL_PARTY = 1"
definition CHANNEL_PRIVATE :: u16 where "CHANNEL_PRIVATE = 0xFFFF"

definition TALKTYPE_CHANNEL_Y :: u8 where "TALKTYPE_CHANNEL_Y = 7"
definition TALKTYPE_CHANNEL_O :: u8 where "TALKTYPE_CHANNEL_O = 8"

datatype ChannelEvent_t = CHANNELEVENT_JOIN | CHANNELEVENT_LEAVE | CHANNELEVENT_INVITE | CHANNELEVENT_EXCLUDE

text \<open>What the chat reads of a player. A guild is its id, its name and its message of the day.\<close>

record chatter =
  ct_guid :: u32
  ct_name :: string
  ct_female :: bool
  ct_premium :: bool
  ct_guild :: "(u32 \<times> string \<times> string) option"
  ct_rank_level :: "u8 option"
  ct_party :: "nat option"

text \<open>
  \<^verbatim>\<open>ChatChannel\<close> and its subclass \<^verbatim>\<open>PrivateChatChannel\<close> in one record; a plain channel has no invitations
  and the owner 0 that \<^verbatim>\<open>ChatChannel::getOwner\<close> returns.
\<close>

record ChatChannel =
  users :: "(u32, u32) omap"
  invites :: "(u32, u32) omap"
  owner :: u32
  ch_name :: string
  canJoinEvent :: int
  onJoinEvent :: int
  onLeaveEvent :: int
  onSpeakEvent :: int
  ch_id :: u16
  publicChannel :: bool

datatype chat_packet =
    ChannelText string
  | ChannelEvent u16 string ChannelEvent_t
  | ChannelClose u16
  | ChannelMessage string string u8 u16
  | ChannelCreated u16 string
  | ChannelOpened u16 string "string list option" "string list option"
  | GuildMotdScheduled

record chat =
  normalChannels :: "(u16, ChatChannel) omap"
  privateChannels :: "(u16, ChatChannel) omap"
  partyChannels :: "(nat, ChatChannel) omap"
  guildChannels :: "(u32, ChatChannel) omap"
  chatters :: "u32 \<Rightarrow> chatter option"
  chat_log :: "(u32 \<times> chat_packet) list"

datatype channel_ref = NormalRef u16 | PrivateRef u16 | PartyRef nat | GuildRef u32

text \<open>The result of a script call on the Lua stack.\<close>

datatype lua_result = LuaError | LuaBool bool | LuaNumber u8 | LuaOther

record chat_env =
  reserveScriptEnv :: "int \<Rightarrow> u32 \<Rightarrow> bool"
  callFunction :: "int \<Rightarrow> u32 \<Rightarrow> bool"
  speakFunction :: "int \<Rightarrow> u32 \<Rightarrow> u8 \<Rightarrow> string \<Rightarrow> lua_result"

definition new_channel :: "u16 \<Rightarrow> string \<Rightarrow> ChatChannel" where
  "new_channel channelId name = \<lparr>users = [], invites = [], owner = 0, ch_name = name, canJoinEvent = -1,
     onJoinEvent = -1, onLeaveEvent = -1, onSpeakEvent = -1, ch_id = channelId, publicChannel = False\<rparr>"

section \<open>Scripts\<close>

definition execute_event :: "chat_env \<Rightarrow> int \<Rightarrow> u32 \<Rightarrow> bool" where
  "execute_event E ev p =
     (if ev = -1 then True else if \<not> reserveScriptEnv E ev p then False else callFunction E ev p)"

definition executeCanJoinEvent :: "chat_env \<Rightarrow> ChatChannel \<Rightarrow> u32 \<Rightarrow> bool" where
  "executeCanJoinEvent E ch p = execute_event E (canJoinEvent ch) p"

definition executeOnJoinEvent :: "chat_env \<Rightarrow> ChatChannel \<Rightarrow> u32 \<Rightarrow> bool" where
  "executeOnJoinEvent E ch p = execute_event E (onJoinEvent ch) p"

definition executeOnLeaveEvent :: "chat_env \<Rightarrow> ChatChannel \<Rightarrow> u32 \<Rightarrow> bool" where
  "executeOnLeaveEvent E ch p = execute_event E (onLeaveEvent ch) p"

definition executeOnSpeakEvent :: "chat_env \<Rightarrow> ChatChannel \<Rightarrow> u32 \<Rightarrow> u8 \<Rightarrow> string \<Rightarrow> bool \<times> u8" where
  "executeOnSpeakEvent E ch p type text =
     (if onSpeakEvent ch = -1 then (True, type)
      else if \<not> reserveScriptEnv E (onSpeakEvent ch) p then (False, type)
      else case speakFunction E (onSpeakEvent ch) p type text of
          LuaError \<Rightarrow> (False, type)
        | LuaBool b \<Rightarrow> (b, type)
        | LuaNumber t \<Rightarrow> (True, t)
        | LuaOther \<Rightarrow> (False, type))"

section \<open>Channels\<close>

definition to_users :: "ChatChannel \<Rightarrow> chat_packet \<Rightarrow> (u32 \<times> chat_packet) list" where
  "to_users ch k = map (\<lambda>(_, u). (u, k)) (users ch)"

definition isInvited :: "ChatChannel \<Rightarrow> u32 \<Rightarrow> bool" where
  "isInvited ch guid = (if guid = owner ch then True else om_find (invites ch) guid \<noteq> None)"

definition removeInvite :: "u32 \<Rightarrow> ChatChannel \<Rightarrow> bool \<times> ChatChannel" where
  "removeInvite guid ch =
     (om_find (invites ch) guid \<noteq> None, ch\<lparr>invites := om_erase (invites ch) guid\<rparr>)"

definition hasUser :: "ChatChannel \<Rightarrow> u32 \<Rightarrow> bool" where
  "hasUser ch p \<longleftrightarrow> om_find (users ch) p \<noteq> None"

definition addUser ::
    "chat_env \<Rightarrow> u32 \<Rightarrow> chatter \<Rightarrow> ChatChannel \<Rightarrow> bool \<times> ChatChannel \<times> (u32 \<times> chat_packet) list" where
  "addUser E p x ch =
     (if om_find (users ch) p \<noteq> None then (False, ch, [])
      else if \<not> executeOnJoinEvent E ch p then (False, ch, [])
      else (True, ch\<lparr>users := om_set (users ch) p p\<rparr>,
        (case ct_guild x of
           Some (_, _, motd) \<Rightarrow> if ch_id ch = CHANNEL_GUILD \<and> motd \<noteq> [] then [(p, GuildMotdScheduled)] else []
         | None \<Rightarrow> []) @
        (if \<not> publicChannel ch
         then to_users ch (ChannelEvent (ch_id ch) (ct_name x) CHANNELEVENT_JOIN) else [])))"

text \<open>
  The script for leaving a channel runs for its effects outside of the chat; its answer is ignored.
\<close>

definition removeUser ::
    "u32 \<Rightarrow> chatter \<Rightarrow> ChatChannel \<Rightarrow> bool \<times> ChatChannel \<times> (u32 \<times> chat_packet) list" where
  "removeUser p x ch =
     (if om_find (users ch) p = None then (False, ch, [])
      else let ch' = ch\<lparr>users := om_erase (users ch) p\<rparr> in
        (True, ch', if \<not> publicChannel ch
           then to_users ch' (ChannelEvent (ch_id ch) (ct_name x) CHANNELEVENT_LEAVE) else []))"

definition sendToAll :: "ChatChannel \<Rightarrow> string \<Rightarrow> u8 \<Rightarrow> (u32 \<times> chat_packet) list" where
  "sendToAll ch message type = to_users ch (ChannelMessage [] message type (ch_id ch))"

definition talk :: "ChatChannel \<Rightarrow> u32 \<Rightarrow> chatter \<Rightarrow> u8 \<Rightarrow> string \<Rightarrow> bool \<times> (u32 \<times> chat_packet) list" where
  "talk ch p x type text =
     (if om_find (users ch) p = None then (False, [])
      else (True, to_users ch (ChannelMessage (ct_name x) text type (ch_id ch))))"

text \<open>
  The ids of private channels lie between 100 and 9999, so that \<^verbatim>\<open>Player::sendClosePrivate\<close> with such an
  id only sends the packet.
\<close>

definition closeChannel :: "ChatChannel \<Rightarrow> (u32 \<times> chat_packet) list" where
  "closeChannel ch = to_users ch (ChannelClose (ch_id ch))"

definition invitePlayer ::
    "u32 \<Rightarrow> chatter \<Rightarrow> u32 \<Rightarrow> chatter \<Rightarrow> ChatChannel \<Rightarrow> ChatChannel \<times> (u32 \<times> chat_packet) list" where
  "invitePlayer p x i y ch =
     (if om_find (invites ch) (ct_guid y) \<noteq> None then (ch, [])
      else (ch\<lparr>invites := om_set (invites ch) (ct_guid y) i\<rparr>,
        [(i, ChannelText (ct_name x @ '' invites you to '' @ (if ct_female x then ''her'' else ''his'') @
            '' private chat channel.'')),
         (p, ChannelText (ct_name y @ '' has been invited.''))] @
        to_users ch (ChannelEvent (ch_id ch) (ct_name y) CHANNELEVENT_INVITE)))"

definition excludePlayer ::
    "u32 \<Rightarrow> u32 \<Rightarrow> chatter \<Rightarrow> ChatChannel \<Rightarrow> ChatChannel \<times> (u32 \<times> chat_packet) list" where
  "excludePlayer p i y ch =
     (case removeInvite (ct_guid y) ch of (removed, ch1) \<Rightarrow>
        if \<not> removed then (ch, [])
        else case removeUser i y ch1 of (_, ch2, ms) \<Rightarrow>
          (ch2, ms @ [(p, ChannelText (ct_name y @ '' has been excluded.'')), (i, ChannelClose (ch_id ch))] @
             to_users ch2 (ChannelEvent (ch_id ch) (ct_name y) CHANNELEVENT_EXCLUDE)))"

section \<open>The chat\<close>

definition deliver_all :: "(u32 \<times> chat_packet) list \<Rightarrow> chat \<Rightarrow> chat option" where
  "deliver_all ms c =
     (if list_all (\<lambda>(u, _). chatters c u \<noteq> None) ms then Some (c\<lparr>chat_log := chat_log c @ ms\<rparr>) else None)"

fun channel_at :: "chat \<Rightarrow> channel_ref \<Rightarrow> ChatChannel option" where
  "channel_at c (NormalRef i) = om_find (normalChannels c) i"
| "channel_at c (PrivateRef i) = om_find (privateChannels c) i"
| "channel_at c (PartyRef q) = om_find (partyChannels c) q"
| "channel_at c (GuildRef i) = om_find (guildChannels c) i"

fun put_channel :: "channel_ref \<Rightarrow> ChatChannel \<Rightarrow> chat \<Rightarrow> chat" where
  "put_channel (NormalRef i) ch c = c\<lparr>normalChannels := om_set (normalChannels c) i ch\<rparr>"
| "put_channel (PrivateRef i) ch c = c\<lparr>privateChannels := om_set (privateChannels c) i ch\<rparr>"
| "put_channel (PartyRef q) ch c = c\<lparr>partyChannels := om_set (partyChannels c) q ch\<rparr>"
| "put_channel (GuildRef i) ch c = c\<lparr>guildChannels := om_set (guildChannels c) i ch\<rparr>"

definition getChannel :: "chat_env \<Rightarrow> chat \<Rightarrow> u32 \<Rightarrow> chatter \<Rightarrow> u16 \<Rightarrow> channel_ref option" where
  "getChannel E c p x channelId =
     (if channelId = CHANNEL_GUILD then
        (case ct_guild x of None \<Rightarrow> None
         | Some (g, _) \<Rightarrow> if om_find (guildChannels c) g \<noteq> None then Some (GuildRef g) else None)
      else if channelId = CHANNEL_PARTY then
        (case ct_party x of None \<Rightarrow> None
         | Some q \<Rightarrow> if om_find (partyChannels c) q \<noteq> None then Some (PartyRef q) else None)
      else case om_find (normalChannels c) channelId of
          Some ch \<Rightarrow> if \<not> executeCanJoinEvent E ch p then None else Some (NormalRef channelId)
        | None \<Rightarrow>
            (case om_find (privateChannels c) channelId of
               Some ch \<Rightarrow> if isInvited ch (ct_guid x) then Some (PrivateRef channelId) else None
             | None \<Rightarrow> None))"

definition getPrivateChannel :: "chat \<Rightarrow> chatter \<Rightarrow> u16 option" where
  "getPrivateChannel c x = map_option fst (List.find (\<lambda>(_, ch). owner ch = ct_guid x) (privateChannels c))"

text \<open>The first slot that \<^verbatim>\<open>std::map::emplace\<close> finds free.\<close>

fun free_slot :: "(u16, ChatChannel) omap \<Rightarrow> nat list \<Rightarrow> u16 option" where
  "free_slot m [] = None"
| "free_slot m (i # is) = (if om_find m (of_nat i) = None then Some (of_nat i) else free_slot m is)"

definition private_slots :: "nat list" where
  "private_slots = [100..<10000]"

definition createChannel :: "chat_env \<Rightarrow> u32 \<Rightarrow> chatter \<Rightarrow> u16 \<Rightarrow> chat \<Rightarrow> channel_ref option \<times> chat" where
  "createChannel E p x channelId c =
     (if getChannel E c p x channelId \<noteq> None then (None, c)
      else if channelId = CHANNEL_GUILD then
        (case ct_guild x of None \<Rightarrow> (None, c)
         | Some (g, name, _) \<Rightarrow>
             (Some (GuildRef g),
              if om_find (guildChannels c) g \<noteq> None then c
              else put_channel (GuildRef g) (new_channel channelId name) c))
      else if channelId = CHANNEL_PARTY then
        (case ct_party x of None \<Rightarrow> (None, c)
         | Some q \<Rightarrow>
             (Some (PartyRef q),
              if om_find (partyChannels c) q \<noteq> None then c
              else put_channel (PartyRef q) (new_channel channelId ''Party'') c))
      else if channelId = CHANNEL_PRIVATE then
        (if \<not> ct_premium x \<or> getPrivateChannel c x \<noteq> None then (None, c)
         else case free_slot (privateChannels c) private_slots of
             None \<Rightarrow> (None, c)
           | Some i \<Rightarrow>
               (Some (PrivateRef i),
                put_channel (PrivateRef i)
                  ((new_channel i (ct_name x @ [CHR 0x27] @ ''s Channel''))\<lparr>owner := ct_guid x\<rparr>) c))
      else (None, c))"

definition deleteChannel :: "chatter \<Rightarrow> u16 \<Rightarrow> chat \<Rightarrow> (bool \<times> chat) option" where
  "deleteChannel x channelId c =
     (if channelId = CHANNEL_GUILD then
        (case ct_guild x of None \<Rightarrow> Some (False, c)
         | Some (g, _) \<Rightarrow>
             if om_find (guildChannels c) g = None then Some (False, c)
             else Some (True, c\<lparr>guildChannels := om_erase (guildChannels c) g\<rparr>))
      else if channelId = CHANNEL_PARTY then
        (case ct_party x of None \<Rightarrow> Some (False, c)
         | Some q \<Rightarrow>
             if om_find (partyChannels c) q = None then Some (False, c)
             else Some (True, c\<lparr>partyChannels := om_erase (partyChannels c) q\<rparr>))
      else case om_find (privateChannels c) channelId of None \<Rightarrow> Some (False, c)
        | Some ch \<Rightarrow> do {
            c \<leftarrow> deliver_all (closeChannel ch) c;
            Some (True, c\<lparr>privateChannels := om_erase (privateChannels c) channelId\<rparr>) })"

definition addUserToChannel ::
    "chat_env \<Rightarrow> u32 \<Rightarrow> chatter \<Rightarrow> u16 \<Rightarrow> chat \<Rightarrow> (channel_ref option \<times> chat) option" where
  "addUserToChannel E p x channelId c =
     (case getChannel E c p x channelId of None \<Rightarrow> Some (None, c)
      | Some r \<Rightarrow> do {
          ch \<leftarrow> channel_at c r;
          let (added, ch', ms) = addUser E p x ch;
          if \<not> added then Some (None, c)
          else do { c \<leftarrow> deliver_all ms c; Some (Some r, put_channel r ch' c) } })"

definition removeUserFromChannel ::
    "chat_env \<Rightarrow> u32 \<Rightarrow> chatter \<Rightarrow> u16 \<Rightarrow> chat \<Rightarrow> (bool \<times> chat) option" where
  "removeUserFromChannel E p x channelId c =
     (case getChannel E c p x channelId of None \<Rightarrow> Some (False, c)
      | Some r \<Rightarrow> do {
          ch \<leftarrow> channel_at c r;
          let (removed, ch', ms) = removeUser p x ch;
          if \<not> removed then Some (False, c)
          else do {
            c \<leftarrow> deliver_all ms (put_channel r ch' c);
            if owner ch' = ct_guid x then do { (_, c) \<leftarrow> deleteChannel x channelId c; Some (True, c) }
            else Some (True, c) } })"

text \<open>The four loops of \<^verbatim>\<open>removeUserFromAllChannels\<close>: the channels that remain and the packets sent.\<close>

fun remove_from_all ::
    "u32 \<Rightarrow> chatter \<Rightarrow> ('k \<times> ChatChannel) list \<Rightarrow> ('k \<times> ChatChannel) list \<times> (u32 \<times> chat_packet) list" where
  "remove_from_all p x [] = ([], [])"
| "remove_from_all p x ((k, ch) # m) =
     (case removeUser p x ch of (_, ch', ms) \<Rightarrow>
      case remove_from_all p x m of (m', ms') \<Rightarrow> ((k, ch') # m', ms @ ms'))"

fun remove_from_private ::
    "u32 \<Rightarrow> chatter \<Rightarrow> ('k \<times> ChatChannel) list \<Rightarrow> ('k \<times> ChatChannel) list \<times> (u32 \<times> chat_packet) list" where
  "remove_from_private p x [] = ([], [])"
| "remove_from_private p x ((k, ch) # m) =
     (case removeInvite (ct_guid x) ch of (_, ch1) \<Rightarrow>
      case removeUser p x ch1 of (_, ch2, ms) \<Rightarrow>
      case remove_from_private p x m of (m', ms') \<Rightarrow>
        if owner ch2 = ct_guid x then (m', ms @ closeChannel ch2 @ ms')
        else ((k, ch2) # m', ms @ ms'))"

definition removeUserFromAllChannels :: "u32 \<Rightarrow> chatter \<Rightarrow> chat \<Rightarrow> chat option" where
  "removeUserFromAllChannels p x c =
     (case remove_from_all p x (normalChannels c) of (n, ms1) \<Rightarrow>
      case remove_from_all p x (partyChannels c) of (q, ms2) \<Rightarrow>
      case remove_from_all p x (guildChannels c) of (g, ms3) \<Rightarrow>
      case remove_from_private p x (privateChannels c) of (pr, ms4) \<Rightarrow>
        deliver_all (ms1 @ ms2 @ ms3 @ ms4)
          (c\<lparr>normalChannels := n, partyChannels := q, guildChannels := g, privateChannels := pr\<rparr>))"

definition talk_type :: "chatter \<Rightarrow> u16 \<Rightarrow> u8 \<Rightarrow> u8" where
  "talk_type x channelId type =
     (if channelId = CHANNEL_GUILD then
        (case ct_rank_level x of
           Some l \<Rightarrow> if l > 1 then TALKTYPE_CHANNEL_O else TALKTYPE_CHANNEL_Y
         | None \<Rightarrow> TALKTYPE_CHANNEL_Y)
      else if type \<noteq> TALKTYPE_CHANNEL_Y \<and> (channelId = CHANNEL_PRIVATE \<or> channelId = CHANNEL_PARTY)
      then TALKTYPE_CHANNEL_Y else type)"

definition talkToChannel ::
    "chat_env \<Rightarrow> u32 \<Rightarrow> chatter \<Rightarrow> u8 \<Rightarrow> string \<Rightarrow> u16 \<Rightarrow> chat \<Rightarrow> (bool \<times> chat) option" where
  "talkToChannel E p x type text channelId c =
     (case getChannel E c p x channelId of None \<Rightarrow> Some (False, c)
      | Some r \<Rightarrow> do {
          ch \<leftarrow> channel_at c r;
          let (ok, type') = executeOnSpeakEvent E ch p (talk_type x channelId type) text;
          if \<not> ok then Some (False, c)
          else do {
            let (heard, ms) = talk ch p x type' text;
            c \<leftarrow> deliver_all ms c;
            Some (heard, c) } })"

definition getChannelList :: "chat_env \<Rightarrow> u32 \<Rightarrow> chatter \<Rightarrow> chat \<Rightarrow> channel_ref option list \<times> chat" where
  "getChannelList E p x c =
     (let own = (\<lambda>wanted channelId c.
            if \<not> wanted then ([], c)
            else case getChannel E c p x channelId of Some r \<Rightarrow> ([Some r], c)
              | None \<Rightarrow> (case createChannel E p x channelId c of
                    (Some r, c') \<Rightarrow> ([Some r], c') | (None, c') \<Rightarrow> ([], c')));
          (l1, c1) = own (ct_guild x \<noteq> None) CHANNEL_GUILD c;
          (l2, c2) = own (ct_party x \<noteq> None) CHANNEL_PARTY c1;
          l3 = concat (map (\<lambda>(i, _). case getChannel E c2 p x i of Some r \<Rightarrow> [Some r] | None \<Rightarrow> [])
                 (normalChannels c2));
          l4 = map (\<lambda>(i, _). Some (PrivateRef i))
                 (filter (\<lambda>(_, ch). isInvited ch (ct_guid x)) (privateChannels c2));
          hasPrivate = list_ex (\<lambda>(_, ch). owner ch = ct_guid x) (privateChannels c2)
      in ((if \<not> hasPrivate \<and> ct_premium x then [None] else []) @ l1 @ l2 @ l3 @ l4, c2))"

section \<open>Loading the channel file\<close>

text \<open>
  An entry of the channel file: id, name, public, and for an entry with a script the events that
  the script defines, if it could be loaded.
\<close>

record channel_node =
  nd_id :: u16
  nd_name :: string
  nd_public :: bool
  nd_script :: "(int \<times> int \<times> int \<times> int) option option"

definition load_script :: "channel_node \<Rightarrow> ChatChannel \<Rightarrow> ChatChannel" where
  "load_script nd ch =
     (case nd_script nd of
        Some (Some (speak, can, join, leave)) \<Rightarrow>
          ch\<lparr>onSpeakEvent := speak, canJoinEvent := can, onJoinEvent := join, onLeaveEvent := leave\<rparr>
      | _ \<Rightarrow> ch)"

fun add_users ::
    "chat_env \<Rightarrow> (u32 \<Rightarrow> chatter option) \<Rightarrow> (u32 \<times> u32) list \<Rightarrow> ChatChannel \<Rightarrow>
     (ChatChannel \<times> (u32 \<times> chat_packet) list) option" where
  "add_users E pl [] ch = Some (ch, [])"
| "add_users E pl ((_, u) # us) ch =
     do { x \<leftarrow> pl u;
          let (_, ch1, ms) = addUser E u x ch;
          (ch2, ms') \<leftarrow> add_users E pl us ch1;
          Some (ch2, ms @ ms') }"

definition load_node :: "chat_env \<Rightarrow> channel_node \<Rightarrow> chat \<Rightarrow> chat option" where
  "load_node E nd c =
     (case om_find (normalChannels c) (nd_id nd) of
        Some ch \<Rightarrow> do {
          (ch', ms) \<leftarrow> add_users E (chatters c) (users ch)
            ((load_script nd (ch\<lparr>publicChannel := nd_public nd, ch_name := nd_name nd\<rparr>))\<lparr>users := []\<rparr>);
          deliver_all ms (put_channel (NormalRef (nd_id nd)) ch' c) }
      | None \<Rightarrow>
          Some (put_channel (NormalRef (nd_id nd))
            (load_script nd ((new_channel (nd_id nd) (nd_name nd))\<lparr>publicChannel := nd_public nd\<rparr>)) c))"

fun chat_load :: "chat_env \<Rightarrow> channel_node list \<Rightarrow> chat \<Rightarrow> chat option" where
  "chat_load E [] c = Some c"
| "chat_load E (nd # nds) c = do { c \<leftarrow> load_node E nd c; chat_load E nds c }"

section \<open>Requests of the clients\<close>

definition playerCreatePrivateChannel :: "chat_env \<Rightarrow> u32 \<Rightarrow> chat \<Rightarrow> chat option" where
  "playerCreatePrivateChannel E p c =
     (case chatters c p of None \<Rightarrow> Some c
      | Some x \<Rightarrow>
          if \<not> ct_premium x then Some c
          else case createChannel E p x CHANNEL_PRIVATE c of
              (None, c1) \<Rightarrow> Some c1
            | (Some r, c1) \<Rightarrow> do {
                ch \<leftarrow> channel_at c1 r;
                let (added, ch', ms) = addUser E p x ch;
                if \<not> added then Some c1
                else deliver_all (ms @ [(p, ChannelCreated (ch_id ch') (ch_name ch'))]) (put_channel r ch' c1) })"

definition playerChannelInvite :: "u32 \<Rightarrow> u32 option \<Rightarrow> chat \<Rightarrow> chat option" where
  "playerChannelInvite p named c =
     (case chatters c p of None \<Rightarrow> Some c
      | Some x \<Rightarrow>
          (case getPrivateChannel c x of None \<Rightarrow> Some c
           | Some k \<Rightarrow>
               (case named of None \<Rightarrow> Some c
                | Some i \<Rightarrow>
                    if i = p then Some c
                    else do {
                      y \<leftarrow> chatters c i;
                      ch \<leftarrow> channel_at c (PrivateRef k);
                      let (ch', ms) = invitePlayer p x i y ch;
                      deliver_all ms (put_channel (PrivateRef k) ch' c) })))"

definition playerChannelExclude :: "u32 \<Rightarrow> u32 option \<Rightarrow> chat \<Rightarrow> chat option" where
  "playerChannelExclude p named c =
     (case chatters c p of None \<Rightarrow> Some c
      | Some x \<Rightarrow>
          (case getPrivateChannel c x of None \<Rightarrow> Some c
           | Some k \<Rightarrow>
               (case named of None \<Rightarrow> Some c
                | Some i \<Rightarrow>
                    if i = p then Some c
                    else do {
                      y \<leftarrow> chatters c i;
                      ch \<leftarrow> channel_at c (PrivateRef k);
                      let (ch', ms) = excludePlayer p i y ch;
                      deliver_all ms (put_channel (PrivateRef k) ch' c) })))"

definition names_of :: "chat \<Rightarrow> (u32, u32) omap \<Rightarrow> string list option" where
  "names_of c m = those (map (\<lambda>(_, u). map_option ct_name (chatters c u)) m)"

definition playerOpenChannel :: "chat_env \<Rightarrow> u32 \<Rightarrow> u16 \<Rightarrow> chat \<Rightarrow> chat option" where
  "playerOpenChannel E p channelId c =
     (case chatters c p of None \<Rightarrow> Some c
      | Some x \<Rightarrow> do {
          (r, c1) \<leftarrow> addUserToChannel E p x channelId c;
          case r of None \<Rightarrow> Some c1
          | Some r \<Rightarrow> do {
              ch \<leftarrow> channel_at c1 r;
              us \<leftarrow> names_of c1 (users ch);
              vs \<leftarrow> names_of c1 (invites ch);
              deliver_all [(p, ChannelOpened (ch_id ch) (ch_name ch) (if publicChannel ch then None else Some us)
                (case r of PrivateRef _ \<Rightarrow> Some vs | _ \<Rightarrow> None))] c1 } })"

definition playerCloseChannel :: "chat_env \<Rightarrow> u32 \<Rightarrow> u16 \<Rightarrow> chat \<Rightarrow> chat option" where
  "playerCloseChannel E p channelId c =
     (case chatters c p of None \<Rightarrow> Some c
      | Some x \<Rightarrow> map_option snd (removeUserFromChannel E p x channelId c))"

definition player_talks :: "chat_env \<Rightarrow> u32 \<Rightarrow> u8 \<Rightarrow> string \<Rightarrow> u16 \<Rightarrow> chat \<Rightarrow> chat option" where
  "player_talks E p type text channelId c =
     (case chatters c p of None \<Rightarrow> Some c
      | Some x \<Rightarrow> map_option snd (talkToChannel E p x type text channelId c))"

definition sendClosePrivate :: "chat_env \<Rightarrow> u32 \<Rightarrow> u16 \<Rightarrow> chat \<Rightarrow> chat option" where
  "sendClosePrivate E p channelId c =
     do { x \<leftarrow> chatters c p;
          c \<leftarrow> (if channelId = CHANNEL_GUILD \<or> channelId = CHANNEL_PARTY
               then map_option snd (removeUserFromChannel E p x channelId c) else Some c);
          deliver_all [(p, ChannelClose channelId)] c }"

section \<open>Events\<close>

text \<open>
  What can happen to the chat. A name in a request stands for the online player that
  \<^verbatim>\<open>Game::getPlayerByName\<close> finds for it, if any. Guild and party of a player change from outside.
\<close>

datatype chat_event =
    ChatLogin u32 chatter
  | ChatLogout u32
  | CreatePrivate u32
  | ChannelInvite u32 "u32 option"
  | ChannelExclude u32 "u32 option"
  | OpenChannel u32 u16
  | CloseChannel u32 u16
  | Talk u32 u8 string u16
  | ListChannels u32
  | LoadChannels "channel_node list"
  | ChangeParty u32 "nat option"
  | ChangeGuild u32 "(u32 \<times> string \<times> string) option" "u8 option"
  | ClosePrivate u32 u16

definition upd_chatter :: "u32 \<Rightarrow> (chatter \<Rightarrow> chatter) \<Rightarrow> chat \<Rightarrow> chat" where
  "upd_chatter p f c = c\<lparr>chatters := (chatters c)(p := map_option f (chatters c p))\<rparr>"

definition chat_logout :: "u32 \<Rightarrow> chat \<Rightarrow> chat option" where
  "chat_logout p c =
     (case chatters c p of None \<Rightarrow> Some c
      | Some x \<Rightarrow> do {
          c \<leftarrow> removeUserFromAllChannels p x c;
          Some (c\<lparr>chatters := (chatters c)(p := None)\<rparr>) })"

fun chat_step :: "chat_env \<Rightarrow> chat_event \<Rightarrow> chat \<Rightarrow> chat option" where
  "chat_step E (ChatLogin p x) c =
     Some (if chatters c p = None then c\<lparr>chatters := (chatters c)(p \<mapsto> x)\<rparr> else c)"
| "chat_step E (ChatLogout p) c = chat_logout p c"
| "chat_step E (CreatePrivate p) c = playerCreatePrivateChannel E p c"
| "chat_step E (ChannelInvite p i) c = playerChannelInvite p i c"
| "chat_step E (ChannelExclude p i) c = playerChannelExclude p i c"
| "chat_step E (OpenChannel p i) c = playerOpenChannel E p i c"
| "chat_step E (CloseChannel p i) c = playerCloseChannel E p i c"
| "chat_step E (Talk p t s i) c = player_talks E p t s i c"
| "chat_step E (ListChannels p) c =
     Some (case chatters c p of None \<Rightarrow> c | Some x \<Rightarrow> snd (getChannelList E p x c))"
| "chat_step E (LoadChannels nds) c = chat_load E nds c"
| "chat_step E (ChangeParty p q) c = Some (upd_chatter p (\<lambda>x. x\<lparr>ct_party := q\<rparr>) c)"
| "chat_step E (ChangeGuild p g r) c = Some (upd_chatter p (\<lambda>x. x\<lparr>ct_guild := g, ct_rank_level := r\<rparr>) c)"
| "chat_step E (ClosePrivate p i) c = sendClosePrivate E p i c"

fun chat_allowed :: "chat \<Rightarrow> chat_event \<Rightarrow> bool" where
  "chat_allowed c (ChannelInvite p i) \<longleftrightarrow> (case i of None \<Rightarrow> True | Some i \<Rightarrow> chatters c i \<noteq> None)"
| "chat_allowed c (ChannelExclude p i) \<longleftrightarrow> (case i of None \<Rightarrow> True | Some i \<Rightarrow> chatters c i \<noteq> None)"
| "chat_allowed c (ClosePrivate p i) \<longleftrightarrow> chatters c p \<noteq> None"
| "chat_allowed c _ \<longleftrightarrow> True"

definition no_chat :: chat where
  "no_chat = \<lparr>normalChannels = [], privateChannels = [], partyChannels = [], guildChannels = [],
     chatters = Map.empty, chat_log = []\<rparr>"

section \<open>The invariant\<close>

definition channel_ok :: "(u32 \<Rightarrow> chatter option) \<Rightarrow> ChatChannel \<Rightarrow> bool" where
  "channel_ok pl ch \<longleftrightarrow> om_ok (users ch) \<and> om_ok (invites ch) \<and>
     (\<forall>(k, u)\<in>set (users ch). k = u \<and> pl u \<noteq> None) \<and>
     (\<forall>(k, u)\<in>set (invites ch). \<exists>y. pl u = Some y \<and> ct_guid y = k)"

definition private_ok :: "(u32 \<Rightarrow> chatter option) \<Rightarrow> (u16, ChatChannel) omap \<Rightarrow> bool" where
  "private_ok pl m \<longleftrightarrow>
     (\<forall>k ch. om_find m k = Some ch \<longrightarrow> ch_id ch = k \<and> 100 \<le> unat k \<and> unat k < 10000 \<and>
        (\<exists>p y. pl p = Some y \<and> ct_guid y = owner ch)) \<and>
     (\<forall>k k' ch ch'. om_find m k = Some ch \<longrightarrow> om_find m k' = Some ch' \<longrightarrow> owner ch = owner ch' \<longrightarrow> k = k')"

definition chat_ok :: "chat \<Rightarrow> bool" where
  "chat_ok c \<longleftrightarrow>
     om_ok (normalChannels c) \<and> om_ok (privateChannels c) \<and> om_ok (partyChannels c) \<and> om_ok (guildChannels c) \<and>
     (\<forall>r ch. channel_at c r = Some ch \<longrightarrow> channel_ok (chatters c) ch \<and>
        ((\<forall>k. r \<noteq> PrivateRef k) \<longrightarrow> invites ch = [])) \<and>
     private_ok (chatters c) (privateChannels c)"

definition chat_safe :: "chat option \<Rightarrow> bool" where
  "chat_safe r \<longleftrightarrow> (\<exists>c. r = Some c \<and> chat_ok c)"

lemma chat_safe_Some [simp]: "chat_safe (Some c) \<longleftrightarrow> chat_ok c"
  by (simp add: chat_safe_def)

lemma channel_at_log [simp]: "channel_at (c\<lparr>chat_log := l\<rparr>) r = channel_at c r"
  by (cases r) simp_all

lemma chat_ok_log [simp]: "chat_ok (c\<lparr>chat_log := l\<rparr>) \<longleftrightarrow> chat_ok c"
  by (simp add: chat_ok_def)

text \<open>A list of packets all of whose recipients are online.\<close>

definition reach_all :: "(u32 \<Rightarrow> chatter option) \<Rightarrow> (u32 \<times> chat_packet) list \<Rightarrow> bool" where
  "reach_all pl ms \<longleftrightarrow> (\<forall>(u, _)\<in>set ms. pl u \<noteq> None)"

lemma reach_all_simps [simp]:
  "reach_all pl []" "reach_all pl ((u, k) # ms) \<longleftrightarrow> pl u \<noteq> None \<and> reach_all pl ms"
  "reach_all pl (ms @ ms') \<longleftrightarrow> reach_all pl ms \<and> reach_all pl ms'"
  by (auto simp: reach_all_def)

lemma deliver_all_reach: "reach_all (chatters c) ms \<Longrightarrow> deliver_all ms c = Some (c\<lparr>chat_log := chat_log c @ ms\<rparr>)"
  by (auto simp: deliver_all_def reach_all_def list_all_iff)

lemma deliver_all_safe: "chat_ok c \<Longrightarrow> reach_all (chatters c) ms \<Longrightarrow> chat_safe (deliver_all ms c)"
  by (simp add: deliver_all_reach)

lemma chat_safe_deliver:
  "reach_all (chatters c) ms \<Longrightarrow> chat_safe (k (c\<lparr>chat_log := chat_log c @ ms\<rparr>)) \<Longrightarrow> chat_safe (deliver_all ms c \<bind> k)"
  by (simp add: deliver_all_reach)

lemma to_users_reach: "channel_ok pl ch \<Longrightarrow> reach_all pl (to_users ch k)"
  by (auto simp: channel_ok_def reach_all_def to_users_def)

section \<open>Channels keep the invariant\<close>

lemma addUser_ok:
  assumes "channel_ok pl ch" "pl p \<noteq> None" "addUser E p x ch = (b, ch', ms)"
  shows "channel_ok pl ch'" "reach_all pl ms" "owner ch' = owner ch" "ch_id ch' = ch_id ch"
    "invites ch' = invites ch"
proof -
  have "channel_ok pl (ch\<lparr>users := om_set (users ch) p p\<rparr>)"
    using assms(1,2) by (auto simp: channel_ok_def om_ok_set dest!: om_set_in)
  then show "channel_ok pl ch'" using assms by (auto simp: addUser_def split: if_splits)
  show "reach_all pl ms" "owner ch' = owner ch" "ch_id ch' = ch_id ch" "invites ch' = invites ch"
    using assms to_users_reach [OF assms(1)]
    by (auto simp: addUser_def split: if_splits option.splits)
qed

lemma removeUser_ok:
  assumes "channel_ok pl ch" "removeUser p x ch = (b, ch', ms)"
  shows "channel_ok pl ch'" "reach_all pl ms" "owner ch' = owner ch" "ch_id ch' = ch_id ch"
    "invites ch' = invites ch" "om_find (users ch') p = None"
    "q \<noteq> p \<Longrightarrow> om_find (users ch') q = om_find (users ch) q"
proof -
  let ?ch = "ch\<lparr>users := om_erase (users ch) p\<rparr>"
  have e: "channel_ok pl ?ch"
    using assms(1) om_erase_subset [of "users ch" p] by (auto simp: channel_ok_def om_ok_erase)
  show "channel_ok pl ch'" "reach_all pl ms" "owner ch' = owner ch" "ch_id ch' = ch_id ch"
    "invites ch' = invites ch"
    using assms e to_users_reach [OF e] by (auto simp: removeUser_def Let_def split: if_splits)
  show "om_find (users ch') p = None" "q \<noteq> p \<Longrightarrow> om_find (users ch') q = om_find (users ch) q"
    using assms by (auto simp: removeUser_def Let_def channel_ok_def om_find_erase split: if_splits)
qed

lemma removeInvite_ok:
  assumes "channel_ok pl ch"
  shows "channel_ok pl (snd (removeInvite k ch))"
    "om_find (invites (snd (removeInvite k ch))) k = None"
  using assms om_erase_subset [of "invites ch" k]
  by (auto simp: channel_ok_def removeInvite_def om_ok_erase om_find_erase)

lemma invitePlayer_ok:
  assumes "channel_ok pl ch" "pl p \<noteq> None" "pl i = Some y" "invitePlayer p x i y ch = (ch', ms)"
  shows "channel_ok pl ch'" "reach_all pl ms" "owner ch' = owner ch" "ch_id ch' = ch_id ch"
proof -
  have "channel_ok pl (ch\<lparr>invites := om_set (invites ch) (ct_guid y) i\<rparr>)"
    using assms(1,3) by (auto simp: channel_ok_def om_ok_set dest!: om_set_in)
  then show "channel_ok pl ch'" using assms by (auto simp: invitePlayer_def split: if_splits)
  show "reach_all pl ms" "owner ch' = owner ch" "ch_id ch' = ch_id ch"
    using assms to_users_reach [OF assms(1)] by (auto simp: invitePlayer_def split: if_splits)
qed

lemma excludePlayer_ok:
  assumes ok: "channel_ok pl ch" and p: "pl p \<noteq> None" "pl i = Some y"
    and ex: "excludePlayer p i y ch = (ch', ms)"
  shows "channel_ok pl ch' \<and> reach_all pl ms \<and> owner ch' = owner ch \<and> ch_id ch' = ch_id ch"
proof -
  obtain b ch1 where r: "removeInvite (ct_guid y) ch = (b, ch1)" by fastforce
  have ok1: "channel_ok pl ch1" using removeInvite_ok(1) [OF ok, of "ct_guid y"] r by simp
  have same: "owner ch1 = owner ch" "ch_id ch1 = ch_id ch" using r by (auto simp: removeInvite_def)
  obtain b2 ch2 ms2 where u: "removeUser i y ch1 = (b2, ch2, ms2)" by (metis prod_cases3)
  note ok2 = removeUser_ok [OF ok1 u]
  show ?thesis
  proof (cases b)
    case True
    then show ?thesis using ex r u ok2 same p to_users_reach [OF ok2(1)]
      by (auto simp: excludePlayer_def)
  next
    case False
    then show ?thesis using ex r ok by (auto simp: excludePlayer_def)
  qed
qed

section \<open>The chat keeps the invariant\<close>

lemma chatters_put [simp]: "chatters (put_channel r ch c) = chatters c"
  by (cases r) simp_all

lemma channel_at_put: "channel_at (put_channel r ch c) r' = (if r' = r then Some ch else channel_at c r')"
  by (cases r; cases r') (auto simp: om_find_set)

lemma maps_put:
  "om_ok (normalChannels c) \<Longrightarrow> om_ok (normalChannels (put_channel r ch c))"
  "om_ok (privateChannels c) \<Longrightarrow> om_ok (privateChannels (put_channel r ch c))"
  "om_ok (partyChannels c) \<Longrightarrow> om_ok (partyChannels (put_channel r ch c))"
  "om_ok (guildChannels c) \<Longrightarrow> om_ok (guildChannels (put_channel r ch c))"
  by (cases r; simp add: om_ok_set)+

lemma chat_okD:
  assumes "chat_ok c"
  shows "channel_at c r = Some ch \<Longrightarrow> channel_ok (chatters c) ch" "private_ok (chatters c) (privateChannels c)"
    "channel_at c r = Some ch \<Longrightarrow> (\<forall>k. r \<noteq> PrivateRef k) \<Longrightarrow> invites ch = []"
  using assms by (auto simp: chat_ok_def)

lemma chat_ok_put_private:
  assumes ok: "chat_ok c" and ch: "channel_ok (chatters c) ch"
    and pr: "\<And>k. r = PrivateRef k \<Longrightarrow> private_ok (chatters c) (om_set (privateChannels c) k ch)"
    and inv: "(\<forall>k. r \<noteq> PrivateRef k) \<Longrightarrow> invites ch = []"
  shows "chat_ok (put_channel r ch c)"
proof -
  have "private_ok (chatters c) (privateChannels (put_channel r ch c))"
    using ok pr by (cases r) (auto simp: chat_ok_def)
  then show ?thesis using ok ch inv unfolding chat_ok_def by (simp add: maps_put channel_at_put)
qed

lemma private_same:
  assumes "private_ok pl m" "om_find m k = Some ch" "owner ch' = owner ch" "ch_id ch' = ch_id ch"
  shows "private_ok pl (om_set m k ch')"
  unfolding private_ok_def
proof (intro conjI allI impI)
  fix a d assume d: "om_find (om_set m k ch') a = Some d"
  then obtain d0 where "om_find m a = Some d0" "owner d = owner d0" "ch_id d = ch_id d0"
    using assms(2-4) by (auto simp: om_find_set split: if_splits)
  then show "ch_id d = a" "100 \<le> unat a" "unat a < 10000" "\<exists>p y. pl p = Some y \<and> ct_guid y = owner d"
    using assms(1) unfolding private_ok_def by metis+
next
  fix a b d e
  assume "om_find (om_set m k ch') a = Some d" "om_find (om_set m k ch') b = Some e" "owner d = owner e"
  then show "a = b" using assms unfolding private_ok_def
    by (simp add: om_find_set split: if_splits)
qed

lemma chat_ok_put:
  assumes "chat_ok c" "channel_at c r = Some ch" "channel_ok (chatters c) ch'" "owner ch' = owner ch"
    "ch_id ch' = ch_id ch" "(\<forall>k. r \<noteq> PrivateRef k) \<Longrightarrow> invites ch' = invites ch"
  shows "chat_ok (put_channel r ch' c)"
  using assms by (intro chat_ok_put_private) (auto intro: private_same chat_okD(2) simp: chat_okD(3))

lemma getChannel_at: "getChannel E c p x i = Some r \<Longrightarrow> \<exists>ch. channel_at c r = Some ch"
  by (auto simp: getChannel_def split: if_splits option.splits)

lemma new_channel_ok: "channel_ok pl (new_channel i s)"
  by (simp add: channel_ok_def new_channel_def)

lemma free_slot_free:
  "free_slot m is = Some i \<Longrightarrow> om_find m i = None \<and> (\<exists>n\<in>set is. i = of_nat n)"
  by (induction m "is" rule: free_slot.induct) (auto split: if_splits)

lemma free_slot_range:
  assumes "free_slot m private_slots = Some i"
  shows "om_find m i = None \<and> 100 \<le> unat i \<and> unat i < 10000"
proof -
  obtain n where n: "om_find m i = None" "n \<in> set private_slots" "i = of_nat n"
    using free_slot_free [OF assms] by blast
  have "100 \<le> n \<and> n < 10000" using n(2) unfolding private_slots_def set_upt by simp
  then show ?thesis using n by (simp add: unat_of_nat)
qed

lemma getPrivateChannel_None: "om_ok (privateChannels c) \<Longrightarrow> getPrivateChannel c x = None \<longleftrightarrow>
    (\<forall>k ch. om_find (privateChannels c) k = Some ch \<longrightarrow> owner ch \<noteq> ct_guid x)"
  unfolding getPrivateChannel_def option.map_disc_iff find_None_iff by (simp add: om_find_iff)

lemma getPrivateChannel_Some:
  assumes "om_ok (privateChannels c)" "getPrivateChannel c x = Some k"
  obtains ch where "om_find (privateChannels c) k = Some ch" "owner ch = ct_guid x"
proof -
  obtain ch where "List.find (\<lambda>(_, ch). owner ch = ct_guid x) (privateChannels c) = Some (k, ch)"
    using assms(2) by (auto simp: getPrivateChannel_def)
  then obtain i where "i < length (privateChannels c)" "privateChannels c ! i = (k, ch)" "owner ch = ct_guid x"
    by (auto simp: find_Some_iff)
  then show ?thesis using that om_find_iff [OF assms(1)] by (metis nth_mem)
qed

lemma private_new:
  assumes ok: "private_ok pl m" and p: "pl p = Some x" and k: "om_find m k = None" "100 \<le> unat k" "unat k < 10000"
    and none: "\<forall>k ch. om_find m k = Some ch \<longrightarrow> owner ch \<noteq> ct_guid x"
    and ch: "ch_id ch = k" "owner ch = ct_guid x"
  shows "private_ok pl (om_set m k ch)"
  unfolding private_ok_def
proof (intro conjI allI impI)
  fix a d assume "om_find (om_set m k ch) a = Some d"
  then show "ch_id d = a" "100 \<le> unat a" "unat a < 10000" "\<exists>p y. pl p = Some y \<and> ct_guid y = owner d"
    using ok p k ch unfolding private_ok_def by (auto simp: om_find_set split: if_splits)
next
  fix a b d e
  assume "om_find (om_set m k ch) a = Some d" "om_find (om_set m k ch) b = Some e" "owner d = owner e"
  then show "a = b" using ok none ch unfolding private_ok_def
    by (simp add: om_find_set split: if_splits)
qed

lemma createChannel_ok:
  assumes ok: "chat_ok c" and p: "chatters c p = Some x" and cr: "createChannel E p x i c = (r, c')"
  shows "chat_ok c'" "chatters c' = chatters c" "r = Some r' \<Longrightarrow> \<exists>ch. channel_at c' r' = Some ch"
proof -
  have pr: "om_ok (privateChannels c)" "private_ok (chatters c) (privateChannels c)"
    using ok by (auto simp: chat_ok_def)
  have new: "chat_ok (put_channel (PrivateRef k) ((new_channel k s)\<lparr>owner := ct_guid x\<rparr>) c)"
    if "getPrivateChannel c x = None" "free_slot (privateChannels c) private_slots = Some k" for k s
  proof -
    have k: "om_find (privateChannels c) k = None" "100 \<le> unat k" "unat k < 10000"
      using free_slot_range [OF that(2)] by auto
    have none: "\<forall>k ch. om_find (privateChannels c) k = Some ch \<longrightarrow> owner ch \<noteq> ct_guid x"
      using getPrivateChannel_None [OF pr(1)] that(1) by blast
    have "channel_ok (chatters c) ((new_channel k s)\<lparr>owner := ct_guid x\<rparr>)"
      by (simp add: channel_ok_def new_channel_def)
    then show ?thesis
      by (rule chat_ok_put_private [OF ok]) (auto intro!: private_new [OF pr(2) p k none] simp: new_channel_def)
  qed
  have plain: "chat_ok (put_channel r (new_channel k s) c)" if "\<And>k. r \<noteq> PrivateRef k" for r k s
    by (rule chat_ok_put_private [OF ok new_channel_ok]) (use that in \<open>auto simp: new_channel_def\<close>)
  show "chat_ok c'"
    using cr ok new plain [of "GuildRef _"] plain [of "PartyRef _"] unfolding createChannel_def
    by (simp del: put_channel.simps split: if_splits option.splits prod.splits; blast)
  show "chatters c' = chatters c"
    using cr by (auto simp: createChannel_def split: if_splits option.splits)
  show "\<exists>ch. channel_at c' r' = Some ch" if "r = Some r'"
    using cr that by (auto simp: createChannel_def om_find_set split: if_splits option.splits)
qed

lemma chat_ok_shrink:
  assumes ok: "chat_ok c"
  shows "chat_ok (c\<lparr>guildChannels := om_erase (guildChannels c) g\<rparr>)"
    "chat_ok (c\<lparr>partyChannels := om_erase (partyChannels c) q\<rparr>)"
    "chat_ok (c\<lparr>privateChannels := om_erase (privateChannels c) k\<rparr>)"
proof -
  have maps: "om_ok (guildChannels c)" "om_ok (partyChannels c)" "om_ok (privateChannels c)"
    using ok by (auto simp: chat_ok_def)
  let ?g = "c\<lparr>guildChannels := om_erase (guildChannels c) g\<rparr>"
    and ?q = "c\<lparr>partyChannels := om_erase (partyChannels c) q\<rparr>"
    and ?k = "c\<lparr>privateChannels := om_erase (privateChannels c) k\<rparr>"
  have at: "channel_at ?g r = Some ch \<Longrightarrow> channel_at c r = Some ch"
    "channel_at ?q r = Some ch \<Longrightarrow> channel_at c r = Some ch"
    "channel_at ?k r = Some ch \<Longrightarrow> channel_at c r = Some ch" for r ch
    using maps by (cases r; auto simp: om_find_erase split: if_splits)+
  have "private_ok (chatters c) (om_erase (privateChannels c) k)"
    using ok maps unfolding chat_ok_def private_ok_def by (simp add: om_find_erase)
  then show "chat_ok ?k" "chat_ok ?g" "chat_ok ?q"
    using ok at unfolding chat_ok_def by (simp_all add: om_ok_erase) blast+
qed

lemma deleteChannel_ok:
  assumes ok: "chat_ok c"
  shows "\<exists>b c'. deleteChannel x i c = Some (b, c') \<and> chat_ok c' \<and> chatters c' = chatters c"
proof -
  consider "i = CHANNEL_GUILD" | "i \<noteq> CHANNEL_GUILD" "i = CHANNEL_PARTY" | "i \<noteq> CHANNEL_GUILD" "i \<noteq> CHANNEL_PARTY" by blast
  then show ?thesis
  proof cases
    case 1
    then show ?thesis using ok chat_ok_shrink(1) [OF ok] by (auto simp: deleteChannel_def split: option.split)
  next
    case 2
    then show ?thesis using ok chat_ok_shrink(2) [OF ok] by (auto simp: deleteChannel_def split: option.split)
  next
    case 3
    show ?thesis
    proof (cases "om_find (privateChannels c) i")
      case None
      then show ?thesis using 3 ok by (auto simp: deleteChannel_def)
    next
      case (Some ch)
      have "channel_ok (chatters c) ch" using chat_okD(1) [OF ok, of "PrivateRef i"] Some by simp
      then have "deliver_all (closeChannel ch) c = Some (c\<lparr>chat_log := chat_log c @ closeChannel ch\<rparr>)"
        by (simp add: closeChannel_def deliver_all_reach to_users_reach)
      moreover have "chat_ok (c\<lparr>chat_log := l, privateChannels := om_erase (privateChannels c) i\<rparr>)" for l
        using chat_ok_shrink(3) [of "c\<lparr>chat_log := l\<rparr>" i] ok by simp
      ultimately show ?thesis using 3 Some by (auto simp: deleteChannel_def)
    qed
  qed
qed

lemma addUserToChannel_ok:
  assumes ok: "chat_ok c" and p: "chatters c p = Some x"
  shows "\<exists>r c'. addUserToChannel E p x i c = Some (r, c') \<and> chat_ok c' \<and> chatters c' = chatters c \<and>
    (\<forall>r'. r = Some r' \<longrightarrow> channel_at c' r' \<noteq> None)"
proof (cases "getChannel E c p x i")
  case None
  then show ?thesis using ok by (simp add: addUserToChannel_def)
next
  case (Some r)
  obtain ch where ch: "channel_at c r = Some ch" using getChannel_at [OF Some] by blast
  obtain b ch' ms where a: "addUser E p x ch = (b, ch', ms)" by (metis prod_cases3)
  have "chatters c p \<noteq> None" using p by simp
  note u = addUser_ok [OF chat_okD(1) [OF ok ch] this a]
  have "chat_ok (put_channel r ch' (c\<lparr>chat_log := chat_log c @ ms\<rparr>))"
    by (rule chat_ok_put [of _ _ ch]) (use ok ch u in simp_all)
  then show ?thesis using ok u(2) by (auto simp: addUserToChannel_def Some ch a deliver_all_reach channel_at_put)
qed

lemma removeUserFromChannel_ok:
  assumes ok: "chat_ok c"
  shows "\<exists>b c'. removeUserFromChannel E p x i c = Some (b, c') \<and> chat_ok c' \<and> chatters c' = chatters c"
proof (cases "getChannel E c p x i")
  case None
  then show ?thesis using ok by (auto simp: removeUserFromChannel_def)
next
  case (Some r)
  obtain ch where ch: "channel_at c r = Some ch" using getChannel_at [OF Some] by blast
  obtain b ch' ms where a: "removeUser p x ch = (b, ch', ms)" by (metis prod_cases3)
  note u = removeUser_ok [OF chat_okD(1) [OF ok ch] a]
  define c1 where "c1 = (put_channel r ch' c)\<lparr>chat_log := chat_log (put_channel r ch' c) @ ms\<rparr>"
  have c1: "deliver_all ms (put_channel r ch' c) = Some c1" "chat_ok c1" "chatters c1 = chatters c"
    using chat_ok_put [OF ok ch u(1,3,4,5)] u(2) by (simp_all add: c1_def deliver_all_reach)
  obtain b' c2 where "deleteChannel x i c1 = Some (b', c2)" "chat_ok c2" "chatters c2 = chatters c1"
    using deleteChannel_ok [OF c1(2), of x i] by blast
  then show ?thesis using ok c1 by (auto simp: removeUserFromChannel_def Some ch a)
qed

lemma talkToChannel_ok:
  assumes ok: "chat_ok c"
  shows "chat_safe (map_option snd (talkToChannel E p x t s i c))"
proof (cases "getChannel E c p x i")
  case None
  then show ?thesis using ok by (simp add: talkToChannel_def)
next
  case (Some r)
  obtain ch where ch: "channel_at c r = Some ch" using getChannel_at [OF Some] by blast
  obtain b t' where e: "executeOnSpeakEvent E ch p (talk_type x i t) s = (b, t')" by fastforce
  have "reach_all (chatters c) (snd (talk ch p x t' s))"
    using to_users_reach [OF chat_okD(1) [OF ok ch]] by (simp add: talk_def)
  then show ?thesis using ok
    by (cases "talk ch p x t' s") (simp add: talkToChannel_def Some ch e deliver_all_reach)
qed

lemma getChannelList_ok:
  assumes ok: "chat_ok c" and p: "chatters c p = Some x"
  shows "chat_ok (snd (getChannelList E p x c))"
proof -
  define own where "own = (\<lambda>wanted channelId c.
    if \<not> wanted then ([], c)
    else case getChannel E c p x channelId of Some r \<Rightarrow> ([Some r], c)
      | None \<Rightarrow> (case createChannel E p x channelId c of
            (Some r, c') \<Rightarrow> ([Some r], c') | (None, c') \<Rightarrow> ([], c')))"
  have own: "chat_ok (snd (own w i d)) \<and> chatters (snd (own w i d)) = chatters d"
    if "chat_ok d" "chatters d p = Some x" for w i d
  proof -
    obtain r d' where "createChannel E p x i d = (r, d')" by fastforce
    with createChannel_ok(1,2) [OF that this] that show ?thesis
      by (auto simp: own_def split: option.split)
  qed
  have "snd (getChannelList E p x c) = snd (own (ct_party x \<noteq> None) CHANNEL_PARTY
      (snd (own (ct_guild x \<noteq> None) CHANNEL_GUILD c)))"
    by (simp add: getChannelList_def own_def [symmetric] Let_def split: prod.split)
  then show ?thesis using own [OF ok p] own p by metis
qed

section \<open>Requests keep the invariant\<close>

lemma create_safe:
  assumes ok: "chat_ok c"
  shows "chat_safe (playerCreatePrivateChannel E p c)"
proof (cases "\<exists>x. chatters c p = Some x \<and> ct_premium x")
  case False
  then show ?thesis using ok by (auto simp: playerCreatePrivateChannel_def split: option.split)
next
  case True
  then obtain x where x: "chatters c p = Some x" "ct_premium x" by blast
  obtain r c1 where cr: "createChannel E p x CHANNEL_PRIVATE c = (r, c1)" by fastforce
  note c1 = createChannel_ok [OF ok x(1) cr]
  show ?thesis
  proof (cases r)
    case None
    then show ?thesis using c1 x cr by (simp add: playerCreatePrivateChannel_def)
  next
    case (Some r')
    obtain ch where ch: "channel_at c1 r' = Some ch" using c1(3) [OF Some] by blast
    obtain b ch' ms where a: "addUser E p x ch = (b, ch', ms)" by (metis prod_cases3)
    have "chatters c1 p \<noteq> None" using x c1(2) by simp
    note u = addUser_ok [OF chat_okD(1) [OF c1(1) ch] this a]
    have "chat_safe (deliver_all (ms @ [(p, ChannelCreated (ch_id ch') (ch_name ch'))]) (put_channel r' ch' c1))"
      by (rule deliver_all_safe [OF chat_ok_put [OF c1(1) ch u(1,3,4,5)]]) (use u(2) c1(2) x in simp)
    then show ?thesis using c1(1) x cr Some ch a by (simp add: playerCreatePrivateChannel_def)
  qed
qed

lemma private_request_safe:
  assumes ok: "chat_ok c" and k: "getPrivateChannel c x = Some k"
    and f: "\<And>ch ch' ms. channel_ok (chatters c) ch \<Longrightarrow> f ch = (ch', ms) \<Longrightarrow>
      channel_ok (chatters c) ch' \<and> reach_all (chatters c) ms \<and> owner ch' = owner ch \<and> ch_id ch' = ch_id ch"
  shows "chat_safe (channel_at c (PrivateRef k) \<bind> (\<lambda>ch. let (ch', ms) = f ch in
    deliver_all ms (put_channel (PrivateRef k) ch' c)))"
proof -
  have "om_ok (privateChannels c)" using ok by (simp add: chat_ok_def)
  then obtain ch where ch: "channel_at c (PrivateRef k) = Some ch"
    using getPrivateChannel_Some [OF _ k] by fastforce
  obtain ch' ms where fc: "f ch = (ch', ms)" by fastforce
  note r = f [OF chat_okD(1) [OF ok ch] fc]
  have "chat_safe (deliver_all ms (put_channel (PrivateRef k) ch' c))"
    by (rule deliver_all_safe [OF chat_ok_put [OF ok ch]]) (use r in \<open>simp_all del: put_channel.simps\<close>)
  then show ?thesis using ch fc by simp
qed

lemma invite_safe:
  assumes ok: "chat_ok c" and n: "chat_allowed c (ChannelInvite p named)"
  shows "chat_safe (playerChannelInvite p named c)"
proof (cases "\<exists>x k i y. chatters c p = Some x \<and> getPrivateChannel c x = Some k \<and> named = Some i \<and> chatters c i = Some y \<and> i \<noteq> p")
  case False
  then show ?thesis using ok n by (auto simp: playerChannelInvite_def split: option.splits)
next
  case True
  then obtain x k i y where x: "chatters c p = Some x" "getPrivateChannel c x = Some k" "named = Some i"
    "chatters c i = Some y" "i \<noteq> p" by blast
  have "chat_safe (channel_at c (PrivateRef k) \<bind> (\<lambda>ch. let (ch', ms) = invitePlayer p x i y ch in
    deliver_all ms (put_channel (PrivateRef k) ch' c)))"
  proof (rule private_request_safe [OF ok x(2)])
    fix ch ch' ms
    assume "channel_ok (chatters c) ch" "invitePlayer p x i y ch = (ch', ms)"
    then show "channel_ok (chatters c) ch' \<and> reach_all (chatters c) ms \<and> owner ch' = owner ch \<and> ch_id ch' = ch_id ch"
      using invitePlayer_ok [of "chatters c" ch p i y x ch' ms] x by simp
  qed
  then show ?thesis using x by (simp add: playerChannelInvite_def)
qed

lemma exclude_safe:
  assumes ok: "chat_ok c" and n: "chat_allowed c (ChannelExclude p named)"
  shows "chat_safe (playerChannelExclude p named c)"
proof (cases "\<exists>x k i y. chatters c p = Some x \<and> getPrivateChannel c x = Some k \<and> named = Some i \<and> chatters c i = Some y \<and> i \<noteq> p")
  case False
  then show ?thesis using ok n by (auto simp: playerChannelExclude_def split: option.splits)
next
  case True
  then obtain x k i y where x: "chatters c p = Some x" "getPrivateChannel c x = Some k" "named = Some i"
    "chatters c i = Some y" "i \<noteq> p" by blast
  have "chat_safe (channel_at c (PrivateRef k) \<bind> (\<lambda>ch. let (ch', ms) = excludePlayer p i y ch in
    deliver_all ms (put_channel (PrivateRef k) ch' c)))"
  proof (rule private_request_safe [OF ok x(2)])
    fix ch ch' ms
    assume "channel_ok (chatters c) ch" "excludePlayer p i y ch = (ch', ms)"
    then show "channel_ok (chatters c) ch' \<and> reach_all (chatters c) ms \<and> owner ch' = owner ch \<and> ch_id ch' = ch_id ch"
      using excludePlayer_ok [of "chatters c" ch p i y ch' ms] x by simp
  qed
  then show ?thesis using x by (simp add: playerChannelExclude_def)
qed

lemma names_of_total:
  assumes "\<forall>(k, u)\<in>set m. chatters c u \<noteq> None"
  shows "\<exists>ns. names_of c m = Some ns"
  using assms unfolding names_of_def by (induction m) auto

lemma open_safe:
  assumes ok: "chat_ok c"
  shows "chat_safe (playerOpenChannel E p i c)"
proof (cases "chatters c p")
  case None
  then show ?thesis using ok by (simp add: playerOpenChannel_def)
next
  case (Some x)
  obtain r c1 where r: "addUserToChannel E p x i c = Some (r, c1)" "chat_ok c1" "chatters c1 = chatters c"
    "\<forall>r'. r = Some r' \<longrightarrow> channel_at c1 r' \<noteq> None" using addUserToChannel_ok [OF ok Some] by metis
  show ?thesis
  proof (cases r)
    case None
    then show ?thesis using Some r by (simp add: playerOpenChannel_def)
  next
    case R: (Some r')
    then obtain ch where ch: "channel_at c1 r' = Some ch" using r(4) by blast
    have "channel_ok (chatters c1) ch" by (rule chat_okD(1) [OF r(2) ch])
    then obtain us vs where "names_of c1 (users ch) = Some us" "names_of c1 (invites ch) = Some vs"
      using names_of_total [of "users ch" c1] names_of_total [of "invites ch" c1] by (force simp: channel_ok_def)
    then show ?thesis using Some r R ch by (simp add: playerOpenChannel_def deliver_all_safe)
  qed
qed

lemma close_safe:
  assumes ok: "chat_ok c"
  shows "chat_safe (playerCloseChannel E p i c)"
proof (cases "chatters c p")
  case None
  then show ?thesis using ok by (simp add: playerCloseChannel_def)
next
  case (Some x)
  obtain b c1 where "removeUserFromChannel E p x i c = Some (b, c1)" "chat_ok c1"
    using removeUserFromChannel_ok [OF ok] by blast
  then show ?thesis using Some by (simp add: playerCloseChannel_def)
qed

lemma close_private_safe:
  assumes ok: "chat_ok c" and p: "chatters c p = Some x"
  shows "chat_safe (sendClosePrivate E p i c)"
proof -
  obtain b c1 where "removeUserFromChannel E p x i c = Some (b, c1)" "chat_ok c1" "chatters c1 = chatters c"
    using removeUserFromChannel_ok [OF ok] by blast
  then show ?thesis using ok p by (simp add: sendClosePrivate_def deliver_all_safe)
qed

lemma add_users_ok:
  assumes "channel_ok pl ch" "\<forall>(k, u)\<in>set us. pl u \<noteq> None"
  shows "\<exists>ch' ms. add_users E pl us ch = Some (ch', ms) \<and> channel_ok pl ch' \<and> reach_all pl ms \<and>
    owner ch' = owner ch \<and> ch_id ch' = ch_id ch \<and> invites ch' = invites ch"
  using assms
proof (induction us arbitrary: ch)
  case Nil
  then show ?case by simp
next
  case (Cons ku us)
  obtain k u where ku: "ku = (k, u)" by fastforce
  with Cons.prems obtain x where x: "pl u = Some x" by auto
  obtain b ch1 ms where a: "addUser E u x ch = (b, ch1, ms)" by (metis prod_cases3)
  have "pl u \<noteq> None" using x by simp
  note ok1 = addUser_ok [OF Cons.prems(1) this a]
  obtain ch2 ms2 where "add_users E pl us ch1 = Some (ch2, ms2)" "channel_ok pl ch2" "reach_all pl ms2"
    "owner ch2 = owner ch1" "ch_id ch2 = ch_id ch1" "invites ch2 = invites ch1"
    using Cons.IH [OF ok1(1)] Cons.prems(2) by auto
  then show ?case using ok1 by (simp add: ku x a)
qed

lemma load_script_simps [simp]:
  "users (load_script nd ch) = users ch" "invites (load_script nd ch) = invites ch"
  "owner (load_script nd ch) = owner ch" "ch_id (load_script nd ch) = ch_id ch"
  by (auto simp: load_script_def split: option.split)

lemma load_node_ok:
  assumes ok: "chat_ok c"
  shows "chat_safe (load_node E nd c)"
proof (cases "om_find (normalChannels c) (nd_id nd)")
  case None
  have "chat_ok (put_channel (NormalRef (nd_id nd))
      (load_script nd ((new_channel (nd_id nd) (nd_name nd))\<lparr>publicChannel := nd_public nd\<rparr>)) c)"
    by (rule chat_ok_put_private [OF ok]) (auto simp: channel_ok_def new_channel_def)
  then show ?thesis by (simp add: load_node_def None)
next
  case (Some ch)
  have at: "channel_at c (NormalRef (nd_id nd)) = Some ch" using Some by simp
  have ch: "channel_ok (chatters c) ch" by (rule chat_okD(1) [OF ok at])
  let ?ch = "(load_script nd (ch\<lparr>publicChannel := nd_public nd, ch_name := nd_name nd\<rparr>))\<lparr>users := []\<rparr>"
  have "channel_ok (chatters c) ?ch" using ch by (simp add: channel_ok_def)
  moreover have "\<forall>(k, u)\<in>set (users ch). chatters c u \<noteq> None" using ch by (auto simp: channel_ok_def)
  ultimately obtain ch' ms where a: "add_users E (chatters c) (users ch) ?ch = Some (ch', ms)"
    "channel_ok (chatters c) ch'" "reach_all (chatters c) ms" "owner ch' = owner ch" "ch_id ch' = ch_id ch"
    "invites ch' = invites ch"
    using add_users_ok [of "chatters c" ?ch "users ch" E] by auto
  have "chat_safe (deliver_all ms (put_channel (NormalRef (nd_id nd)) ch' c))"
    by (rule deliver_all_safe [OF chat_ok_put [OF ok at a(2,4,5,6)]]) (use a(3) in simp)
  then show ?thesis by (simp add: load_node_def Some a(1))
qed

lemma load_safe: "chat_ok c \<Longrightarrow> chat_safe (chat_load E nds c)"
proof (induction nds arbitrary: c)
  case (Cons nd nds)
  then show ?case using load_node_ok [of c E nd] by (auto simp: chat_safe_def)
qed simp

text \<open>The invariant only asks who is online, with which id.\<close>

lemma private_ok_chatters:
  assumes ok: "private_ok pl m" and keep: "\<And>u y. pl u = Some y \<Longrightarrow> \<exists>u' y'. pl' u' = Some y' \<and> ct_guid y' = ct_guid y"
  shows "private_ok pl' m"
proof -
  have own: "\<exists>p y. pl' p = Some y \<and> ct_guid y = owner ch" if k: "om_find m k = Some ch" for k ch
  proof -
    obtain p y where y: "pl p = Some y" "ct_guid y = owner ch" using ok k unfolding private_ok_def by blast
    obtain u' y' where "pl' u' = Some y'" "ct_guid y' = ct_guid y" using keep [OF y(1)] by blast
    then show ?thesis using y(2) by (intro exI [of _ u'] exI [of _ y']) simp
  qed
  have range: "ch_id ch = k \<and> 100 \<le> unat k \<and> unat k < 10000" if "om_find m k = Some ch" for k ch
    using ok that unfolding private_ok_def by simp
  have "k = k'" if "om_find m k = Some ch" "om_find m k' = Some ch'" "owner ch = owner ch'" for k k' ch ch'
    using ok that unfolding private_ok_def by simp
  then show ?thesis unfolding private_ok_def using own range by simp
qed

lemma chat_ok_chatters:
  assumes ok: "chat_ok c" and keep: "\<And>u y. chatters c u = Some y \<Longrightarrow> \<exists>y'. pl u = Some y' \<and> ct_guid y' = ct_guid y"
  shows "chat_ok (c\<lparr>chatters := pl\<rparr>)"
proof -
  have ch: "channel_ok pl ch" if "channel_ok (chatters c) ch" for ch
    using that keep unfolding channel_ok_def by fastforce
  have "channel_at (c\<lparr>chatters := pl\<rparr>) r = channel_at c r" for r by (cases r) simp_all
  moreover have "private_ok pl (privateChannels c)"
    by (rule private_ok_chatters [OF chat_okD(2) [OF ok]]) (drule keep, blast)
  ultimately show ?thesis using ok ch unfolding chat_ok_def by simp
qed

section \<open>Logging out\<close>

lemma channel_ok_gone:
  assumes "channel_ok pl ch" "om_find (users ch) p = None" "\<forall>(k, u)\<in>set (invites ch). u \<noteq> p"
  shows "channel_ok (pl(p := None)) ch"
proof -
  have "p \<notin> fst ` set (users ch)" using assms(2) by (simp add: om_find_None)
  then show ?thesis using assms(1,3) unfolding channel_ok_def by (fastforce simp: image_iff)
qed

text \<open>What a loop over plain channels leaves: the same keys, and nobody with the id of the player.\<close>

lemma remove_from_all_ok:
  assumes "remove_from_all p x m = (m', ms)" "\<forall>(k, ch)\<in>set m. channel_ok pl ch \<and> invites ch = []"
  shows "map fst m' = map fst m" "reach_all pl ms"
    "\<forall>(k, ch)\<in>set m'. channel_ok (pl(p := None)) ch \<and> invites ch = [] \<and> om_find (users ch) p = None"
proof -
  have "map fst m' = map fst m \<and> reach_all pl ms \<and>
    (\<forall>(k, ch)\<in>set m'. channel_ok (pl(p := None)) ch \<and> invites ch = [] \<and> om_find (users ch) p = None)"
    using assms
  proof (induction m arbitrary: m' ms)
    case (Cons kc m)
    obtain k ch where kc: "kc = (k, ch)" by fastforce
    obtain b ch' ms1 where r: "removeUser p x ch = (b, ch', ms1)" by (metis prod_cases3)
    obtain m2 ms2 where m2: "remove_from_all p x m = (m2, ms2)" by fastforce
    have ch: "channel_ok pl ch" "invites ch = []" using Cons.prems(2) kc by auto
    note u = removeUser_ok [OF ch(1) r]
    have "channel_ok (pl(p := None)) ch'" by (rule channel_ok_gone [OF u(1,6)]) (simp add: u(5) ch(2))
    then show ?case using Cons.IH [OF m2] Cons.prems u(2,5,6) ch(2)
      by (auto simp: kc r m2 simp del: fun_upd_apply)
  qed simp
  then show "map fst m' = map fst m" "reach_all pl ms"
    "\<forall>(k, ch)\<in>set m'. channel_ok (pl(p := None)) ch \<and> invites ch = [] \<and> om_find (users ch) p = None"
    by (simp_all del: fun_upd_apply)
qed

text \<open>Private channels: those of the player are gone, the others lose the player and the invitation.\<close>

definition left_private ::
    "(u32 \<Rightarrow> chatter option) \<Rightarrow> u32 \<Rightarrow> chatter \<Rightarrow> ('k \<times> ChatChannel) list \<Rightarrow> 'k \<Rightarrow> ChatChannel \<Rightarrow> bool" where
  "left_private pl p x m k ch \<longleftrightarrow>
     channel_ok (pl(p := None)) ch \<and> om_find (users ch) p = None \<and> om_find (invites ch) (ct_guid x) = None \<and>
     owner ch \<noteq> ct_guid x \<and> (\<exists>ch0. (k, ch0) \<in> set m \<and> owner ch = owner ch0 \<and> ch_id ch = ch_id ch0)"

lemma left_private_channel:
  assumes ch: "channel_ok pl ch" and p: "pl p = Some x"
    and r: "removeUser p x (snd (removeInvite (ct_guid x) ch)) = (b, ch', ms)" and own: "owner ch' \<noteq> ct_guid x"
    and m: "(k, ch) \<in> set m"
  shows "left_private pl p x m k ch'"
proof -
  note i = removeInvite_ok [OF ch, of "ct_guid x"]
  note u = removeUser_ok [OF i(1) r]
  have "u \<noteq> p" if "(k, u) \<in> set (invites ch')" for k u
  proof
    assume up: "u = p"
    from u(1) that obtain y where "pl u = Some y" "ct_guid y = k" by (auto simp: channel_ok_def)
    then have k: "k = ct_guid x" using p up by simp
    have "ct_guid x \<notin> fst ` set (invites ch')" using i(2) u(5) by (simp add: om_find_None)
    with that k show False by force
  qed
  then have "channel_ok (pl(p := None)) ch'" using channel_ok_gone [OF u(1,6)] by fast
  moreover have "owner ch' = owner ch" "ch_id ch' = ch_id ch" using u(3,4) by (simp_all add: removeInvite_def)
  ultimately show ?thesis using u(5,6) i(2) own m unfolding left_private_def by auto
qed

lemma left_private_mono: "left_private pl p x m k ch \<Longrightarrow> left_private pl p x (a # m) k ch"
  unfolding left_private_def by auto

lemma remove_from_private_ok:
  assumes "remove_from_private p x m = (m', ms)" "\<forall>(k, ch)\<in>set m. channel_ok pl ch" "pl p = Some x" "om_ok m"
  shows "reach_all pl ms \<and> om_ok m' \<and> fst ` set m' \<subseteq> fst ` set m \<and> (\<forall>(k, ch)\<in>set m'. left_private pl p x m k ch)"
  using assms
proof (induction m arbitrary: m' ms)
  case (Cons kc m)
  obtain k ch where kc: "kc = (k, ch)" by fastforce
  obtain b ch1 where i: "removeInvite (ct_guid x) ch = (b, ch1)" by fastforce
  obtain b' ch' ms1 where r: "removeUser p x ch1 = (b', ch', ms1)" by (metis prod_cases3)
  obtain m2 ms2 where m2: "remove_from_private p x m = (m2, ms2)" by fastforce
  have ch: "channel_ok pl ch" using Cons.prems(2) kc by auto
  have ok1: "channel_ok pl ch1" using removeInvite_ok(1) [OF ch, of "ct_guid x"] i by simp
  note u = removeUser_ok [OF ok1 r]
  have less: "\<forall>k'\<in>fst ` set m. k < k'" "om_ok m" using Cons.prems(4) kc by (simp_all add: om_ok_Cons)
  have IH: "reach_all pl ms2" "om_ok m2" "fst ` set m2 \<subseteq> fst ` set m" "\<forall>(k, ch)\<in>set m2. left_private pl p x m k ch"
    using Cons.IH [OF m2 _ Cons.prems(3) less(2)] Cons.prems(2) by auto
  have close: "reach_all pl (closeChannel ch')" unfolding closeChannel_def by (rule to_users_reach [OF u(1)])
  have new: "left_private pl p x (kc # m) k ch'" if "owner ch' \<noteq> ct_guid x"
    by (rule left_private_channel [OF ch Cons.prems(3), of b' ch' ms1]) (use that i r kc in simp_all)
  have old: "\<forall>(k, ch)\<in>set m2. left_private pl p x (kc # m) k ch" using IH(4) by (auto intro: left_private_mono)
  show ?case
  proof (cases "owner ch' = ct_guid x")
    case True
    then have "m' = m2" "ms = ms1 @ closeChannel ch' @ ms2" using Cons.prems(1) kc i r m2 by simp_all
    then show ?thesis using IH(1-3) u(2) close old by auto
  next
    case False
    then have eq: "m' = (k, ch') # m2" "ms = ms1 @ ms2" using Cons.prems(1) kc i r m2 by simp_all
    have "om_ok m'" unfolding eq om_ok_Cons using IH(2) subsetD [OF IH(3)] less(1) by blast
    then show ?thesis using IH(1,3) u(2) old new [OF False] kc by (auto simp: eq)
  qed
qed simp

text \<open>Nothing in the chat remembers a player.\<close>

definition forgotten :: "chat \<Rightarrow> u32 \<Rightarrow> u32 \<Rightarrow> bool" where
  "forgotten c p guid \<longleftrightarrow> (\<forall>r ch. channel_at c r = Some ch \<longrightarrow>
     om_find (users ch) p = None \<and> om_find (invites ch) guid = None \<and>
     (\<forall>k. r = PrivateRef k \<longrightarrow> owner ch \<noteq> guid))"

lemma om_ok_keys: "map fst m' = map fst m \<Longrightarrow> om_ok m \<Longrightarrow> om_ok m'"
  by (simp add: om_ok_def)

lemma private_left:
  assumes ok: "private_ok pl m" "om_ok m" and p: "pl p = Some x"
    and left: "\<And>k ch. om_find m' k = Some ch \<Longrightarrow> left_private pl p x m k ch"
  shows "private_ok (pl(p := None)) m'"
proof -
  have orig: "\<exists>ch0. om_find m k = Some ch0 \<and> owner ch = owner ch0 \<and> ch_id ch = ch_id ch0 \<and> owner ch \<noteq> ct_guid x"
    if "om_find m' k = Some ch" for k ch
    using left [OF that] om_find_in [OF ok(2)] unfolding left_private_def by blast
  have one: "ch_id ch = k \<and> 100 \<le> unat k \<and> unat k < 10000 \<and> (\<exists>u y. (pl(p := None)) u = Some y \<and> ct_guid y = owner ch)"
    if k: "om_find m' k = Some ch" for k ch
  proof -
    obtain ch0 where ch0: "om_find m k = Some ch0" "owner ch = owner ch0" "ch_id ch = ch_id ch0" "owner ch \<noteq> ct_guid x"
      using orig [OF k] by blast
    then obtain u y where u: "pl u = Some y" "ct_guid y = owner ch0" "ch_id ch0 = k" "100 \<le> unat k" "unat k < 10000"
      using ok(1) unfolding private_ok_def by blast
    then have "u \<noteq> p" using p ch0 by auto
    then have "(pl(p := None)) u = Some y" using u(1) by simp
    then show ?thesis using u ch0 by metis
  qed
  have "k = k'" if "om_find m' k = Some ch" "om_find m' k' = Some ch'" "owner ch = owner ch'" for k k' ch ch'
    using orig [OF that(1)] orig [OF that(2)] that(3) ok(1) unfolding private_ok_def by metis
  then show ?thesis unfolding private_ok_def using one by blast
qed

lemma logout_ok:
  assumes ok: "chat_ok c" and p: "chatters c p = Some x"
  shows "\<exists>c'. chat_logout p c = Some c' \<and> chat_ok c' \<and> forgotten c' p (ct_guid x)"
proof -
  let ?pl = "chatters c"
  obtain n ms1 where n: "remove_from_all p x (normalChannels c) = (n, ms1)" by fastforce
  obtain q ms2 where q: "remove_from_all p x (partyChannels c) = (q, ms2)" by fastforce
  obtain g ms3 where g: "remove_from_all p x (guildChannels c) = (g, ms3)" by fastforce
  obtain pr ms4 where pr: "remove_from_private p x (privateChannels c) = (pr, ms4)" by fastforce
  have maps: "om_ok (normalChannels c)" "om_ok (partyChannels c)" "om_ok (guildChannels c)" "om_ok (privateChannels c)"
    using ok by (auto simp: chat_ok_def)
  have "\<forall>(k, ch)\<in>set (normalChannels c). channel_ok ?pl ch \<and> invites ch = []"
    using chat_okD(1,3) [OF ok, of "NormalRef _"] om_find_in [OF maps(1)] by fastforce
  note n' = remove_from_all_ok [OF n this]
  have "\<forall>(k, ch)\<in>set (partyChannels c). channel_ok ?pl ch \<and> invites ch = []"
    using chat_okD(1,3) [OF ok, of "PartyRef _"] om_find_in [OF maps(2)] by fastforce
  note q' = remove_from_all_ok [OF q this]
  have "\<forall>(k, ch)\<in>set (guildChannels c). channel_ok ?pl ch \<and> invites ch = []"
    using chat_okD(1,3) [OF ok, of "GuildRef _"] om_find_in [OF maps(3)] by fastforce
  note g' = remove_from_all_ok [OF g this]
  have "\<forall>(k, ch)\<in>set (privateChannels c). channel_ok ?pl ch"
    using chat_okD(1) [OF ok, of "PrivateRef _"] om_find_in [OF maps(4)] by fastforce
  note pr' = remove_from_private_ok [OF pr this p maps(4)]
  define c' where "c' = c\<lparr>normalChannels := n, partyChannels := q, guildChannels := g, privateChannels := pr,
    chat_log := chat_log c @ ms1 @ ms2 @ ms3 @ ms4, chatters := ?pl(p := None)\<rparr>"
  have run: "chat_logout p c = Some c'"
    using n'(2) q'(2) g'(2) pr'
    by (simp add: chat_logout_def p removeUserFromAllChannels_def n q g pr deliver_all_reach c'_def)
  have plain: "channel_ok (?pl(p := None)) ch \<and> invites ch = [] \<and> om_find (users ch) p = None"
    if "channel_at c' r = Some ch" "\<forall>k. r \<noteq> PrivateRef k" for r ch
    using that n'(3) q'(3) g'(3) by (cases r) (auto simp: c'_def simp del: fun_upd_apply dest!: om_find_SomeD)
  have priv: "left_private ?pl p x (privateChannels c) k ch" if "om_find pr k = Some ch" for k ch
    using om_find_SomeD [OF that] pr' by blast
  have "private_ok (?pl(p := None)) pr" by (rule private_left [OF chat_okD(2) [OF ok] maps(4) p priv])
  moreover have "om_ok n" "om_ok q" "om_ok g" "om_ok pr"
    using om_ok_keys [OF n'(1)] om_ok_keys [OF q'(1)] om_ok_keys [OF g'(1)] maps pr' by auto
  moreover have all: "channel_ok (?pl(p := None)) ch \<and> ((\<forall>k. r \<noteq> PrivateRef k) \<longrightarrow> invites ch = []) \<and>
      om_find (users ch) p = None \<and> om_find (invites ch) (ct_guid x) = None \<and>
      (\<forall>k. r = PrivateRef k \<longrightarrow> owner ch \<noteq> ct_guid x)" if at: "channel_at c' r = Some ch" for r ch
  proof (cases "\<exists>k. r = PrivateRef k")
    case True
    then obtain k where "r = PrivateRef k" "om_find pr k = Some ch" using at by (auto simp: c'_def)
    then show ?thesis using priv [of k ch] unfolding left_private_def by blast
  next
    case False
    then show ?thesis using plain [OF at] by auto
  qed
  ultimately have "chat_ok c'" unfolding chat_ok_def by (simp add: c'_def)
  moreover have "forgotten c' p (ct_guid x)" unfolding forgotten_def using all by blast
  ultimately show ?thesis using run by blast
qed

section \<open>Runs of the chat\<close>

lemma chat_step_safe:
  assumes ok: "chat_ok c" and e: "chat_allowed c e"
  shows "chat_safe (chat_step E e c)"
proof (cases e)
  case (ChatLogin p x)
  have "chat_ok (c\<lparr>chatters := (chatters c)(p \<mapsto> x)\<rparr>)" if "chatters c p = None"
    by (rule chat_ok_chatters [OF ok]) (use that in auto)
  then show ?thesis using ok ChatLogin by simp
next
  case (ChatLogout p)
  then show ?thesis using ok logout_ok [OF ok, of p]
    by (cases "chatters c p") (auto simp: chat_safe_def chat_logout_def)
next
  case (Talk p t s i)
  then show ?thesis using ok talkToChannel_ok [OF ok] by (auto simp: player_talks_def split: option.split)
next
  case (ListChannels p)
  then show ?thesis using ok getChannelList_ok [OF ok] by (auto split: option.split)
next
  case (ChangeParty p q)
  then show ?thesis by (auto simp: upd_chatter_def intro!: chat_ok_chatters [OF ok])
next
  case (ChangeGuild p g r)
  then show ?thesis by (auto simp: upd_chatter_def intro!: chat_ok_chatters [OF ok])
next
  case (ClosePrivate p i)
  then show ?thesis using e close_private_safe [OF ok] by auto
qed (use ok e in \<open>simp_all add: create_safe invite_safe exclude_safe open_safe close_safe load_safe\<close>)

lemma no_chat_ok: "chat_ok no_chat"
proof -
  have "channel_at no_chat r = None" for r by (cases r) (simp_all add: no_chat_def)
  then show ?thesis by (simp add: chat_ok_def private_ok_def no_chat_def)
qed

interpretation chat_machine: safe_machine "chat_step E" chat_allowed chat_ok for E
  using chat_step_safe by unfold_locales (auto simp: chat_safe_def)

lemmas chat_reached_ok = chat_machine.reached_ok [OF _ no_chat_ok]

section \<open>Properties\<close>

text \<open>
  C20. No request to the chat follows a pointer to a player who is gone: every event that the game lets
  through is defined in every reachable state, whatever the channel scripts answer.
\<close>

theorem chat_never_dangles:
  assumes "reached (chat_step E) chat_allowed no_chat c" "chat_allowed c e"
  shows "\<exists>c'. chat_step E e c = Some c' \<and> reached (chat_step E) chat_allowed no_chat c'"
  by (rule chat_machine.never_stuck [OF assms(1) no_chat_ok assms(2)])

text \<open>
  C21. After a logout no channel lists the player, no private channel keeps an invitation for the
  character and the character's own private channel is gone.
\<close>

theorem logout_forgets:
  assumes "reached (chat_step E) chat_allowed no_chat c" "chatters c p = Some x"
  shows "\<exists>c'. chat_step E (ChatLogout p) c = Some c' \<and> chatters c' p = None \<and>
    (\<forall>r ch. channel_at c' r = Some ch \<longrightarrow> \<not> hasUser ch p \<and> om_find (invites ch) (ct_guid x) = None) \<and>
    getPrivateChannel c' x = None"
proof -
  obtain c' where c': "chat_logout p c = Some c'" "chat_ok c'" "forgotten c' p (ct_guid x)"
    using logout_ok [OF chat_reached_ok [OF assms(1)] assms(2)] by blast
  have "chatters c' p = None"
    using c'(1) assms(2) by (auto simp: chat_logout_def split: bind_splits)
  moreover have "getPrivateChannel c' x = None"
    using getPrivateChannel_None [of c' x] c'(2,3) unfolding chat_ok_def forgotten_def
    by (metis channel_at.simps(2))
  moreover have "\<forall>r ch. channel_at c' r = Some ch \<longrightarrow> \<not> hasUser ch p \<and> om_find (invites ch) (ct_guid x) = None"
    using c'(3) unfolding forgotten_def hasUser_def by simp
  ultimately show ?thesis using c'(1) by simp
qed

text \<open>
  In every reachable state the ids of private channels lie between 100 and 9999, every private
  channel belongs to a character who is online, and no character owns two.
\<close>

theorem private_channels_owned:
  assumes "reached (chat_step E) chat_allowed no_chat c" "om_find (privateChannels c) k = Some ch"
  shows "ch_id ch = k \<and> 100 \<le> unat k \<and> unat k < 10000 \<and> (\<exists>p y. chatters c p = Some y \<and> ct_guid y = owner ch) \<and>
    (\<forall>k' ch'. om_find (privateChannels c) k' = Some ch' \<longrightarrow> owner ch' = owner ch \<longrightarrow> k' = k)"
  using chat_okD(2) [OF chat_reached_ok [OF assms(1)]] assms(2) unfolding private_ok_def by metis


section \<open>A channel in use\<close>

fun chat_run :: "chat_env \<Rightarrow> chat_event list \<Rightarrow> chat \<Rightarrow> chat option" where
  "chat_run E [] c = Some c"
| "chat_run E (e # es) c = (if chat_allowed c e then chat_step E e c \<bind> chat_run E es else None)"

lemma chat_run_reached:
  "chat_run E es c = Some c' \<Longrightarrow> reached (chat_step E) chat_allowed no_chat c \<Longrightarrow>
   reached (chat_step E) chat_allowed no_chat c'"
  by (induction es arbitrary: c) (auto split: if_splits bind_splits intro: reached_step)

definition silent_scripts :: chat_env where
  "silent_scripts = \<lparr>reserveScriptEnv = (\<lambda>_ _. True), callFunction = (\<lambda>_ _. True),
     speakFunction = (\<lambda>_ _ _ _. LuaBool True)\<rparr>"

definition visitor :: "u32 \<Rightarrow> string \<Rightarrow> nat option \<Rightarrow> chatter" where
  "visitor guid name q = \<lparr>ct_guid = guid, ct_name = name, ct_female = False, ct_premium = True, ct_guild = None,
     ct_rank_level = None, ct_party = q\<rparr>"

lemma run_reached:
  assumes "chat_run E es no_chat \<noteq> None"
  shows "reached (chat_step E) chat_allowed no_chat (the (chat_run E es no_chat))"
  using assms chat_run_reached [of E es no_chat] by (auto simp: reached_start)

definition party_talk :: chat where
  "party_talk = the (chat_run silent_scripts [ChatLogin 1 (visitor 11 ''A'' (Some 0)),
     ChatLogin 2 (visitor 12 ''B'' (Some 0)), ListChannels 1, OpenChannel 1 CHANNEL_PARTY,
     OpenChannel 2 CHANNEL_PARTY] no_chat)"

lemma party_talk_reached: "reached (chat_step silent_scripts) chat_allowed no_chat party_talk"
  unfolding party_talk_def by (rule run_reached) code_simp

definition party_room :: ChatChannel where
  "party_room = (new_channel CHANNEL_PARTY ''Party'')\<lparr>users := [(1, 1), (2, 2)]\<rparr>"

lemma party_talk_facts:
  "chatters party_talk 1 = Some (visitor 11 ''A'' (Some 0))"
  "chatters party_talk 2 = Some (visitor 12 ''B'' (Some 0))"
  "om_find (partyChannels party_talk) 0 = Some party_room"
  by code_simp+

lemma party_room_facts: "hasUser party_room 1" "hasUser party_room 2" "onSpeakEvent party_room = -1"
  by code_simp+

theorem chat_never_dangles_witness:
  "\<exists>c'. chat_step silent_scripts (CloseChannel 1 CHANNEL_PARTY) party_talk = Some c'"
  using chat_never_dangles [OF party_talk_reached, of "CloseChannel 1 CHANNEL_PARTY"] by auto

theorem logout_forgets_witness:
  "\<exists>c'. chat_step silent_scripts (ChatLogout 1) party_talk = Some c' \<and> chatters c' 1 = None"
  using logout_forgets [OF party_talk_reached party_talk_facts(1)] by blast


lemma first_slot: "om_find m 100 = None \<Longrightarrow> free_slot m private_slots = Some 100"
proof -
  assume m: "om_find m 100 = None"
  have slots: "private_slots = 100 # [Suc 100..<10000]"
    unfolding private_slots_def by (rule upt_conv_Cons) simp
  show ?thesis unfolding slots free_slot.simps of_nat_numeral m by (rule if_P) (rule refl)
qed

definition private_talk :: chat where
  "private_talk = the (chat_run silent_scripts [ChatLogin 1 (visitor 11 ''A'' None), CreatePrivate 1] no_chat)"

lemmas private_talk_simps = no_chat_def visitor_def silent_scripts_def playerCreatePrivateChannel_def
  createChannel_def getChannel_def getPrivateChannel_def first_slot new_channel_def addUser_def
  executeOnJoinEvent_def execute_event_def deliver_all_def to_users_def CHANNEL_PARTY_def CHANNEL_GUILD_def
  CHANNEL_PRIVATE_def

lemma private_talk_reached: "reached (chat_step silent_scripts) chat_allowed no_chat private_talk"
  unfolding private_talk_def by (rule run_reached) (simp add: private_talk_simps)

lemma private_talk_channel: "\<exists>ch. om_find (privateChannels private_talk) 100 = Some ch"
  by (simp add: private_talk_def private_talk_simps)

theorem private_channels_owned_witness:
  "\<exists>ch p y. om_find (privateChannels private_talk) 100 = Some ch \<and> ch_id ch = 100 \<and>
     chatters private_talk p = Some y \<and> ct_guid y = owner ch"
  using private_talk_channel private_channels_owned [OF private_talk_reached] by blast

end
