(* ===== verification/Admission.thy ===== *)
theory Admission
  imports Strings "HOL-Library.Monad_Syntax"
begin

text \<open>
  Who gets in. The connection limiter and the ban queries of \<^verbatim>\<open>creatures/players/management/ban.cpp\<close>, the
  waiting list of \<^verbatim>\<open>creatures/players/management/waitlist.cpp\<close>, and the sequence of checks that
  \<^verbatim>\<open>ProtocolGame::login\<close> makes before it loads a character. The clock readings, the number of players
  online, the configuration, the answers of the database and the rendering of dates by the C library
  are arguments. Sizes of lists and maps (\<^verbatim>\<open>std::size_t\<close>) are natural numbers; times are kept at 64 bits.
\<close>

section \<open>Connection limiter\<close>

record ConnectBlock =
  lastAttempt :: u64
  blockTime :: u64
  conn_count :: u32

type_synonym IpConnectMap = "(u32, ConnectBlock) omap"

text \<open>The part of \<^verbatim>\<open>Ban::acceptConnection\<close> that works on the block found for the address.\<close>

definition connect_again :: "u64 \<Rightarrow> ConnectBlock \<Rightarrow> bool \<times> ConnectBlock" where
  "connect_again currentTime b =
     (if blockTime b > currentTime then (False, b\<lparr>blockTime := blockTime b + 250\<rparr>)
      else
        let timeDiff = sint (currentTime - lastAttempt b); b1 = b\<lparr>lastAttempt := currentTime\<rparr> in
        if timeDiff \<le> 5000 then
          let b2 = b1\<lparr>conn_count := conn_count b1 + 1\<rparr> in
          if conn_count b2 > 5 then
            let b3 = b2\<lparr>conn_count := 0\<rparr> in
            if timeDiff \<le> 500 then (False, b3\<lparr>blockTime := currentTime + 3000\<rparr>)
            else (True, b3)
          else (True, b2)
        else (True, b1\<lparr>conn_count := 1\<rparr>))"

definition acceptConnection :: "u64 \<Rightarrow> u32 \<Rightarrow> IpConnectMap \<Rightarrow> bool \<times> IpConnectMap" where
  "acceptConnection currentTime clientIP ipConnectMap =
     (case om_find ipConnectMap clientIP of
        None \<Rightarrow> (True, om_set ipConnectMap clientIP
                   \<lparr>lastAttempt = currentTime, blockTime = 0, conn_count = 1\<rparr>)
      | Some connectBlock \<Rightarrow>
          (case connect_again currentTime connectBlock of
             (ok, connectBlock') \<Rightarrow> (ok, om_set ipConnectMap clientIP connectBlock')))"

text \<open>
  The decision of \<^verbatim>\<open>ServicePort::onAccept\<close> on a new socket: a connection whose address is not known
  (\<^verbatim>\<open>getIP() == 0\<close>) is closed without asking the limiter.
\<close>

definition onAccept_admits :: "u64 \<Rightarrow> u32 \<Rightarrow> IpConnectMap \<Rightarrow> bool \<times> IpConnectMap" where
  "onAccept_admits currentTime remote_ip m =
     (if remote_ip \<noteq> 0 then acceptConnection currentTime remote_ip m else (False, m))"

text \<open>The answers to a sequence of connection attempts, each a time and an address.\<close>

fun answers :: "IpConnectMap \<Rightarrow> (u64 \<times> u32) list \<Rightarrow> (u32 \<times> bool) list" where
  "answers m [] = []"
| "answers m ((t, ip) # es) =
     (case onAccept_admits t ip m of (ok, m') \<Rightarrow> (ip, ok) # answers m' es)"

definition answers_to :: "u32 \<Rightarrow> IpConnectMap \<Rightarrow> (u64 \<times> u32) list \<Rightarrow> bool list" where
  "answers_to ip m es = map snd (filter (\<lambda>a. fst a = ip) (answers m es))"

definition times_of :: "u32 \<Rightarrow> (u64 \<times> u32) list \<Rightarrow> u64 list" where
  "times_of ip es = map fst (filter (\<lambda>e. snd e = ip) es)"

text \<open>The limiter as a client sees it: one address, its own attempts only.\<close>

fun client_answers :: "ConnectBlock option \<Rightarrow> u64 list \<Rightarrow> bool list" where
  "client_answers b [] = []"
| "client_answers None (t # ts) =
     True # client_answers (Some \<lparr>lastAttempt = t, blockTime = 0, conn_count = 1\<rparr>) ts"
| "client_answers (Some b) (t # ts) =
     (case connect_again t b of (ok, b') \<Rightarrow> ok # client_answers (Some b') ts)"

text \<open>Successive attempts are more than \<open>d\<close> apart, or at most \<open>d\<close> apart.\<close>

fun spaced :: "nat \<Rightarrow> u64 list \<Rightarrow> bool" where
  "spaced d (t # u # ts) \<longleftrightarrow> unat t + d < unat u \<and> spaced d (u # ts)"
| "spaced d _ \<longleftrightarrow> True"

fun bursts :: "nat \<Rightarrow> u64 list \<Rightarrow> bool" where
  "bursts d (t # u # ts) \<longleftrightarrow> unat u \<le> unat t + d \<and> bursts d (u # ts)"
| "bursts d _ \<longleftrightarrow> True"

section \<open>Bans\<close>

record BanInfo =
  bannedBy :: string
  reason :: string
  expiresAt :: int

text \<open>The columns the ban queries select, after the conversions of \<^verbatim>\<open>DBResult::getNumber\<close>.\<close>

record ban_row =
  row_reason :: string
  row_expires_at :: int
  row_banned_at :: int
  row_banned_by :: u32
  row_name :: string

definition int_string :: "int \<Rightarrow> string" where
  "int_string z = (if z < 0 then ''-'' @ dec_string (nat (- z)) else dec_string (nat z))"

text \<open>\<^verbatim>\<open>Database::escapeBlob\<close> around \<^verbatim>\<open>mysql_real_escape_string\<close>.\<close>

definition escapeString :: "(string \<Rightarrow> string) \<Rightarrow> string \<Rightarrow> string" where
  "escapeString mysql_escape s = [CHR 0x27] @ (if s \<noteq> [] then mysql_escape s else []) @ [CHR 0x27]"

definition account_ban_query :: "u32 \<Rightarrow> string" where
  "account_ban_query accountId =
     ''SELECT `reason`, `expires_at`, `banned_at`, `banned_by`, (SELECT `name` FROM `players` WHERE `id` = `banned_by`) AS `name` FROM `account_bans` WHERE `account_id` = ''
     @ dec_string (unat accountId)"

definition ip_ban_query :: "u32 \<Rightarrow> string" where
  "ip_ban_query clientIP =
     ''SELECT `reason`, `expires_at`, (SELECT `name` FROM `players` WHERE `id` = `banned_by`) AS `name` FROM `ip_bans` WHERE `ip` = ''
     @ dec_string (unat clientIP)"

definition namelock_query :: "u32 \<Rightarrow> string" where
  "namelock_query playerId =
     ''SELECT 1 FROM `player_namelocks` WHERE `player_id` = '' @ dec_string (unat playerId)"

text \<open>
  The database: its answer to a query (the first row, if there is one), the escaping of the client
  library and the current time in seconds. Statements handed to \<^verbatim>\<open>g_databaseTasks\<close> are returned.
\<close>

record database =
  storeQuery :: "string \<Rightarrow> ban_row option"
  mysql_real_escape :: "string \<Rightarrow> string"
  time_now :: int

definition isAccountBanned :: "database \<Rightarrow> u32 \<Rightarrow> BanInfo \<Rightarrow> bool \<times> BanInfo \<times> string list" where
  "isAccountBanned db accountId banInfo =
     (case storeQuery db (account_ban_query accountId) of
        None \<Rightarrow> (False, banInfo, [])
      | Some r \<Rightarrow>
          if row_expires_at r \<noteq> 0 \<and> time_now db > row_expires_at r then
            (False, banInfo,
              [''INSERT INTO `account_ban_history` (`account_id`, `reason`, `banned_at`, `expired_at`, `banned_by`) VALUES (''
                 @ dec_string (unat accountId) @ '',''
                 @ escapeString (mysql_real_escape db) (row_reason r) @ '',''
                 @ int_string (row_banned_at r) @ '','' @ int_string (row_expires_at r) @ '',''
                 @ dec_string (unat (row_banned_by r)) @ '')'',
               ''DELETE FROM `account_bans` WHERE `account_id` = '' @ dec_string (unat accountId)])
          else (True, banInfo\<lparr>expiresAt := row_expires_at r, reason := row_reason r,
                              bannedBy := row_name r\<rparr>, []))"

definition isIpBanned :: "database \<Rightarrow> u32 \<Rightarrow> BanInfo \<Rightarrow> bool \<times> BanInfo \<times> string list" where
  "isIpBanned db clientIP banInfo =
     (if clientIP = 0 then (False, banInfo, [])
      else case storeQuery db (ip_ban_query clientIP) of
        None \<Rightarrow> (False, banInfo, [])
      | Some r \<Rightarrow>
          if row_expires_at r \<noteq> 0 \<and> time_now db > row_expires_at r then
            (False, banInfo, [''DELETE FROM `ip_bans` WHERE `ip` = '' @ dec_string (unat clientIP)])
          else (True, banInfo\<lparr>expiresAt := row_expires_at r, reason := row_reason r,
                              bannedBy := row_name r\<rparr>, []))"

definition isPlayerNamelocked :: "database \<Rightarrow> u32 \<Rightarrow> bool" where
  "isPlayerNamelocked db playerId \<longleftrightarrow> storeQuery db (namelock_query playerId) \<noteq> None"

section \<open>Waiting list\<close>

record Wait =
  wait_timeout :: u64
  playerGUID :: u32

record WaitListInfo =
  priorityWaitList :: "Wait list"
  waitList :: "Wait list"

datatype wait_position = InPriority nat | InWaitList nat | WaitListEnd

text \<open>
  The subtraction in \<^verbatim>\<open>cleanupList\<close> has operands \<^verbatim>\<open>std::size_t\<close> and \<^verbatim>\<open>int64_t\<close>, so it is unsigned, and
  so is the comparison with zero.
\<close>

fun cleanupList :: "u64 \<Rightarrow> Wait list \<Rightarrow> Wait list" where
  "cleanupList time [] = []"
| "cleanupList time (w # ws) =
     (if wait_timeout w - time \<le> 0 then cleanupList time ws else w # cleanupList time ws)"

definition getTime :: "nat \<Rightarrow> nat" where
  "getTime slot =
     (if slot < 5 then 5 else if slot < 10 then 10 else if slot < 20 then 20
      else if slot < 50 then 60 else 120)"

definition getTimeout :: "nat \<Rightarrow> nat" where
  "getTimeout slot = getTime slot + 15"

fun find_guid :: "u32 \<Rightarrow> Wait list \<Rightarrow> nat option" where
  "find_guid g [] = None"
| "find_guid g (w # ws) = (if playerGUID w = g then Some 0 else map_option Suc (find_guid g ws))"

definition findClient :: "u32 \<Rightarrow> WaitListInfo \<Rightarrow> wait_position \<times> nat" where
  "findClient g info =
     (case find_guid g (priorityWaitList info) of
        Some i \<Rightarrow> (InPriority i, Suc i)
      | None \<Rightarrow>
          (case find_guid g (waitList info) of
             Some i \<Rightarrow> (InWaitList i, length (priorityWaitList info) + Suc i)
           | None \<Rightarrow> (WaitListEnd, Suc (length (priorityWaitList info) + length (waitList info)))))"

text \<open>
  A call of \<^verbatim>\<open>clientLogin\<close>: the player as the function sees it, the clock readings it makes (two in
  \<^verbatim>\<open>cleanupList\<close>, one for a new timeout), the configured limit and the number of players online.
\<close>

record client_try =
  try_guid :: u32
  try_canAlwaysLogin :: bool
  try_accountType :: nat
  try_premium :: bool
  clock_priority :: u64
  clock_wait :: u64
  clock_timeout :: u64
  maxPlayers :: u32
  playersOnline :: nat

definition ACCOUNT_TYPE_GAMEMASTER :: nat where
  "ACCOUNT_TYPE_GAMEMASTER = 4"

definition new_timeout :: "client_try \<Rightarrow> nat \<Rightarrow> u64" where
  "new_timeout e slot = clock_timeout e + of_nat (getTimeout slot * 1000)"

definition erase_at :: "nat \<Rightarrow> 'a list \<Rightarrow> 'a list" where
  "erase_at i xs = take i xs @ drop (Suc i) xs"

text \<open>
  The part of \<^verbatim>\<open>WaitingList::clientLogin\<close> after the lists have been cleaned. The value \<^term>\<open>None\<close> is
  undefined behaviour: \<^verbatim>\<open>info->waitList.erase(it)\<close> with an iterator into the other list.
\<close>

definition queue_up :: "client_try \<Rightarrow> WaitListInfo \<Rightarrow> (bool \<times> WaitListInfo) option" where
  "queue_up e info =
     (let (it, slot) = findClient (try_guid e) info in
      case it of
        InPriority i \<Rightarrow>
          if playersOnline e + slot \<le> unat (maxPlayers e) then None
          else Some (False, info\<lparr>priorityWaitList := (priorityWaitList info)
                 [i := (priorityWaitList info ! i)\<lparr>wait_timeout := new_timeout e slot\<rparr>]\<rparr>)
      | InWaitList i \<Rightarrow>
          if playersOnline e + slot \<le> unat (maxPlayers e) then
            Some (True, info\<lparr>waitList := erase_at i (waitList info)\<rparr>)
          else Some (False, info\<lparr>waitList := (waitList info)
                 [i := (waitList info ! i)\<lparr>wait_timeout := new_timeout e slot\<rparr>]\<rparr>)
      | WaitListEnd \<Rightarrow>
          let slot = length (priorityWaitList info) in
          if try_premium e then
            Some (False, info\<lparr>priorityWaitList := priorityWaitList info @
              [\<lparr>wait_timeout = new_timeout e (slot + 1), playerGUID = try_guid e\<rparr>]\<rparr>)
          else
            let slot = slot + length (waitList info) in
            Some (False, info\<lparr>waitList := waitList info @
              [\<lparr>wait_timeout = new_timeout e (slot + 1), playerGUID = try_guid e\<rparr>]\<rparr>))"

definition clientLogin :: "client_try \<Rightarrow> WaitListInfo \<Rightarrow> (bool \<times> WaitListInfo) option" where
  "clientLogin e info =
     (if try_canAlwaysLogin e \<or> try_accountType e \<ge> ACCOUNT_TYPE_GAMEMASTER then Some (True, info)
      else if maxPlayers e = 0 \<or> (priorityWaitList info = [] \<and> waitList info = [] \<and>
                playersOnline e < unat (maxPlayers e)) then Some (True, info)
      else
        let info = info\<lparr>priorityWaitList := cleanupList (clock_priority e) (priorityWaitList info)\<rparr>;
            info = info\<lparr>waitList := cleanupList (clock_wait e) (waitList info)\<rparr> in
        queue_up e info)"

definition getClientSlot :: "u32 \<Rightarrow> WaitListInfo \<Rightarrow> nat" where
  "getClientSlot g info =
     (case findClient g info of (it, slot) \<Rightarrow> if it = WaitListEnd then 0 else slot)"

definition no_waiters :: WaitListInfo where
  "no_waiters = \<lparr>priorityWaitList = [], waitList = []\<rparr>"

section \<open>The checks of a login\<close>

datatype GameState_t =
    GAME_STATE_STARTUP
  | GAME_STATE_INIT
  | GAME_STATE_NORMAL
  | GAME_STATE_CLOSED
  | GAME_STATE_SHUTDOWN
  | GAME_STATE_CLOSING
  | GAME_STATE_MAINTAIN

text \<open>The character after \<^verbatim>\<open>IOLoginData::preloadPlayer\<close>.\<close>

record candidate =
  cd_guid :: u32
  cd_CanAlwaysLogin :: bool
  cd_IsAlwaysPremium :: bool
  cd_CannotBeBanned :: bool
  cd_premiumDays :: u16
  cd_group :: u16
  cd_accountType :: nat

record login_env =
  gameState :: GameState_t
  FREE_PREMIUM :: bool
  ONLY_PREMIUM_ACCOUNT :: bool
  ONE_PLAYER_ON_ACCOUNT :: bool
  MAX_PLAYERS :: int
  account_online :: bool
  players_online :: nat
  time_priority :: u64
  time_wait :: u64
  time_timeout :: u64
  login_db :: database
  strftime_day :: "int \<Rightarrow> string option"

datatype login_outcome =
    Disconnected string
  | Queued string u8
  | Passed

definition GROUP_TYPE_GAMEMASTER :: u16 where
  "GROUP_TYPE_GAMEMASTER = 4"

definition isPremium :: "login_env \<Rightarrow> candidate \<Rightarrow> bool" where
  "isPremium E p \<longleftrightarrow>
     (if FREE_PREMIUM E \<or> cd_IsAlwaysPremium p then True else cd_premiumDays p > 0)"

text \<open>
  \<^verbatim>\<open>formatDateShort\<close>: the argument \<^term>\<open>strftime_day\<close> is \<^verbatim>\<open>localtime\<close> followed by \<^verbatim>\<open>strftime\<close> with format
  \<^verbatim>\<open>%d %b %Y\<close> into twelve bytes, and fails when either does.
\<close>

definition formatDateShort :: "login_env \<Rightarrow> int \<Rightarrow> string" where
  "formatDateShort E time = (case strftime_day E time of None \<Rightarrow> [] | Some s \<Rightarrow> take 11 s)"

definition ban_message :: "login_env \<Rightarrow> BanInfo \<Rightarrow> string" where
  "ban_message E banInfo =
     (let r = (if reason banInfo = [] then ''(none)'' else reason banInfo) in
      if expiresAt banInfo > 0 then
        ''Your account has been banned until '' @ formatDateShort E (expiresAt banInfo) @ '' by ''
        @ bannedBy banInfo @ ''.'' @ [CHR 0x0A, CHR 0x0A] @ ''Reason specified:'' @ [CHR 0x0A] @ r
      else
        ''Your account has been permanently banned by '' @ bannedBy banInfo @ ''.''
        @ [CHR 0x0A, CHR 0x0A] @ ''Reason specified:'' @ [CHR 0x0A] @ r)"

definition login_try :: "login_env \<Rightarrow> candidate \<Rightarrow> client_try" where
  "login_try E p =
     \<lparr>try_guid = cd_guid p, try_canAlwaysLogin = cd_CanAlwaysLogin p,
      try_accountType = cd_accountType p, try_premium = isPremium E p,
      clock_priority = time_priority E, clock_wait = time_wait E, clock_timeout = time_timeout E,
      maxPlayers = word_of_int (MAX_PLAYERS E), playersOnline = players_online E\<rparr>"

definition queue_message :: "nat \<Rightarrow> string" where
  "queue_message currentSlot =
     ''Too many players online.'' @ [CHR 0x0A] @ ''You are at place '' @ dec_string currentSlot
     @ '' on the waiting list.''"

text \<open>The last check: \<^verbatim>\<open>waitingList.clientLogin(player)\<close> and the answer to a client that has to wait.\<close>

definition wait_check ::
  "login_env \<Rightarrow> candidate \<Rightarrow> WaitListInfo \<Rightarrow> (login_outcome \<times> WaitListInfo) option" where
  "wait_check E p info = do {
     (ok, info) \<leftarrow> clientLogin (login_try E p) info;
     if ok then Some (Passed, info)
     else
       let currentSlot = getClientSlot (cd_guid p) info; retryTime = getTime currentSlot in
       Some (Queued (queue_message currentSlot) (of_nat retryTime), info)
   }"

text \<open>
  \<^verbatim>\<open>ProtocolGame::login\<close> for a character that is not online, up to the loading of the character:
  \<open>loaded\<close> is the character if \<^verbatim>\<open>preloadPlayer\<close> succeeds. The result is the outcome, the waiting list
  and the statements queued for the database.
\<close>

definition login_checks ::
  "login_env \<Rightarrow> candidate option \<Rightarrow> u32 \<Rightarrow> WaitListInfo
     \<Rightarrow> (login_outcome \<times> WaitListInfo \<times> string list) option" where
  "login_checks E loaded accountId info =
     (case loaded of
        None \<Rightarrow> Some (Disconnected ''Your character could not be loaded.'', info, [])
      | Some p \<Rightarrow>
          if isPlayerNamelocked (login_db E) (cd_guid p) then
            Some (Disconnected ''Your character has been namelocked.'', info, [])
          else if gameState E = GAME_STATE_CLOSING \<and> \<not> cd_CanAlwaysLogin p then
            Some (Disconnected (''The game is just going down.'' @ [CHR 0x0A] @ ''Please try again later.''), info, [])
          else if gameState E = GAME_STATE_CLOSED \<and> \<not> cd_CanAlwaysLogin p then
            Some (Disconnected (''Server is currently closed.'' @ [CHR 0x0A] @ ''Please try again later.''), info, [])
          else if ONLY_PREMIUM_ACCOUNT E \<and> \<not> isPremium E p \<and>
              (cd_group p < GROUP_TYPE_GAMEMASTER \<or> cd_accountType p < ACCOUNT_TYPE_GAMEMASTER) then
            Some (Disconnected (''Your premium time for this account is out.'' @ [CHR 0x0A, CHR 0x0A]
              @ ''To play please buy additional premium time from our website''), info, [])
          else if ONE_PLAYER_ON_ACCOUNT E \<and> cd_accountType p < ACCOUNT_TYPE_GAMEMASTER \<and> account_online E then
            Some (Disconnected (''You may only login with one character'' @ [CHR 0x0A]
              @ ''of your account at the same time.''), info, [])
          else
            let (banned, banInfo, tasks) =
                  (if \<not> cd_CannotBeBanned p then
                     isAccountBanned (login_db E) accountId \<lparr>bannedBy = [], reason = [], expiresAt = 0\<rparr>
                   else (False, \<lparr>bannedBy = [], reason = [], expiresAt = 0\<rparr>, [])) in
            if banned then Some (Disconnected (ban_message E banInfo), info, tasks)
            else do {
              (out, info) \<leftarrow> wait_check E p info;
              Some (out, info, tasks)
            })"

section \<open>Lemmas on the connection limiter\<close>

lemma answers_om_ok: "om_ok m \<Longrightarrow> om_ok (snd (onAccept_admits t ip m))"
  by (auto simp: onAccept_admits_def acceptConnection_def omap_laws split: option.splits prod.splits)

lemma onAccept_other:
  assumes "om_ok m" "ip' \<noteq> ip"
  shows "om_find (snd (onAccept_admits t ip' m)) ip = om_find m ip"
  using assms
  by (auto simp: onAccept_admits_def acceptConnection_def omap_laws split: option.splits prod.splits)

lemma client_answers_step:
  assumes "om_ok m" "ip \<noteq> 0"
  shows "client_answers (om_find m ip) (t # ts) =
    fst (onAccept_admits t ip m) # client_answers (om_find (snd (onAccept_admits t ip m)) ip) ts"
  using assms
  by (auto simp: onAccept_admits_def acceptConnection_def omap_laws split: option.splits prod.splits)

lemma answers_projection:
  assumes "om_ok m" "ip \<noteq> 0"
  shows "answers_to ip m es = client_answers (om_find m ip) (times_of ip es)"
  using assms(1)
proof (induction es arbitrary: m)
  case Nil
  then show ?case by (simp add: answers_to_def times_of_def)
next
  case (Cons e es)
  obtain t ip' where e: "e = (t, ip')" by (cases e)
  obtain ok m' where m': "onAccept_admits t ip' m = (ok, m')" by (cases "onAccept_admits t ip' m")
  have step: "answers_to ip m (e # es) = (if ip' = ip then [ok] else []) @ answers_to ip m' es"
    by (simp add: answers_to_def e m')
  have times: "times_of ip (e # es) = (if ip' = ip then [t] else []) @ times_of ip es"
    by (simp add: times_of_def e)
  have "om_ok m'" using answers_om_ok [OF Cons.prems, of t ip'] by (simp add: m')
  note IH = Cons.IH [OF this]
  show ?case
  proof (cases "ip' = ip")
    case True
    then show ?thesis
      using client_answers_step [OF Cons.prems assms(2), of t "times_of ip es"] m'
      by (simp add: step times IH)
  next
    case False
    then show ?thesis using onAccept_other [OF Cons.prems False, of t] m' by (simp add: step times IH)
  qed
qed

text \<open>An attempt that comes more than half a second after the last one is not counted against the client.\<close>

lemma small_diff:
  fixes t u :: u64
  assumes "unat t + d < unat u" "unat u < 2 ^ 63"
  shows "sint (u - t) > int d"
proof -
  have "unat t < 2 ^ 63" using assms by simp
  then have "sint (u - t) = int (unat u) - int (unat t)"
    using assms(2) by (intro sint_diff_unat) simp_all
  then show ?thesis using assms(1) by linarith
qed

lemma connect_again_unhurried:
  assumes "blockTime b = 0" "sint (t - lastAttempt b) > 500"
  shows "\<exists>b'. connect_again t b = (True, b') \<and> blockTime b' = 0 \<and> lastAttempt b' = t"
  using assms by (auto simp: connect_again_def Let_def)

lemma client_answers_unhurried:
  assumes "spaced 500 (t # ts)" "\<forall>u \<in> set ts. unat u < 2 ^ 63" "blockTime b = 0" "lastAttempt b = t"
  shows "client_answers (Some b) ts = replicate (length ts) True"
  using assms
proof (induction ts arbitrary: t b)
  case Nil
  then show ?case by simp
next
  case (Cons u ts)
  have "sint (u - lastAttempt b) > 500" using small_diff [of t 500 u] Cons.prems by simp
  then obtain b' where b': "connect_again u b = (True, b')" "blockTime b' = 0" "lastAttempt b' = u"
    using connect_again_unhurried Cons.prems(3) by blast
  then show ?case using Cons.IH [of u b'] Cons.prems by simp
qed

lemma client_answers_flood:
  assumes "bursts 250 ts" "ts \<noteq> [] \<Longrightarrow> unat (hd ts) < unat (blockTime b)"
    "unat (blockTime b) + 250 * length ts < 2 ^ 64"
  shows "client_answers (Some b) ts = replicate (length ts) False"
  using assms
proof (induction ts arbitrary: b)
  case Nil
  then show ?case by simp
next
  case (Cons t ts)
  have lt: "t < blockTime b" using Cons.prems(2) by (simp add: word_less_nat_alt)
  have bt: "unat (blockTime b + 250) = unat (blockTime b) + 250"
    using Cons.prems(3) by (subst unat_add_lem [THEN iffD1]) simp_all
  have "unat (hd ts) < unat (blockTime b) + 250" if "ts \<noteq> []"
    using that Cons.prems(1,2) by (cases ts) auto
  then show ?case
    using Cons.IH [of "b\<lparr>blockTime := blockTime b + 250\<rparr>"] Cons.prems lt
    by (cases ts) (auto simp: connect_again_def bt)
qed

section \<open>Lemmas on the waiting list\<close>

lemma cleanupList_filter: "cleanupList t ws = filter (\<lambda>w. wait_timeout w \<noteq> t) ws"
  by (induction ws) auto

lemma find_guid_Some:
  "find_guid g ws = Some i \<Longrightarrow> i < length ws \<and> playerGUID (ws ! i) = g"
  by (induction ws arbitrary: i) (auto split: if_splits)

lemma find_guid_None: "find_guid g ws = None \<longleftrightarrow> g \<notin> playerGUID ` set ws"
  by (induction ws) auto

lemma find_guid_distinct:
  assumes "distinct (map playerGUID ws)" "i < length ws"
  shows "find_guid (playerGUID (ws ! i)) ws = Some i"
  using assms by (induction ws arbitrary: i) (auto simp: nth_Cons' split: if_splits nat.splits)

text \<open>A client that no limit applies to, and the lists as \<^verbatim>\<open>clientLogin\<close> sees them.\<close>

definition exempt :: "client_try \<Rightarrow> bool" where
  "exempt e \<longleftrightarrow> try_canAlwaysLogin e \<or> try_accountType e \<ge> ACCOUNT_TYPE_GAMEMASTER \<or> maxPlayers e = 0"

definition cleaned :: "client_try \<Rightarrow> WaitListInfo \<Rightarrow> WaitListInfo" where
  "cleaned e info =
     info\<lparr>priorityWaitList := cleanupList (clock_priority e) (priorityWaitList info),
       waitList := cleanupList (clock_wait e) (waitList info)\<rparr>"

lemma clientLogin_cases:
  "clientLogin e info =
     (if exempt e \<or> priorityWaitList info = [] \<and> waitList info = [] \<and> playersOnline e < unat (maxPlayers e)
      then Some (True, info) else queue_up e (cleaned e info))"
  by (auto simp: clientLogin_def exempt_def cleaned_def)

definition wait_ok :: "WaitListInfo \<Rightarrow> bool" where
  "wait_ok info \<longleftrightarrow> distinct (map playerGUID (priorityWaitList info @ waitList info))"

definition wait_step :: "client_try \<Rightarrow> WaitListInfo \<Rightarrow> WaitListInfo option" where
  "wait_step e info = map_option snd (clientLogin e info)"

text \<open>The call does not take a client out of the priority list.\<close>

definition wait_allowed :: "WaitListInfo \<Rightarrow> client_try \<Rightarrow> bool" where
  "wait_allowed info e \<longleftrightarrow>
     exempt e \<or>
     (case find_guid (try_guid e) (priorityWaitList (cleaned e info)) of
        None \<Rightarrow> True
      | Some i \<Rightarrow> unat (maxPlayers e) < playersOnline e + Suc i)"

lemma wait_ok_cleaned: "wait_ok info \<Longrightarrow> wait_ok (cleaned e info)"
  by (auto simp: wait_ok_def cleaned_def cleanupList_filter distinct_map_filter)

lemma set_erase_at: "set (erase_at i xs) \<subseteq> set xs"
  by (auto simp: erase_at_def dest: in_set_takeD in_set_dropD)

lemma map_erase_at: "map f (erase_at i xs) = erase_at i (map f xs)"
  by (simp add: erase_at_def take_map drop_map)

lemma distinct_erase_at: "distinct xs \<Longrightarrow> distinct (erase_at i xs)"
  using set_take_disj_set_drop_if_distinct [of xs i "Suc i"] by (simp add: erase_at_def)

lemma map_touch:
  "i < length ws \<Longrightarrow> map playerGUID (ws[i := (ws ! i)\<lparr>wait_timeout := t\<rparr>]) = map playerGUID ws"
  by (simp add: map_update list_update_same_conv)

lemma set_touch:
  "i < length ws \<Longrightarrow>
     playerGUID ` set (ws[i := (ws ! i)\<lparr>wait_timeout := t\<rparr>]) = playerGUID ` set ws"
  using map_touch [of i ws t] by (metis set_map)

lemma set_erase_at_map: "playerGUID ` set (erase_at i ws) \<subseteq> playerGUID ` set ws"
  using set_erase_at by (rule image_mono)

lemma queue_up_ok:
  assumes "wait_ok info" "queue_up e info = Some (ok, info')"
  shows "wait_ok info'"
proof -
  consider (pri) i where "find_guid (try_guid e) (priorityWaitList info) = Some i"
    | (wait) i where "find_guid (try_guid e) (priorityWaitList info) = None"
        "find_guid (try_guid e) (waitList info) = Some i"
    | (fresh) "find_guid (try_guid e) (priorityWaitList info) = None"
        "find_guid (try_guid e) (waitList info) = None"
    by (metis not_None_eq)
  then show ?thesis
  proof cases
    case pri
    then show ?thesis using assms find_guid_Some [OF pri]
      by (clarsimp simp: queue_up_def findClient_def wait_ok_def map_touch set_touch split: if_splits)
  next
    case wait
    have "playerGUID ` set (priorityWaitList info) \<inter> playerGUID ` set (erase_at i (waitList info)) = {}"
      using assms(1) set_erase_at_map [of i "waitList info"] by (simp add: wait_ok_def) blast
    with assms wait find_guid_Some [OF wait(2)] show ?thesis
      by (clarsimp simp: queue_up_def findClient_def wait_ok_def map_touch set_touch map_erase_at
          distinct_erase_at split: if_splits)
  next
    case fresh
    with assms fresh [unfolded find_guid_None] show ?thesis
      by (clarsimp simp: queue_up_def findClient_def wait_ok_def Let_def Int_insert_left Int_insert_right
          split: if_splits)
  qed
qed

lemma wait_step_safe:
  assumes "wait_ok info" "wait_allowed info e"
  shows "\<exists>info'. wait_step e info = Some info' \<and> wait_ok info'"
proof (cases "clientLogin e info")
  case None
  then have "queue_up e (cleaned e info) = None" "\<not> exempt e" by (auto simp: clientLogin_cases split: if_splits)
  then show ?thesis using assms(2)
    by (auto simp: wait_allowed_def queue_up_def findClient_def Let_def split: option.splits if_splits)
next
  case (Some r)
  obtain ok info' where r: "r = (ok, info')" by (cases r)
  show ?thesis
    using Some r assms(1) queue_up_ok [OF wait_ok_cleaned [OF assms(1)], of e e ok info']
    by (auto simp: wait_step_def clientLogin_cases split: if_splits)
qed

interpretation waiting_machine: safe_machine wait_step wait_allowed wait_ok
  using wait_step_safe by unfold_locales

lemma no_waiters_ok: "wait_ok no_waiters"
  by (simp add: wait_ok_def no_waiters_def)

lemmas waiting_reached_ok = waiting_machine.reached_ok [OF _ no_waiters_ok]

text \<open>The place of a client is its position in the two lists, one after the other.\<close>

lemma find_guid_append:
  "find_guid g (xs @ ys) =
     (case find_guid g xs of Some i \<Rightarrow> Some i | None \<Rightarrow> map_option (\<lambda>i. length xs + i) (find_guid g ys))"
  by (induction xs) (cases "find_guid g ys"; auto split: option.splits)+

lemma find_guid_filter:
  "find_guid g ws = Some i \<Longrightarrow> P (ws ! i) \<Longrightarrow> \<exists>j \<le> i. find_guid g (filter P ws) = Some j"
proof (induction ws arbitrary: i)
  case Nil
  then show ?case by simp
next
  case (Cons w ws)
  show ?case
  proof (cases "playerGUID w = g")
    case True
    with Cons.prems show ?thesis by simp
  next
    case False
    with Cons.prems obtain k where k: "find_guid g ws = Some k" "i = Suc k" by auto
    with Cons.IH [of k] Cons.prems(2) obtain j where "j \<le> k" "find_guid g (filter P ws) = Some j"
      by auto
    with False k show ?thesis by (cases "P w") auto
  qed
qed

lemma getClientSlot_position:
  "getClientSlot g info =
     (case find_guid g (priorityWaitList info @ waitList info) of None \<Rightarrow> 0 | Some i \<Rightarrow> Suc i)"
  by (auto simp: getClientSlot_def findClient_def find_guid_append split: option.splits)

lemma queue_up_admits:
  assumes "queue_up e info = Some (True, info')"
  shows "\<exists>i. find_guid (try_guid e) (waitList info) = Some i \<and>
    playersOnline e + length (priorityWaitList info) + Suc i \<le> unat (maxPlayers e)"
  using assms by (auto simp: queue_up_def findClient_def Let_def split: option.splits if_splits)

lemma queue_up_priority:
  assumes "find_guid (try_guid e) (priorityWaitList info) = Some i"
  shows "queue_up e info = None \<longleftrightarrow> playersOnline e + Suc i \<le> unat (maxPlayers e)"
  using assms by (simp add: queue_up_def findClient_def)

lemma admitted_has_room:
  assumes "clientLogin e info = Some (True, info')" "\<not> exempt e"
  shows "playersOnline e < unat (maxPlayers e)"
  using assms queue_up_admits [of e "cleaned e info" info'] by (auto simp: clientLogin_cases split: if_splits)

text \<open>Entries whose timeout has passed survive every call made by others.\<close>

definition left_behind :: "Wait list \<Rightarrow> WaitListInfo \<Rightarrow> client_try \<Rightarrow> bool" where
  "left_behind ws info e \<longleftrightarrow>
     try_guid e \<notin> playerGUID ` set ws \<and> (\<forall>w \<in> set ws. wait_timeout w < clock_wait e)"

lemma cleaned_left_behind:
  assumes "left_behind ws info e" "waitList info = ws @ rest"
  shows "\<exists>rest'. waitList (cleaned e info) = ws @ rest'"
proof -
  have "filter (\<lambda>w. wait_timeout w \<noteq> clock_wait e) ws = ws"
    using assms(1) by (intro filter_True) (auto simp: left_behind_def)
  then show ?thesis by (simp add: cleaned_def cleanupList_filter assms(2))
qed

lemma queue_up_left_behind:
  assumes "try_guid e \<notin> playerGUID ` set ws" "waitList info = ws @ rest"
    "queue_up e info = Some (ok, info')"
  shows "\<exists>rest'. waitList info' = ws @ rest'"
proof -
  have none: "find_guid (try_guid e) ws = None" using assms(1) by (simp add: find_guid_None)
  show ?thesis using assms(3)
    by (auto simp: queue_up_def findClient_def Let_def assms(2) find_guid_append none erase_at_def
        list_update_append split: option.splits if_splits)
qed

lemma left_behind_stay:
  assumes "reached wait_step (left_behind ws) info info'" "waitList info = ws @ rest"
  shows "\<exists>rest'. waitList info' = ws @ rest'"
  using assms
proof (induction rule: reached.induct)
  case reached_start
  then show ?case by blast
next
  case (reached_step s e s')
  then obtain r where r: "waitList s = ws @ r" by blast
  obtain ok where ok: "clientLogin e s = Some (ok, s')"
    using reached_step.hyps(3) by (auto simp: wait_step_def)
  obtain r' where r': "waitList (cleaned e s) = ws @ r'"
    using cleaned_left_behind [OF reached_step.hyps(2) r] by blast
  show ?case
    using ok r queue_up_left_behind [OF _ r', of e ok s'] reached_step.hyps(2)
    by (auto simp: clientLogin_cases left_behind_def split: if_splits)
qed

lemma left_behind_blocks:
  assumes "waitList info = ws @ rest" "left_behind ws info e" "\<not> exempt e"
    "ws \<noteq> []" "unat (maxPlayers e) \<le> length ws"
  shows "clientLogin e info \<noteq> Some (True, info')"
proof
  assume "clientLogin e info = Some (True, info')"
  then have q: "queue_up e (cleaned e info) = Some (True, info')"
    using assms(1,3,4) by (auto simp: clientLogin_cases split: if_splits)
  obtain r where r: "waitList (cleaned e info) = ws @ r"
    using cleaned_left_behind [OF assms(2,1)] by blast
  have "find_guid (try_guid e) ws = None" using assms(2) by (simp add: find_guid_None left_behind_def)
  then show False
    using queue_up_admits [OF q] assms(5) by (auto simp: r find_guid_append)
qed

text \<open>A ban of the account that has not run out.\<close>

definition ban_in_force :: "database \<Rightarrow> u32 \<Rightarrow> bool" where
  "ban_in_force db accountId =
     (case storeQuery db (account_ban_query accountId) of
        None \<Rightarrow> False
      | Some r \<Rightarrow> row_expires_at r = 0 \<or> time_now db \<le> row_expires_at r)"

lemma ban_in_force_iff: "ban_in_force db accountId \<longleftrightarrow> fst (isAccountBanned db accountId b)"
  by (auto simp: ban_in_force_def isAccountBanned_def split: option.splits)

lemma wait_check_room:
  assumes "wait_check E p info = Some (Passed, info')"
  shows "exempt (login_try E p) \<or> players_online E < unat (word_of_int (MAX_PLAYERS E) :: u32)"
proof -
  have "clientLogin (login_try E p) info = Some (True, info')"
    using assms by (auto simp: wait_check_def Let_def split: Option.bind_splits if_splits)
  then show ?thesis using admitted_has_room [of "login_try E p" info info'] by (auto simp: login_try_def)
qed

text \<open>Calls for the examples: a server that takes one player.\<close>

definition demo_try :: "u32 \<Rightarrow> bool \<Rightarrow> nat \<Rightarrow> u64 \<Rightarrow> client_try" where
  "demo_try g premium online t =
     \<lparr>try_guid = g, try_canAlwaysLogin = False, try_accountType = 1, try_premium = premium,
      clock_priority = t, clock_wait = t, clock_timeout = t, maxPlayers = 1, playersOnline = online\<rparr>"

definition demo_queue :: WaitListInfo where
  "demo_queue =
     \<lparr>priorityWaitList = [\<lparr>wait_timeout = 22000, playerGUID = 2\<rparr>],
      waitList = [\<lparr>wait_timeout = 21000, playerGUID = 1\<rparr>]\<rparr>"

lemmas wait_eval = wait_step_def clientLogin_def queue_up_def findClient_def new_timeout_def
  getTimeout_def getTime_def demo_try_def demo_queue_def no_waiters_def ACCOUNT_TYPE_GAMEMASTER_def
  exempt_def wait_allowed_def cleaned_def

lemma demo_queue_reached: "reached wait_step wait_allowed no_waiters demo_queue"
proof -
  have "reached wait_step wait_allowed no_waiters
    \<lparr>priorityWaitList = [], waitList = [\<lparr>wait_timeout = 21000, playerGUID = 1\<rparr>]\<rparr>"
    by (rule reached_step [OF reached_start, of _ _ "demo_try 1 False 1 1000"]) (simp_all add: wait_eval)
  then show ?thesis
    by (rule reached_step [of _ _ _ _ "demo_try 2 True 1 2000"]) (simp_all add: wait_eval)
qed

section \<open>Properties\<close>

text \<open>
  C24. The connection limiter treats every address on its own: whatever attempts other addresses make
  in between, the answers an address gets are those it would get alone, and an address whose attempts
  are more than half a second apart is never turned away.
\<close>

theorem unhurried_client_never_refused:
  assumes "ip \<noteq> 0" "spaced 500 (times_of ip es)" "\<forall>t \<in> set (times_of ip es). unat t < 2 ^ 63"
  shows "answers_to ip [] es = replicate (length (times_of ip es)) True"
proof (cases "times_of ip es")
  case Nil
  then show ?thesis using answers_projection [of "[]" ip es] assms(1) by simp
next
  case (Cons t ts)
  then show ?thesis
    using answers_projection [of "[]" ip es] assms client_answers_unhurried [of t ts] by simp
qed

theorem unhurried_client_never_refused_witness:
  "answers_to 7 [] [(1000, 7), (1001, 8), (1501, 7), (1502, 8), (2002, 7)] = [True, True, True]"
  using unhurried_client_never_refused
    [of 7 "[(1000, 7), (1001, 8), (1501, 7), (1502, 8), (2002, 7)]"]
  by (simp add: times_of_def)

text \<open>
  C25. An address that is blocked and keeps trying at least every 250 milliseconds stays blocked for as
  long as it does so, whatever other addresses do: each refused attempt pushes the end of the block 250
  milliseconds further.
\<close>

theorem flooding_client_stays_blocked:
  assumes "om_ok m" "ip \<noteq> 0" "om_find m ip = Some b" "times_of ip es = t # ts"
    "t < blockTime b" "bursts 250 (t # ts)" "unat (blockTime b) + 250 * length (t # ts) < 2 ^ 64"
  shows "answers_to ip m es = replicate (length (times_of ip es)) False"
  using answers_projection [OF assms(1,2), of es] client_answers_flood [of "t # ts" b] assms(3-)
  by (simp add: word_less_nat_alt)

theorem flooding_client_stays_blocked_witness:
  "answers_to 7 [(7, \<lparr>lastAttempt = 1000, blockTime = 4000, conn_count = 0\<rparr>)]
     [(3900, 7), (3950, 8), (4100, 7), (4300, 7)] = [False, False, False]"
  using flooding_client_stays_blocked
    [of "[(7, \<lparr>lastAttempt = 1000, blockTime = 4000, conn_count = 0\<rparr>)]" 7
      "\<lparr>lastAttempt = 1000, blockTime = 4000, conn_count = 0\<rparr>"
      "[(3900, 7), (3950, 8), (4100, 7), (4300, 7)]" 3900 "[4100, 4300]"]
  by (simp add: times_of_def om_ok_def)

text \<open>
  C26. Places on the waiting list are unique: in every state that calls of \<^verbatim>\<open>clientLogin\<close> reach without
  undefined behaviour, the clients in the priority list followed by those in the ordinary list have
  the places 1, 2, 3 and so on, each client exactly one.
\<close>

theorem waiting_places_unique:
  assumes "reached wait_step wait_allowed no_waiters info"
    "i < length (priorityWaitList info @ waitList info)"
  shows "getClientSlot (playerGUID ((priorityWaitList info @ waitList info) ! i)) info = Suc i"
  using waiting_reached_ok [OF assms(1)] assms(2) by (simp add: getClientSlot_position wait_ok_def find_guid_distinct del: nth_append)

theorem waiting_places_unique_witness:
  "getClientSlot 2 demo_queue = 1 \<and> getClientSlot 1 demo_queue = 2"
  using waiting_places_unique [OF demo_queue_reached, of 0]
    waiting_places_unique [OF demo_queue_reached, of 1]
  by (simp add: demo_queue_def)



text \<open>
  C28. A client waiting in the priority list is never let in by a defined execution: when its turn
  comes, \<^verbatim>\<open>clientLogin\<close> erases its entry through the other list, which is undefined behaviour.
\<close>

theorem priority_admission_undefined:
  assumes "reached wait_step wait_allowed no_waiters info" "w \<in> set (priorityWaitList info)"
    "try_guid e = playerGUID w" "\<not> exempt e"
  shows "clientLogin e info \<noteq> Some (True, info') \<and>
    (wait_timeout w \<noteq> clock_priority e \<and>
     playersOnline e + getClientSlot (playerGUID w) info \<le> unat (maxPlayers e) \<longrightarrow> clientLogin e info = None)"
proof -
  have ok: "wait_ok info" by (rule waiting_reached_ok [OF assms(1)])
  obtain i where i: "i < length (priorityWaitList info)" "priorityWaitList info ! i = w"
    using assms(2) by (auto simp: in_set_conv_nth)
  have find: "find_guid (playerGUID w) (priorityWaitList info) = Some i"
    using ok i find_guid_distinct [of "priorityWaitList info" i] by (simp add: wait_ok_def)
  have queue: "clientLogin e info = queue_up e (cleaned e info)"
    using assms(2,4) by (auto simp: clientLogin_cases)
  have "playerGUID w \<notin> playerGUID ` set (waitList info)"
    using ok assms(2) by (auto simp: wait_ok_def)
  then have "playerGUID w \<notin> playerGUID ` set (waitList (cleaned e info))"
    by (auto simp: cleaned_def cleanupList_filter)
  then have "clientLogin e info \<noteq> Some (True, info')"
    using queue_up_admits [of e "cleaned e info" info'] assms(3)
    by (auto simp: queue simp flip: find_guid_None)
  moreover have "clientLogin e info = None"
    if late: "wait_timeout w \<noteq> clock_priority e"
      and room: "playersOnline e + getClientSlot (playerGUID w) info \<le> unat (maxPlayers e)"
  proof -
    obtain j where j: "j \<le> i" "find_guid (playerGUID w) (priorityWaitList (cleaned e info)) = Some j"
      using find_guid_filter [OF find, of "\<lambda>w. wait_timeout w \<noteq> clock_priority e"] late
      unfolding i(2) by (auto simp: cleaned_def cleanupList_filter)
    then show ?thesis
      using queue_up_priority [of e "cleaned e info" j] room assms(3) find
      by (simp add: queue getClientSlot_position find_guid_append)
  qed
  ultimately show ?thesis by blast
qed

theorem priority_admission_undefined_witness:
  "clientLogin (demo_try 2 True 0 30000) demo_queue = None"
  using priority_admission_undefined
    [OF demo_queue_reached, of "\<lparr>wait_timeout = 22000, playerGUID = 2\<rparr>" "demo_try 2 True 0 30000"]
  by (simp add: demo_queue_def demo_try_def exempt_def ACCOUNT_TYPE_GAMEMASTER_def getClientSlot_position)

text \<open>
  C23. What passing the checks of a login means: the character is not namelocked; the server is open, or
  the character may always log in; where only premium accounts play, the account is premium or staff;
  where an account plays one character at a time, it has none online or is staff; the account has no
  ban in force, or cannot be banned; and there is room for one more player, unless no limit applies.
\<close>

theorem login_passes_only_if:
  assumes "login_checks E loaded accountId info = Some (Passed, info', tasks)"
  shows "\<exists>p. loaded = Some p \<and> \<not> isPlayerNamelocked (login_db E) (cd_guid p) \<and>
    (cd_CanAlwaysLogin p \<or> gameState E \<noteq> GAME_STATE_CLOSING \<and> gameState E \<noteq> GAME_STATE_CLOSED) \<and>
    (\<not> ONLY_PREMIUM_ACCOUNT E \<or> isPremium E p \<or>
      cd_group p \<ge> GROUP_TYPE_GAMEMASTER \<and> cd_accountType p \<ge> ACCOUNT_TYPE_GAMEMASTER) \<and>
    (\<not> ONE_PLAYER_ON_ACCOUNT E \<or> cd_accountType p \<ge> ACCOUNT_TYPE_GAMEMASTER \<or> \<not> account_online E) \<and>
    (cd_CannotBeBanned p \<or> \<not> ban_in_force (login_db E) accountId) \<and>
    (exempt (login_try E p) \<or> players_online E < unat (word_of_int (MAX_PLAYERS E) :: u32))"
proof (cases loaded)
  case None
  then show ?thesis using assms by (simp add: login_checks_def)
next
  case (Some p)
  have wait: "wait_check E p info = Some (Passed, info')"
    using assms by (auto simp: login_checks_def Some Let_def split: if_splits prod.splits Option.bind_splits)
  have ban: "cd_CannotBeBanned p \<or> \<not> ban_in_force (login_db E) accountId"
    using assms ban_in_force_iff [of "login_db E" accountId "\<lparr>bannedBy = [], reason = [], expiresAt = 0\<rparr>"]
    by (cases "cd_CannotBeBanned p") (auto simp: login_checks_def Some split: if_splits prod.splits)
  have checks: "\<not> isPlayerNamelocked (login_db E) (cd_guid p)"
    "cd_CanAlwaysLogin p \<or> gameState E \<noteq> GAME_STATE_CLOSING \<and> gameState E \<noteq> GAME_STATE_CLOSED"
    "\<not> ONLY_PREMIUM_ACCOUNT E \<or> isPremium E p \<or>
      cd_group p \<ge> GROUP_TYPE_GAMEMASTER \<and> cd_accountType p \<ge> ACCOUNT_TYPE_GAMEMASTER"
    "\<not> ONE_PLAYER_ON_ACCOUNT E \<or> cd_accountType p \<ge> ACCOUNT_TYPE_GAMEMASTER \<or> \<not> account_online E"
    using assms by (auto simp: login_checks_def Some split: if_splits)
  show ?thesis using checks ban wait_check_room [OF wait] by (simp add: Some)
qed

definition demo_database :: database where
  "demo_database =
     \<lparr>storeQuery = (\<lambda>q. if q = account_ban_query 3
        then Some \<lparr>row_reason = ''spam'', row_expires_at = 500, row_banned_at = 100, row_banned_by = 1,
                   row_name = ''GM''\<rparr> else None),
      mysql_real_escape = id, time_now = 501\<rparr>"

definition demo_env :: login_env where
  "demo_env =
     \<lparr>gameState = GAME_STATE_NORMAL, FREE_PREMIUM = False, ONLY_PREMIUM_ACCOUNT = True,
      ONE_PLAYER_ON_ACCOUNT = True, MAX_PLAYERS = 10, account_online = False, players_online = 9,
      time_priority = 1000, time_wait = 1000, time_timeout = 1000, login_db = demo_database,
      strftime_day = (\<lambda>t. None)\<rparr>"

definition demo_candidate :: candidate where
  "demo_candidate =
     \<lparr>cd_guid = 8, cd_CanAlwaysLogin = False, cd_IsAlwaysPremium = False, cd_CannotBeBanned = False,
      cd_premiumDays = 30, cd_group = 1, cd_accountType = 1\<rparr>"

lemma demo_login:
  "\<exists>tasks. login_checks demo_env (Some demo_candidate) 3 no_waiters = Some (Passed, no_waiters, tasks)"
proof -
  let ?b = "\<lparr>bannedBy = [], reason = [], expiresAt = 0\<rparr>"
  obtain tasks where ban: "isAccountBanned demo_database 3 ?b = (False, ?b, tasks)"
    by (simp add: isAccountBanned_def demo_database_def)
  have lock: "\<not> isPlayerNamelocked demo_database 8"
    by (simp add: isPlayerNamelocked_def demo_database_def namelock_query_def account_ban_query_def)
  have wait: "wait_check demo_env demo_candidate no_waiters = Some (Passed, no_waiters)"
    by (simp add: wait_check_def clientLogin_def login_try_def demo_env_def demo_candidate_def
        no_waiters_def ACCOUNT_TYPE_GAMEMASTER_def)
  have env: "login_db demo_env = demo_database" "gameState demo_env = GAME_STATE_NORMAL"
    "\<not> account_online demo_env" "isPremium demo_env demo_candidate"
    "cd_guid demo_candidate = 8" "\<not> cd_CannotBeBanned demo_candidate"
    by (simp_all add: demo_env_def demo_candidate_def isPremium_def)
  show ?thesis by (simp add: login_checks_def env ban lock wait)
qed

theorem login_passes_only_if_witness:
  "\<not> isPlayerNamelocked demo_database 8 \<and> \<not> ban_in_force demo_database 3 \<and>
   players_online demo_env < 10"
proof -
  obtain tasks where "login_checks demo_env (Some demo_candidate) 3 no_waiters = Some (Passed, no_waiters, tasks)"
    using demo_login by blast
  from login_passes_only_if [OF this] show ?thesis
    by (simp add: demo_env_def demo_candidate_def exempt_def login_try_def ACCOUNT_TYPE_GAMEMASTER_def)
qed

end
