(* ===== verification/Progress.thy ===== *)
theory Progress
  imports Floats Names "HOL-Library.Monad_Syntax"
begin

text \<open>
  How a character progresses: vocations (\<^verbatim>\<open>creatures/players/vocations/vocation.cpp\<close>) and the
  operations of \<^verbatim>\<open>creatures/players/player.cpp\<close> on experience, magic level and skills, with what a death
  takes away. A \<^verbatim>\<open>Vocation*\<close> is the key of the vocation in the map of vocations; following a key that
  is not in the map is undefined behaviour (\<^term>\<open>None\<close>). Signed 32-bit fields are words that \<^term>\<open>sint\<close>
  reads. The values of \<^verbatim>\<open>std::pow\<close>, the Lua event handlers and the flags of the character's group are
  parameters; notifications are appended to a log.
\<close>

section \<open>Vocations\<close>

record Vocation =
  voc_name :: string
  gainHP :: u32
  gainMana :: u32
  gainCap :: u32
  voc_baseSpeed :: u32
  fromVocation :: u32
  cacheMana :: "(u32, u64) omap"
  cacheSkill :: "u8 \<Rightarrow> (u32, u32) omap"

type_synonym Vocations = "(u16, Vocation) omap"

definition VOCATION_NONE :: u16 where
  "VOCATION_NONE = 0"

definition SKILL_LAST :: u8 where
  "SKILL_LAST = 12"

definition getVocation :: "u16 \<Rightarrow> Vocations \<Rightarrow> Vocation option" where
  "getVocation i vs = om_find vs i"

text \<open>\<^verbatim>\<open>strcasecmp(a, b) == 0\<close> in the C locale.\<close>

definition same_word :: "string \<Rightarrow> string \<Rightarrow> bool" where
  "same_word a b \<longleftrightarrow> map tolower a = map tolower b"

fun getVocationId :: "string \<Rightarrow> Vocations \<Rightarrow> int" where
  "getVocationId nm [] = - 1"
| "getVocationId nm ((i, v) # vs) = (if same_word (voc_name v) nm then uint i else getVocationId nm vs)"

fun getPromotedVocation :: "u16 \<Rightarrow> Vocations \<Rightarrow> u16" where
  "getPromotedVocation vocationId [] = VOCATION_NONE"
| "getPromotedVocation vocationId ((i, v) # vs) =
     (if fromVocation v = ucast vocationId \<and> i \<noteq> vocationId then i
      else getPromotedVocation vocationId vs)"

text \<open>
  The powers: \<open>skill_pow voc skill level\<close> is the value of
  \<^verbatim>\<open>static_cast<uint64_t>(skillBase[skill] * std::pow(skillMultipliers[skill], level - 11))\<close> for the vocation
  with that key, \<open>mana_pow voc level\<close> that of the expression in \<^verbatim>\<open>getReqMana\<close>.
\<close>

record powers =
  skill_pow :: "u16 \<Rightarrow> u8 \<Rightarrow> u16 \<Rightarrow> u64"
  mana_pow :: "u16 \<Rightarrow> u32 \<Rightarrow> u64"

definition getReqSkillTries :: "powers \<Rightarrow> u16 \<Rightarrow> u8 \<Rightarrow> u16 \<Rightarrow> Vocation \<Rightarrow> u64 \<times> Vocation" where
  "getReqSkillTries F i skill lvl v =
     (if skill > SKILL_LAST \<or> lvl \<le> 10 then (0, v)
      else case om_find (cacheSkill v skill) (ucast lvl) of
        Some tries \<Rightarrow> (ucast tries, v)
      | None \<Rightarrow>
          let tries = skill_pow F i skill lvl in
          (tries, v\<lparr>cacheSkill := (cacheSkill v)
             (skill := om_set (cacheSkill v skill) (ucast lvl) (ucast tries))\<rparr>))"

definition getReqMana :: "powers \<Rightarrow> u16 \<Rightarrow> u32 \<Rightarrow> Vocation \<Rightarrow> u64 \<times> Vocation" where
  "getReqMana F i magLvl v =
     (if magLvl = 0 then (0, v)
      else case om_find (cacheMana v) magLvl of
        Some reqMana \<Rightarrow> (reqMana, v)
      | None \<Rightarrow>
          let reqMana = mana_pow F i magLvl in
          (reqMana, v\<lparr>cacheMana := om_set (cacheMana v) magLvl reqMana\<rparr>))"

section \<open>Characters\<close>

record Skill =
  tries :: u64
  skill_level :: u16
  percent_done :: ratio

datatype notice =
    SendStats
  | SendSkills
  | AdvanceMessage string
  | ExperienceMessage string u64
  | ExperienceOthers string
  | PlayerAdvance skills_t u32 u32
  | ChangeSpeed
  | AddCreatureHealth
  | AddPlayerMana
  | UpdateSharedExperience
  | TrainingMessage skills_t u32 ratio u32 ratio

record Character =
  ch_name :: string
  vocation :: u16
  level :: u32
  levelPercent :: u8
  experience :: u64
  magLevel :: u32
  manaSpent :: u64
  magLevelPercent :: ratio
  skills :: "skills_t \<Rightarrow> Skill"
  healthMax :: u32
  health :: u32
  manaMax :: u32
  mana :: u32
  capacity :: u32
  baseSpeed :: u32
  in_party :: bool
  notices :: "notice list"

record progress_env =
  pow_values :: powers
  NotGainMana :: bool
  NotGainExperience :: bool
  SetMaxSpeed :: bool
  staminaMinutes :: u16
  has_spectators :: bool
  onGainExperience :: "Character \<Rightarrow> u64 \<Rightarrow> u64"
  onLoseExperience :: "Character \<Rightarrow> u64 \<Rightarrow> u64"
  onGainSkillTries :: "Character \<Rightarrow> skills_t \<Rightarrow> u64 \<Rightarrow> u64"

definition notify :: "notice list \<Rightarrow> Character \<Rightarrow> Character" where
  "notify ns s = s\<lparr>notices := notices s @ ns\<rparr>"

section \<open>Experience\<close>

text \<open>\<^verbatim>\<open>lv\<close> is an \<^verbatim>\<open>int32_t\<close>; the products convert it to \<^verbatim>\<open>unsigned long long\<close>.\<close>

definition getExpForLevel :: "u32 \<Rightarrow> u64" where
  "getExpForLevel lv =
     (let n = word_of_int (sint (lv - 1)) :: u64 in
      (50 * n * n * n - 150 * n * n + 400 * n) div 3)"

definition fl_quot :: "nat \<Rightarrow> ratio \<Rightarrow> ratio \<Rightarrow> ratio" where
  "fl_quot p x y = fl p (fst x * snd y, snd x * fst y)"

definition fl_round :: "ratio \<Rightarrow> nat" where
  "fl_round x = (2 * fst x + snd x) div (2 * snd x)"

definition fl_trunc :: "ratio \<Rightarrow> nat" where
  "fl_trunc x = fst x div snd x"

definition getPercentLevel :: "u64 \<Rightarrow> u64 \<Rightarrow> ratio" where
  "getPercentLevel count nextLevelCount =
     (if nextLevelCount = 0 then (0, 1)
      else
        let q = fl_quot 53 (fl_mult 53 (fl_of_nat 53 (unat count)) 100) (fl_of_nat 53 (unat nextLevelCount));
            result = fl_div 53 (fl_of_nat 53 (fl_round (fl_mult 53 q 100))) 100 in
        if fst result > 100 * snd result then (0, 1) else result)"

definition level_percent :: "u64 \<Rightarrow> u64 \<Rightarrow> u64 \<Rightarrow> u8" where
  "level_percent exp cur nxt =
     (if nxt > cur then of_nat (fl_trunc (getPercentLevel (exp - cur) (nxt - cur))) else 0)"

definition add_gains :: "Vocation \<Rightarrow> Character \<Rightarrow> Character" where
  "add_gains v s =
     s\<lparr>healthMax := healthMax s + gainHP v, health := health s + gainHP v,
       manaMax := manaMax s + gainMana v, mana := mana s + gainMana v,
       capacity := capacity s + gainCap v\<rparr>"

text \<open>\<^verbatim>\<open>std::max<int32_t>(0, x - y)\<close> with \<^verbatim>\<open>y\<close> unsigned.\<close>

definition sub_clamped :: "u32 \<Rightarrow> u32 \<Rightarrow> u32" where
  "sub_clamped x y = (if sint (x - y) < 0 then 0 else x - y)"

definition take_gains :: "Vocation \<Rightarrow> Character \<Rightarrow> Character" where
  "take_gains v s =
     s\<lparr>healthMax := sub_clamped (healthMax s) (gainHP v),
       manaMax := sub_clamped (manaMax s) (gainMana v),
       capacity := sub_clamped (capacity s) (gainCap v)\<rparr>"

text \<open>The vocation whose gains apply at the level just reached: \<^verbatim>\<open>VOCATION_NONE\<close> up to level 8.\<close>

definition gains_of :: "Vocations \<Rightarrow> Character \<Rightarrow> Vocation option" where
  "gains_of vs s =
     (if vocation s \<noteq> VOCATION_NONE \<and> level s \<le> 8 then getVocation VOCATION_NONE vs
      else getVocation (vocation s) vs)"

definition level_up :: "Vocations \<Rightarrow> Character \<Rightarrow> Character option" where
  "level_up vs s =
     (let s = s\<lparr>level := level s + 1\<rparr> in
      do { v \<leftarrow> gains_of vs s; Some (add_gains v s) })"

definition level_down :: "Vocations \<Rightarrow> Character \<Rightarrow> Character option" where
  "level_down vs s =
     (let s = s\<lparr>level := level s - 1\<rparr> in
      do { v \<leftarrow> gains_of vs s; Some (take_gains v s) })"

function level_up_loop ::
  "Vocations \<Rightarrow> u64 \<Rightarrow> u64 \<Rightarrow> Character \<Rightarrow> (u64 \<times> u64 \<times> Character) option" where
  "level_up_loop vs cur nxt s =
     (if experience s \<ge> nxt then do {
        s \<leftarrow> level_up vs s;
        let cur = nxt; nxt = getExpForLevel (level s + 1) in
        if cur \<ge> nxt then Some (cur, nxt, s) else level_up_loop vs cur nxt s
      } else Some (cur, nxt, s))"
  by pat_completeness auto
termination
  by (relation "measure (\<lambda>(vs, cur, nxt, s). 2 ^ 64 - unat nxt)")
    (simp_all add: word_less_nat_alt diff_less_mono2 not_le unat_u64)

declare level_up_loop.simps [simp del]

definition updateBaseSpeed :: "progress_env \<Rightarrow> Vocations \<Rightarrow> Character \<Rightarrow> Character option" where
  "updateBaseSpeed E vs s =
     (if \<not> SetMaxSpeed E then do {
        v \<leftarrow> getVocation (vocation s) vs;
        Some (s\<lparr>baseSpeed := voc_baseSpeed v + 2 * (level s - 1)\<rparr>)
      } else Some (s\<lparr>baseSpeed := 4500\<rparr>))"

definition points_text :: "u64 \<Rightarrow> string" where
  "points_text e =
     dec_string (unat e) @ (if e \<noteq> 1 then '' experience points.'' else '' experience point.'')"

definition experience_messages :: "progress_env \<Rightarrow> string \<Rightarrow> string \<Rightarrow> u64 \<Rightarrow> Character \<Rightarrow> Character" where
  "experience_messages E verb verb_other e s =
     notify (ExperienceMessage (verb @ points_text e) e #
       (if has_spectators E then [ExperienceOthers (ch_name s @ verb_other @ points_text e)] else [])) s"

definition level_message :: "string \<Rightarrow> u32 \<Rightarrow> u32 \<Rightarrow> notice" where
  "level_message verb old new =
     AdvanceMessage (verb @ dec_string (unat old) @ '' to Level '' @ dec_string (unat new) @ ''.'')"

definition party_update :: "Character \<Rightarrow> notice list" where
  "party_update s = (if in_party s then [UpdateSharedExperience] else [])"

text \<open>What follows a change of level, the same after a gain and after a loss but for the last messages.\<close>

definition settle_level ::
  "progress_env \<Rightarrow> Vocations \<Rightarrow> u32 \<Rightarrow> (u32 \<Rightarrow> notice list) \<Rightarrow> Character \<Rightarrow> Character option" where
  "settle_level E vs old announce s =
     (if old \<noteq> level s then do {
        let s = s\<lparr>health := healthMax s, mana := manaMax s\<rparr>;
        s \<leftarrow> updateBaseSpeed E vs s;
        Some (notify ([ChangeSpeed, AddCreatureHealth, AddPlayerMana] @ party_update s @ announce (level s)) s)
      } else Some s)"

definition addExperience ::
  "progress_env \<Rightarrow> Vocations \<Rightarrow> u64 \<Rightarrow> bool \<Rightarrow> Character \<Rightarrow> Character option" where
  "addExperience E vs exp sendText s =
     (let cur = getExpForLevel (level s); nxt = getExpForLevel (level s + 1) in
      if cur \<ge> nxt then Some (notify [SendStats] (s\<lparr>levelPercent := 0\<rparr>))
      else
        let exp = onGainExperience E s exp in
        if exp = 0 then Some s
        else
          let s = s\<lparr>experience := experience s + exp\<rparr>;
              s = (if sendText then experience_messages E ''You gained '' '' gained '' exp s else s);
              prevLevel = level s in
          do {
            (cur, nxt, s) \<leftarrow> level_up_loop vs cur nxt s;
            s \<leftarrow> settle_level E vs prevLevel (\<lambda>lvl.
              [PlayerAdvance SKILL_LEVEL prevLevel lvl,
               level_message ''You advanced from Level '' prevLevel lvl]) s;
            Some (notify [SendStats] (s\<lparr>levelPercent := level_percent (experience s) cur nxt\<rparr>))
          })"

text \<open>\<^verbatim>\<open>std::max<int64_t>(0, experience - exp)\<close>: the difference is unsigned, the maximum signed.\<close>

definition exp_minus :: "u64 \<Rightarrow> u64 \<Rightarrow> u64" where
  "exp_minus x y = (if sint (x - y) < 0 then 0 else x - y)"

lemma level_down_level: "level_down vs s = Some s' \<Longrightarrow> level s' = level s - 1"
  by (auto simp: level_down_def Let_def take_gains_def split: Option.bind_splits)

function level_down_loop :: "Vocations \<Rightarrow> Character \<Rightarrow> Character option" where
  "level_down_loop vs s =
     (if level s > 1 \<and> experience s < getExpForLevel (level s)
      then level_down vs s \<bind> level_down_loop vs
      else Some s)"
  by pat_completeness auto
termination
proof (relation "measure (\<lambda>(vs, s). unat (level s))")
  fix vs :: Vocations and s s' :: Character
  assume "1 < level s \<and> experience s < getExpForLevel (level s)" "level_down vs s = Some s'"
  then have "0 < level s" "level s' = level s - 1" by (auto simp: level_down_level word_less_nat_alt)
  then show "((vs, s'), vs, s) \<in> measure (\<lambda>(vs, s). unat (level s))"
    by (simp add: measure_unat word_gt_0)
qed simp

declare level_down_loop.simps [simp del]

definition removeExperience ::
  "progress_env \<Rightarrow> Vocations \<Rightarrow> u64 \<Rightarrow> bool \<Rightarrow> Character \<Rightarrow> Character option" where
  "removeExperience E vs exp sendText s =
     (if experience s = 0 \<or> exp = 0 then Some s
      else
        let exp = onLoseExperience E s exp in
        if exp = 0 then Some s
        else
          let lostExp = experience s;
              s = s\<lparr>experience := exp_minus (experience s) exp\<rparr>;
              s = (if sendText
                   then experience_messages E ''You lost '' '' lost '' (lostExp - experience s) s else s);
              oldLevel = level s in
          do {
            s \<leftarrow> level_down_loop vs s;
            s \<leftarrow> settle_level E vs oldLevel (\<lambda>lvl.
              [level_message ''You were downgraded from Level '' oldLevel lvl]) s;
            Some (notify [SendStats]
              (s\<lparr>levelPercent :=
                level_percent (experience s) (getExpForLevel (level s)) (getExpForLevel (level s + 1))\<rparr>))
          })"

definition gainExperience :: "progress_env \<Rightarrow> Vocations \<Rightarrow> u64 \<Rightarrow> Character \<Rightarrow> Character option" where
  "gainExperience E vs gainExp s =
     (if NotGainExperience E \<or> gainExp = 0 \<or> staminaMinutes E = 0 then Some s
      else addExperience E vs gainExp True s)"

section \<open>Skills\<close>

definition set_skill :: "skills_t \<Rightarrow> Skill \<Rightarrow> Character \<Rightarrow> Character" where
  "set_skill sk k s = s\<lparr>skills := (skills s)(sk := k)\<rparr>"

definition skill_message :: "skills_t \<Rightarrow> u16 \<Rightarrow> notice" where
  "skill_message sk lvl =
     AdvanceMessage (''You advanced to '' @ getSkillName (skills_value sk) @ '' level '' @
       dec_string (unat lvl) @ ''.'')"

text \<open>
  The loop of \<^verbatim>\<open>addSkillAdvance\<close>, and with \<open>announce\<close> false that of \<^verbatim>\<open>addOfflineTrainingTries\<close>, which
  sends its message afterwards.
\<close>

function skill_loop ::
  "powers \<Rightarrow> bool \<Rightarrow> skills_t \<Rightarrow> u64 \<Rightarrow> u64 \<Rightarrow> u64 \<Rightarrow> Vocation \<Rightarrow> Character
     \<Rightarrow> u64 \<times> u64 \<times> u64 \<times> Vocation \<times> Character" where
  "skill_loop F announce sk cnt cur nxt v s =
     (if tries (skills s sk) + cnt \<ge> nxt then
        let cnt = cnt - (nxt - tries (skills s sk));
            lvl = skill_level (skills s sk) + 1;
            s = set_skill sk \<lparr>tries = 0, skill_level = lvl, percent_done = (0, 1)\<rparr> s;
            s = notify ((if announce then [skill_message sk lvl] else []) @
                  [PlayerAdvance sk (ucast lvl - 1) (ucast lvl)]) s;
            cur = nxt;
            (nxt, v) = getReqSkillTries F (vocation s) (skills_value sk) (lvl + 1) v in
        if cur \<ge> nxt then (0, cur, nxt, v, s) else skill_loop F announce sk cnt cur nxt v s
      else (cnt, cur, nxt, v, s))"
  by pat_completeness auto
termination
  by (relation "measure (\<lambda>(F, announce, sk, cnt, cur, nxt, v, s). 2 ^ 64 - unat nxt)")
    (simp_all add: word_less_nat_alt diff_less_mono2 not_le unat_u64)

declare skill_loop.simps [simp del]

definition new_percent :: "u64 \<Rightarrow> u64 \<Rightarrow> u64 \<Rightarrow> nat" where
  "new_percent t cur nxt = (if nxt > cur then fl_trunc (getPercentLevel t nxt) else 0)"

definition set_percent :: "skills_t \<Rightarrow> nat \<Rightarrow> Character \<Rightarrow> bool \<times> Character" where
  "set_percent sk n s =
     (let k = skills s sk in
      if fst (percent_done k) \<noteq> n * snd (percent_done k)
      then (True, set_skill sk (k\<lparr>percent_done := (n, 1)\<rparr>) s) else (False, s))"

definition addSkillAdvance ::
  "progress_env \<Rightarrow> Vocations \<Rightarrow> skills_t \<Rightarrow> u64 \<Rightarrow> Character \<Rightarrow> (Vocations \<times> Character) option" where
  "addSkillAdvance E vs sk cnt s = do {
     v \<leftarrow> getVocation (vocation s) vs;
     let F = pow_values E; i = vocation s; lvl = skill_level (skills s sk);
         (cur, v) = getReqSkillTries F i (skills_value sk) lvl v;
         (nxt, v) = getReqSkillTries F i (skills_value sk) (lvl + 1) v in
     if cur \<ge> nxt then Some (om_set vs i v, s)
     else
       let cnt = onGainSkillTries E s sk cnt in
       if cnt = 0 then Some (om_set vs i v, s)
       else
         let (cnt, cur, nxt, v, s) = skill_loop F True sk cnt cur nxt v s;
             k = skills s sk;
             s = set_skill sk (k\<lparr>tries := tries k + cnt\<rparr>) s;
             (changed, s) = set_percent sk (new_percent (tries (skills s sk)) cur nxt) s;
             advanced = (skill_level (skills s sk) \<noteq> lvl);
             s = (if advanced \<or> changed then notify [SendSkills, SendStats] s else s) in
         Some (om_set vs i v, s)
   }"

section \<open>Magic level\<close>

definition magic_message :: "u32 \<Rightarrow> notice" where
  "magic_message lvl = AdvanceMessage (''You advanced to magic level '' @ dec_string (unat lvl) @ ''.'')"

function mana_loop ::
  "powers \<Rightarrow> bool \<Rightarrow> u64 \<Rightarrow> u64 \<Rightarrow> u64 \<Rightarrow> Vocation \<Rightarrow> Character
     \<Rightarrow> u64 \<times> u64 \<times> u64 \<times> Vocation \<times> Character" where
  "mana_loop F announce amount cur nxt v s =
     (if manaSpent s + amount \<ge> nxt then
        let amount = amount - (nxt - manaSpent s);
            lvl = magLevel s + 1;
            s = s\<lparr>magLevel := lvl, manaSpent := 0\<rparr>;
            s = notify ((if announce then [magic_message lvl] else []) @
                  [PlayerAdvance SKILL_MAGLEVEL (lvl - 1) lvl]) s;
            cur = nxt;
            (nxt, v) = getReqMana F (vocation s) (lvl + 1) v in
        if cur \<ge> nxt then (0, cur, nxt, v, s) else mana_loop F announce amount cur nxt v s
      else (amount, cur, nxt, v, s))"
  by pat_completeness auto
termination
  by (relation "measure (\<lambda>(F, announce, amount, cur, nxt, v, s). 2 ^ 64 - unat nxt)")
    (simp_all add: word_less_nat_alt diff_less_mono2 not_le unat_u64)

declare mana_loop.simps [simp del]

text \<open>
  \<^verbatim>\<open>addManaSpent\<close>. When the loop meets the highest magic level the function returns at once.
\<close>

definition addManaSpent ::
  "progress_env \<Rightarrow> Vocations \<Rightarrow> u64 \<Rightarrow> Character \<Rightarrow> (Vocations \<times> Character) option" where
  "addManaSpent E vs amount s =
     (if NotGainMana E then Some (vs, s)
      else do {
        v \<leftarrow> getVocation (vocation s) vs;
        let F = pow_values E; i = vocation s;
            (cur, v) = getReqMana F i (magLevel s) v;
            (nxt, v) = getReqMana F i (magLevel s + 1) v in
        if cur \<ge> nxt then Some (om_set vs i v, s)
        else
          let amount = onGainSkillTries E s SKILL_MAGLEVEL amount in
          if amount = 0 then Some (om_set vs i v, s)
          else
            let old = magLevel s;
                (amount, cur, nxt, v, s) = mana_loop F True amount cur nxt v s in
            if cur \<ge> nxt then Some (om_set vs i v, s)
            else
              let s = s\<lparr>manaSpent := manaSpent s + amount\<rparr>;
                  oldPercent = fl_trunc (magLevelPercent s) mod 256;
                  s = s\<lparr>magLevelPercent := getPercentLevel (manaSpent s) nxt\<rparr>;
                  s = (if magLevel s \<noteq> old \<or>
                          fst (magLevelPercent s) \<noteq> oldPercent * snd (magLevelPercent s)
                       then notify [SendStats, SendSkills] s else s) in
              Some (om_set vs i v, s)
      })"

section \<open>Offline training\<close>

text \<open>
  \<^verbatim>\<open>static_cast<long double>(x * 100) / y\<close>: the product is 64 bits wide, the quotient has 64
  significant bits. The text of the final message is the notice \<^const>\<open>TrainingMessage\<close> with its values.
\<close>

definition progress_of :: "u64 \<Rightarrow> u64 \<Rightarrow> ratio" where
  "progress_of x y = fl 64 (unat (x * 100), unat y)"

definition train_magic ::
  "progress_env \<Rightarrow> Vocations \<Rightarrow> u64 \<Rightarrow> Character \<Rightarrow> (bool \<times> Vocations \<times> Character) option" where
  "train_magic E vs cnt s = do {
     v \<leftarrow> getVocation (vocation s) vs;
     let F = pow_values E; i = vocation s;
         (cur, v) = getReqMana F i (magLevel s) v;
         (nxt, v) = getReqMana F i (magLevel s + 1) v in
     if cur \<ge> nxt then Some (False, om_set vs i v, s)
     else
       let old = magLevel s; oldPercent = progress_of (manaSpent s) nxt;
           cnt = onGainSkillTries E s SKILL_MAGLEVEL cnt;
           (cnt, cur, nxt, v, s) = mana_loop F False cnt cur nxt v s;
           s = s\<lparr>manaSpent := manaSpent s + cnt\<rparr>;
           s = (if magLevel s \<noteq> old then notify [magic_message (magLevel s)] s else s);
           newPercent = new_percent (manaSpent s) cur nxt;
           newProgress = (if nxt > cur then progress_of (manaSpent s) nxt else (0, 1));
           changed = (fst (magLevelPercent s) \<noteq> newPercent * snd (magLevelPercent s));
           s = (if changed then s\<lparr>magLevelPercent := (newPercent, 1)\<rparr> else s);
           update = (magLevel s \<noteq> old \<or> changed);
           s = (if update then notify [SendSkills, SendStats] s else s) in
       Some (update, om_set vs i v,
         notify [TrainingMessage SKILL_MAGLEVEL old oldPercent (magLevel s) newProgress] s)
   }"

definition train_skill ::
  "progress_env \<Rightarrow> Vocations \<Rightarrow> skills_t \<Rightarrow> u64 \<Rightarrow> Character \<Rightarrow> (bool \<times> Vocations \<times> Character) option" where
  "train_skill E vs sk cnt s = do {
     v \<leftarrow> getVocation (vocation s) vs;
     let F = pow_values E; i = vocation s; old = skill_level (skills s sk);
         (cur, v) = getReqSkillTries F i (skills_value sk) old v;
         (nxt, v) = getReqSkillTries F i (skills_value sk) (old + 1) v in
     if cur \<ge> nxt then Some (False, om_set vs i v, s)
     else
       let oldPercent = progress_of (tries (skills s sk)) nxt;
           cnt = onGainSkillTries E s sk cnt;
           (cnt, cur, nxt, v, s) = skill_loop F False sk cnt cur nxt v s;
           k = skills s sk;
           s = set_skill sk (k\<lparr>tries := tries k + cnt\<rparr>) s;
           lvl = skill_level k;
           s = (if old \<noteq> lvl then notify [skill_message sk lvl] s else s);
           newProgress = (if nxt > cur then progress_of (tries (skills s sk)) nxt else (0, 1));
           (changed, s) = set_percent sk (new_percent (tries (skills s sk)) cur nxt) s;
           update = (old \<noteq> lvl \<or> changed);
           s = (if update then notify [SendSkills, SendStats] s else s) in
       Some (update, om_set vs i v,
         notify [TrainingMessage sk (ucast old) oldPercent (ucast lvl) newProgress] s)
   }"

definition addOfflineTrainingTries ::
  "progress_env \<Rightarrow> Vocations \<Rightarrow> skills_t \<Rightarrow> u64 \<Rightarrow> Character \<Rightarrow> (bool \<times> Vocations \<times> Character) option" where
  "addOfflineTrainingTries E vs sk cnt s =
     (if cnt = 0 \<or> sk = SKILL_LEVEL then Some (False, vs, s)
      else if sk = SKILL_MAGLEVEL then train_magic E vs cnt s
      else train_skill E vs sk cnt s)"

section \<open>What a death takes away\<close>

text \<open>
  The losses in \<^verbatim>\<open>Player::death\<close>, for a given \<^verbatim>\<open>deathLossPercent\<close>: the sums of all mana and all tries ever
  spent, the part of them that is lost, and the loops that pay for it level by level. Converting a
  \<^verbatim>\<open>double\<close> to an integer type that cannot hold it is undefined behaviour.
\<close>

definition part_of :: "u64 \<Rightarrow> ratio \<Rightarrow> nat" where
  "part_of x d =
     (let a = fl_of_nat 53 (unat x) in fl_trunc (fl 53 (fst a * fst d, snd a * snd d)))"

fun sum_mana :: "powers \<Rightarrow> u16 \<Rightarrow> u32 list \<Rightarrow> Vocation \<Rightarrow> u64 \<times> Vocation" where
  "sum_mana F i [] v = (0, v)"
| "sum_mana F i (l # ls) v =
     (let (r, v) = getReqMana F i l v; (rs, v) = sum_mana F i ls v in (r + rs, v))"

function mana_loss_loop :: "powers \<Rightarrow> u64 \<Rightarrow> Vocation \<Rightarrow> Character \<Rightarrow> u64 \<times> Vocation \<times> Character" where
  "mana_loss_loop F lost v s =
     (if lost > manaSpent s \<and> magLevel s > 0 then
        let lost = lost - manaSpent s; (r, v) = getReqMana F (vocation s) (magLevel s) v in
        mana_loss_loop F lost v (s\<lparr>manaSpent := r, magLevel := magLevel s - 1\<rparr>)
      else (lost, v, s))"
  by pat_completeness auto
termination
  by (relation "measure (\<lambda>(F, lost, v, s). unat (magLevel s))") (simp_all add: measure_unat word_gt_0)

declare mana_loss_loop.simps [simp del]

definition lose_mana :: "powers \<Rightarrow> ratio \<Rightarrow> Vocation \<Rightarrow> Character \<Rightarrow> (Vocation \<times> Character) option" where
  "lose_mana F d v s =
     (let i = vocation s;
          (sum, v) = sum_mana F i (map of_nat [1..<Suc (unat (magLevel s))]) v;
          lost = part_of (sum + manaSpent s) d in
      if lost \<ge> 2 ^ 64 then None
      else
        let (lost, v, s) = mana_loss_loop F (of_nat lost) v s;
            s = s\<lparr>manaSpent := manaSpent s - lost\<rparr>;
            (nxt, v) = getReqMana F i (magLevel s + 1) v;
            (cur, v) = getReqMana F i (magLevel s) v in
        Some (v, s\<lparr>magLevelPercent := (if nxt > cur then getPercentLevel (manaSpent s) nxt else (0, 1))\<rparr>))"

fun sum_tries :: "powers \<Rightarrow> u16 \<Rightarrow> u8 \<Rightarrow> u16 list \<Rightarrow> Vocation \<Rightarrow> u64 \<times> Vocation" where
  "sum_tries F i sk [] v = (0, v)"
| "sum_tries F i sk (l # ls) v =
     (let (r, v) = getReqSkillTries F i sk l v; (rs, v) = sum_tries F i sk ls v in (r + rs, v))"

function tries_loss_loop ::
  "powers \<Rightarrow> u16 \<Rightarrow> u8 \<Rightarrow> u32 \<Rightarrow> Vocation \<Rightarrow> Skill \<Rightarrow> u32 \<times> Vocation \<times> Skill" where
  "tries_loss_loop F i sk lost v k =
     (if ucast lost > tries k then
        let lost = lost - ucast (tries k) in
        if skill_level k \<le> 10 then (0, v, k\<lparr>skill_level := 10, tries := 0\<rparr>)
        else
          let (r, v) = getReqSkillTries F i sk (skill_level k) v in
          tries_loss_loop F i sk lost v (k\<lparr>tries := r, skill_level := skill_level k - 1\<rparr>)
      else (lost, v, k))"
  by pat_completeness auto
termination
  by (relation "measure (\<lambda>(F, i, sk, lost, v, k). unat (skill_level k))")
    (auto simp: not_le unat_pred)

declare tries_loss_loop.simps [simp del]

text \<open>
  \<^verbatim>\<open>skills[i].tries = std::max<int32_t>(0, skills[i].tries - lostSkillTries)\<close>: the 64-bit difference is
  converted to 32 bits first.
\<close>

definition tries_minus :: "u64 \<Rightarrow> u32 \<Rightarrow> u64" where
  "tries_minus x y =
     (let d = ucast (x - ucast y) :: u32 in if sint d < 0 then 0 else ucast d)"

definition lose_tries ::
  "powers \<Rightarrow> ratio \<Rightarrow> u16 \<Rightarrow> skills_t \<Rightarrow> Vocation \<Rightarrow> Skill \<Rightarrow> (Vocation \<times> Skill) option" where
  "lose_tries F d i sk v k =
     (let n = skills_value sk;
          (sum, v) = sum_tries F i n (map of_nat [11..<Suc (unat (skill_level k))]) v;
          lost = part_of (sum + tries k) d in
      if lost \<ge> 2 ^ 32 then None
      else
        let (lost, v, k) = tries_loss_loop F i n (of_nat lost) v k;
            k = k\<lparr>tries := tries_minus (tries k) lost\<rparr>;
            (r, v) = getReqSkillTries F i n (skill_level k) v in
        Some (v, k\<lparr>percent_done := getPercentLevel (tries k) r\<rparr>))"

fun lose_skills ::
  "powers \<Rightarrow> ratio \<Rightarrow> skills_t list \<Rightarrow> Vocation \<Rightarrow> Character \<Rightarrow> (Vocation \<times> Character) option" where
  "lose_skills F d [] v s = Some (v, s)"
| "lose_skills F d (sk # sks) v s = do {
     (v, k) \<leftarrow> lose_tries F d (vocation s) sk v (skills s sk);
     lose_skills F d sks v (set_skill sk k s)
   }"

definition death_skills :: "skills_t list" where
  "death_skills =
     [SKILL_FIST, SKILL_CLUB, SKILL_SWORD, SKILL_AXE, SKILL_DISTANCE, SKILL_SHIELD, SKILL_FISHING,
      SKILL_CRITICAL_HIT_CHANCE, SKILL_CRITICAL_HIT_DAMAGE, SKILL_LIFE_LEECH_CHANCE,
      SKILL_LIFE_LEECH_AMOUNT, SKILL_MANA_LEECH_CHANCE, SKILL_MANA_LEECH_AMOUNT]"

function death_level_loop :: "Vocation \<Rightarrow> Character \<Rightarrow> Character" where
  "death_level_loop v s =
     (if level s > 1 \<and> experience s < getExpForLevel (level s)
      then death_level_loop v (take_gains v (s\<lparr>level := level s - 1\<rparr>)) else s)"
  by pat_completeness auto
termination
  by (relation "measure (\<lambda>(v, s). unat (level s))")
    (auto simp: take_gains_def unat_pred)

declare death_level_loop.simps [simp del]

text \<open>The experience, and with it levels, health, mana and capacity.\<close>

definition lose_experience ::
  "progress_env \<Rightarrow> ratio \<Rightarrow> Vocation \<Rightarrow> Character \<Rightarrow> Character option" where
  "lose_experience E d v s =
     (let loss = part_of (experience s) d in
      if loss \<ge> 2 ^ 64 then None
      else
        let expLoss = onLoseExperience E s (of_nat loss) in
        if expLoss = 0 then Some s
        else
          let oldLevel = level s;
              s = (if vocation s = VOCATION_NONE \<or> level s > 7
                   then s\<lparr>experience := experience s - expLoss\<rparr> else s);
              s = death_level_loop v s;
              s = (if oldLevel \<noteq> level s
                   then notify [level_message ''You were downgraded from Level '' oldLevel (level s)] s else s) in
          Some (s\<lparr>levelPercent :=
            level_percent (experience s) (getExpForLevel (level s)) (getExpForLevel (level s + 1))\<rparr>))"

definition death_losses ::
  "progress_env \<Rightarrow> ratio \<Rightarrow> Vocations \<Rightarrow> Character \<Rightarrow> (Vocations \<times> Character) option" where
  "death_losses E deathLossPercent vs s = do {
     v \<leftarrow> getVocation (vocation s) vs;
     (v, s) \<leftarrow> lose_mana (pow_values E) deathLossPercent v s;
     (v, s) \<leftarrow> lose_skills (pow_values E) deathLossPercent death_skills v s;
     s \<leftarrow> lose_experience E deathLossPercent v s;
     Some (om_set vs (vocation s) v, s)
   }"

section \<open>Reference definitions\<close>

text \<open>The experience points of \<open>n\<close> levels: a character of level \<open>n + 1\<close> has at least that many.\<close>

fun exp_total :: "nat \<Rightarrow> nat" where
  "exp_total 0 = 0"
| "exp_total (Suc n) = exp_total n + 50 * (n * n + 2 - n)"

text \<open>Up to this many levels the arithmetic of \<^const>\<open>getExpForLevel\<close> does not wrap around.\<close>

definition max_levels :: nat where
  "max_levels = 717000"

definition level_ok :: "Character \<Rightarrow> bool" where
  "level_ok s \<longleftrightarrow> level s \<noteq> 0 \<and> unat (level s) < max_levels \<and>
     exp_total (unat (level s) - 1) \<le> unat (experience s) \<and> unat (experience s) < exp_total (unat (level s))"

definition vocations_ok :: "Vocations \<Rightarrow> Character \<Rightarrow> bool" where
  "vocations_ok vs s \<longleftrightarrow>
     getVocation (vocation s) vs \<noteq> None \<and> getVocation VOCATION_NONE vs \<noteq> None"

section \<open>Lemmas on experience\<close>

lemma exp_total_closed: "3 * exp_total n + 150 * (n * n) = 50 * (n * n * n) + 400 * n"
proof (induction n)
  case 0
  then show ?case by simp
next
  case (Suc n)
  have "n \<le> n * n + 2" by (cases n) simp_all
  then have total: "int (exp_total (Suc n)) = int (exp_total n) + 50 * (int n * int n + 2 - int n)"
    by (simp add: of_nat_diff)
  have "3 * int (exp_total n) + 150 * (int n * int n) = 50 * (int n * int n * int n) + 400 * int n"
    using Suc.IH by (metis (no_types, lifting) of_nat_add of_nat_mult of_nat_numeral)
  then have "3 * (int (exp_total n) + 50 * (int n * int n + 2 - int n)) + 150 * ((int n + 1) * (int n + 1)) =
      50 * ((int n + 1) * (int n + 1) * (int n + 1)) + 400 * (int n + 1)"
    by algebra
  then have "int (3 * exp_total (Suc n) + 150 * (Suc n * Suc n)) = int (50 * (Suc n * Suc n * Suc n) + 400 * Suc n)"
    by (simp only: of_nat_add of_nat_mult of_nat_numeral of_nat_Suc total add.commute [of 1])
  then show ?case by (simp only: of_nat_eq_iff)
qed

lemma exp_total_strict: "exp_total n < exp_total (Suc n)"
proof -
  have "n < n * n + 2" by (cases n) simp_all
  then show ?thesis by simp
qed

lemma exp_total_mono: "m \<le> n \<Longrightarrow> exp_total m \<le> exp_total n"
  by (rule lift_Suc_mono_le) (rule less_imp_le [OF exp_total_strict])

lemma exp_total_less: "exp_total m < exp_total n \<longleftrightarrow> m < n"
  by (metis exp_total_mono exp_total_strict lift_Suc_mono_less_iff)

lemma exp_numerator_fits:
  assumes "n < max_levels"
  shows "50 * (n * n * n) + 400 * n < 2 ^ 64"
proof -
  have n: "n \<le> 716999" using assms by (simp add: max_levels_def)
  have "n * n * n \<le> 716999 * 716999 * 716999" by (intro mult_le_mono n)
  with n show ?thesis by simp
qed

lemma exp_total_fits: "n < max_levels \<Longrightarrow> exp_total n < 2 ^ 63"
  using exp_numerator_fits [of n] exp_total_closed [of n] by simp

lemma getExpForLevel_exact:
  assumes "lv \<noteq> 0" "unat lv \<le> max_levels"
  shows "unat (getExpForLevel lv) = exp_total (unat lv - 1)"
proof -
  define n where "n = unat lv - 1"
  have n: "n < max_levels" using assms by (simp add: n_def unat_gt_0 [symmetric] word_neq_0_conv)
  have "unat (lv - 1) = n" using assms(1) by (simp add: n_def unat_minus_one)
  moreover have "n < 2 ^ 31" using n by (simp add: max_levels_def)
  ultimately have "sint (lv - 1) = int n" using sint_eq_unat [of "lv - 1"] by simp
  then have w: "getExpForLevel lv = (50 * of_nat n * of_nat n * of_nat n - 150 * of_nat n * of_nat n + 400 * of_nat n) div 3"
    by (simp add: getExpForLevel_def Let_def)
  have "(of_nat (3 * exp_total n) :: u64) + of_nat (150 * (n * n)) = of_nat (50 * (n * n * n) + 400 * n)"
    by (metis exp_total_closed of_nat_add)
  then have "(of_nat (3 * exp_total n) :: u64) = 50 * of_nat n * of_nat n * of_nat n - 150 * of_nat n * of_nat n + 400 * of_nat n"
    by (simp add: algebra_simps)
  then have "unat (getExpForLevel lv) = unat (of_nat (3 * exp_total n) :: u64) div 3"
    by (simp add: w unat_div)
  moreover have "3 * exp_total n < 2 ^ 64"
    using exp_numerator_fits [OF n] exp_total_closed [of n] by simp
  ultimately have "unat (getExpForLevel lv) = 3 * exp_total n div 3"
    by (simp only: unat_of_nat len_num1 len_bit0 len_bit1 mod_less) simp
  then show ?thesis by (simp add: n_def)
qed

lemma level_up_simps:
  assumes "level_up vs s = Some s'"
  shows "level s' = level s + 1" "experience s' = experience s" "vocation s' = vocation s"
  using assms by (auto simp: level_up_def Let_def add_gains_def split: Option.bind_splits)

lemma level_up_defined: "vocations_ok vs s \<Longrightarrow> \<exists>s'. level_up vs s = Some s'"
  by (auto simp: level_up_def Let_def gains_of_def vocations_ok_def)

lemma level_down_simps:
  assumes "level_down vs s = Some s'"
  shows "level s' = level s - 1" "experience s' = experience s" "vocation s' = vocation s"
  using assms by (auto simp: level_down_def Let_def take_gains_def split: Option.bind_splits)

lemma level_down_defined: "vocations_ok vs s \<Longrightarrow> \<exists>s'. level_down vs s = Some s'"
  by (auto simp: level_down_def Let_def gains_of_def vocations_ok_def)

lemma level_up_loop_ok:
  assumes "vocations_ok vs s" "level s \<noteq> 0" "unat (level s) < max_levels"
    "exp_total (unat (level s) - 1) \<le> unat (experience s)"
    "unat (experience s) < exp_total (max_levels - 1)"
    "cur = getExpForLevel (level s)" "nxt = getExpForLevel (level s + 1)"
  shows "\<exists>s'. level_up_loop vs cur nxt s = Some (getExpForLevel (level s'), getExpForLevel (level s' + 1), s') \<and>
    level_ok s' \<and> experience s' = experience s \<and> vocation s' = vocation s"
  using assms
proof (induction vs cur nxt s rule: level_up_loop.induct)
  case (1 vs cur nxt s)
  have succ: "unat (level s + 1) = unat (level s) + 1"
    using "1.prems"(3) by (simp add: unat_word_ariths max_levels_def)
  have nz: "level s + 1 \<noteq> 0" using succ by (metis add_is_0 one_neq_zero unsigned_0)
  have nxt: "unat nxt = exp_total (unat (level s))"
    using "1.prems"(3,7) getExpForLevel_exact [OF nz] succ by simp
  show ?case
  proof (cases "experience s \<ge> nxt")
    case False
    then have "level_ok s" using "1.prems" nxt by (simp add: level_ok_def word_less_nat_alt not_le)
    with False "1.prems" show ?thesis by (subst level_up_loop.simps) simp
  next
    case True
    obtain s' where s': "level_up vs s = Some s'" using level_up_defined "1.prems"(1) by blast
    note up = level_up_simps [OF s']
    have "exp_total (unat (level s)) < exp_total (max_levels - 1)"
      using True nxt "1.prems"(5) by (simp add: word_le_nat_alt)
    then have lt: "unat (level s) < max_levels - 1" by (simp only: exp_total_less)
    then have succ': "unat (level s + 1 + 1) = unat (level s) + 2"
      using succ by (simp add: unat_word_ariths max_levels_def)
    have nz': "level s + 1 + 1 \<noteq> 0" using succ' by (metis add_is_0 numeral_neq_zero unsigned_0)
    have nxt': "unat (getExpForLevel (level s + 1 + 1)) = exp_total (unat (level s) + 1)"
      using getExpForLevel_exact [OF nz'] lt succ' by simp
    have "\<not> nxt \<ge> getExpForLevel (level s' + 1)"
      using exp_total_strict [of "unat (level s)"] unfolding up word_le_nat_alt nxt nxt' by simp
    then have rec: "level_up_loop vs cur nxt s = level_up_loop vs nxt (getExpForLevel (level s' + 1)) s'"
      using True s' by (subst level_up_loop.simps) (simp add: Let_def)
    have "\<exists>s''. level_up_loop vs nxt (getExpForLevel (level s' + 1)) s' =
        Some (getExpForLevel (level s''), getExpForLevel (level s'' + 1), s'') \<and>
        level_ok s'' \<and> experience s'' = experience s' \<and> vocation s'' = vocation s'"
    proof (rule "1.IH" [OF True s' refl refl])
      show "\<not> getExpForLevel (level s' + 1) \<le> nxt" by fact
      show "vocations_ok vs s'" using "1.prems"(1) by (simp add: vocations_ok_def up)
      show "exp_total (unat (level s') - 1) \<le> unat (experience s')"
        using True by (simp add: up succ nxt word_le_nat_alt)
    qed (use "1.prems" lt succ nz in \<open>simp_all add: up\<close>)
    then show ?thesis by (simp only: rec up)
  qed
qed

lemma level_down_loop_ok:
  assumes "vocations_ok vs s" "level s \<noteq> 0" "unat (level s) < max_levels"
    "unat (experience s) < exp_total (unat (level s))"
  shows "\<exists>s'. level_down_loop vs s = Some s' \<and> level_ok s' \<and> experience s' = experience s \<and> vocation s' = vocation s"
  using assms
proof (induction vs s rule: level_down_loop.induct)
  case (1 vs s)
  have cur: "unat (getExpForLevel (level s)) = exp_total (unat (level s) - 1)"
    using "1.prems"(2,3) by (intro getExpForLevel_exact) simp_all
  show ?case
  proof (cases "level s > 1 \<and> experience s < getExpForLevel (level s)")
    case False
    have "exp_total (unat (level s) - 1) \<le> unat (experience s)"
    proof (cases "level s > 1")
      case True
      with False show ?thesis by (simp add: not_less word_le_nat_alt cur)
    next
      case False
      then have "unat (level s) \<le> 1" by (simp add: word_less_nat_alt)
      then show ?thesis by simp
    qed
    then have "level_ok s" using "1.prems" by (simp add: level_ok_def)
    with False show ?thesis by (subst level_down_loop.simps) auto
  next
    case True
    obtain s' where s': "level_down vs s = Some s'" using level_down_defined "1.prems"(1) by blast
    note down = level_down_simps [OF s']
    have pred: "unat (level s - 1) = unat (level s) - 1" using "1.prems"(2) by (rule unat_minus_one)
    have gt: "unat (level s) > 1" using True by (simp add: word_less_nat_alt)
    have "\<exists>s''. level_down_loop vs s' = Some s'' \<and> level_ok s'' \<and> experience s'' = experience s' \<and>
        vocation s'' = vocation s'"
    proof (rule "1.IH" [OF True s'])
      show "vocations_ok vs s'" using "1.prems"(1) by (simp add: vocations_ok_def down)
      show "level s' \<noteq> 0" using gt pred by (metis down(1) diff_is_0_eq not_le unsigned_0)
      show "unat (level s') < max_levels" using "1.prems"(3) by (simp add: down pred)
      show "unat (experience s') < exp_total (unat (level s'))"
        using True by (simp add: down pred word_less_nat_alt cur)
    qed
    then show ?thesis using True s' by (subst level_down_loop.simps) (simp add: down)
  qed
qed

text \<open>Parts of a character that the bookkeeping around the loops leaves alone.\<close>

definition same_core :: "Character \<Rightarrow> Character \<Rightarrow> bool" where
  "same_core s t \<longleftrightarrow> level t = level s \<and> experience t = experience s \<and> vocation t = vocation s"

lemma level_ok_core: "same_core s t \<Longrightarrow> level_ok s \<Longrightarrow> level_ok t"
  by (simp add: same_core_def level_ok_def)

lemma notify_core [simp]:
  "level (notify ns s) = level s" "experience (notify ns s) = experience s" "vocation (notify ns s) = vocation s"
  by (simp_all add: notify_def)

lemma experience_messages_core [simp]:
  "level (experience_messages E a b e s) = level s" "experience (experience_messages E a b e s) = experience s"
  "vocation (experience_messages E a b e s) = vocation s"
  by (simp_all add: experience_messages_def)

lemma settle_level_ok:
  assumes "vocations_ok vs s"
  shows "\<exists>t. settle_level E vs old announce s = Some t \<and> same_core s t"
  using assms by (auto simp: settle_level_def updateBaseSpeed_def vocations_ok_def same_core_def Let_def)

definition exp_cap :: nat where
  "exp_cap = exp_total (max_levels - 1)"

lemma exp_cap_fits: "exp_cap < 2 ^ 63"
  unfolding exp_cap_def by (rule exp_total_fits) (simp add: max_levels_def)

lemma level_ok_steps:
  assumes "level_ok s"
  shows "\<not> getExpForLevel (level s) \<ge> getExpForLevel (level s + 1)"
proof -
  have succ: "unat (level s + 1) = unat (level s) + 1"
    using assms by (simp add: level_ok_def unat_word_ariths max_levels_def)
  have nz: "level s + 1 \<noteq> 0" using succ by (metis add_is_0 one_neq_zero unsigned_0)
  have "unat (getExpForLevel (level s + 1)) = exp_total (unat (level s))"
    using getExpForLevel_exact [OF nz] succ assms by (simp add: level_ok_def)
  moreover have "unat (getExpForLevel (level s)) = exp_total (unat (level s) - 1)"
    using assms by (intro getExpForLevel_exact) (simp_all add: level_ok_def)
  moreover have "exp_total (unat (level s) - 1) < exp_total (unat (level s))"
    using assms by (simp add: exp_total_less level_ok_def unat_gt_0 [symmetric] word_neq_0_conv)
  ultimately show ?thesis by (simp add: word_le_nat_alt)
qed

lemma addExperience_ok:
  assumes "level_ok s" "vocations_ok vs s"
    "unat (experience s) + unat (onGainExperience E s e) < exp_cap"
  shows "\<exists>s'. addExperience E vs e b s = Some s' \<and> level_ok s' \<and> vocation s' = vocation s \<and>
    experience s' = experience s + onGainExperience E s e"
proof (cases "onGainExperience E s e = 0")
  case True
  then show ?thesis using assms level_ok_steps [OF assms(1)] by (simp add: addExperience_def)
next
  case False
  let ?x = "onGainExperience E s e"
  define s0 where "s0 = (let s = s\<lparr>experience := experience s + ?x\<rparr> in
    if b then experience_messages E ''You gained '' '' gained '' ?x s else s)"
  have core: "level s0 = level s" "experience s0 = experience s + ?x" "vocation s0 = vocation s"
    by (simp_all add: s0_def Let_def)
  have sum: "unat (experience s + ?x) = unat (experience s) + unat ?x"
    using assms(3) exp_cap_fits by (subst unat_add_lem [symmetric]) simp
  have "\<exists>s'. level_up_loop vs (getExpForLevel (level s)) (getExpForLevel (level s + 1)) s0 =
      Some (getExpForLevel (level s'), getExpForLevel (level s' + 1), s') \<and>
      level_ok s' \<and> experience s' = experience s0 \<and> vocation s' = vocation s0"
    using assms by (intro level_up_loop_ok)
      (simp_all add: core sum vocations_ok_def level_ok_def exp_cap_def)
  then obtain s1 where s1: "level_up_loop vs (getExpForLevel (level s)) (getExpForLevel (level s + 1)) s0 =
      Some (getExpForLevel (level s1), getExpForLevel (level s1 + 1), s1)"
    "level_ok s1" "experience s1 = experience s + ?x" "vocation s1 = vocation s"
    by (auto simp: core)
  have "vocations_ok vs s1" using assms(2) by (simp add: vocations_ok_def s1)
  from settle_level_ok [OF this] obtain t where t:
    "settle_level E vs (level s) (\<lambda>lvl. [PlayerAdvance SKILL_LEVEL (level s) lvl,
       level_message ''You advanced from Level '' (level s) lvl]) s1 = Some t" "same_core s1 t"
    by blast
  have "addExperience E vs e b s =
      Some (notify [SendStats] (t\<lparr>levelPercent := level_percent (experience t)
        (getExpForLevel (level s1)) (getExpForLevel (level s1 + 1))\<rparr>))"
    using False level_ok_steps [OF assms(1)] s1(1) t(1)
    by (cases b) (simp_all add: addExperience_def s0_def)
  then show ?thesis using s1(2-) t(2) by (auto simp: same_core_def level_ok_def)
qed

lemma exp_minus_exact:
  assumes "unat x < 2 ^ 63" "unat y < 2 ^ 63"
  shows "unat (exp_minus x y) = unat x - unat y"
proof -
  have d: "sint (x - y) = int (unat x) - int (unat y)" using assms by (intro sint_diff_unat) simp_all
  show ?thesis
  proof (cases "unat y \<le> unat x")
    case True
    then have "unat (x - y) = unat x - unat y" by (simp add: unat_sub word_le_nat_alt)
    moreover have "\<not> sint (x - y) < 0" using True d by linarith
    ultimately show ?thesis by (simp add: exp_minus_def)
  next
    case False
    then have "sint (x - y) < 0" using d by linarith
    with False show ?thesis by (simp add: exp_minus_def)
  qed
qed

lemma removeExperience_ok:
  assumes "level_ok s" "vocations_ok vs s" "unat (experience s) < exp_cap" "unat (onLoseExperience E s e) < 2 ^ 63"
  shows "\<exists>s'. removeExperience E vs e b s = Some s' \<and> level_ok s' \<and> vocation s' = vocation s \<and>
    unat (experience s') \<le> unat (experience s)"
proof (cases "experience s = 0 \<or> e = 0 \<or> onLoseExperience E s e = 0")
  case True
  then show ?thesis using assms by (auto simp: removeExperience_def Let_def)
next
  case False
  let ?x = "onLoseExperience E s e"
  define s0 where "s0 = (let t = s\<lparr>experience := exp_minus (experience s) ?x\<rparr> in
    if b then experience_messages E ''You lost '' '' lost '' (experience s - experience t) t else t)"
  have core: "level s0 = level s" "experience s0 = exp_minus (experience s) ?x" "vocation s0 = vocation s"
    by (simp_all add: s0_def Let_def)
  have sub: "unat (exp_minus (experience s) ?x) = unat (experience s) - unat ?x"
    using assms(3,4) exp_cap_fits by (intro exp_minus_exact) simp_all
  have "\<exists>s'. level_down_loop vs s0 = Some s' \<and> level_ok s' \<and> experience s' = experience s0 \<and> vocation s' = vocation s0"
    using assms by (intro level_down_loop_ok) (auto simp: core sub vocations_ok_def level_ok_def)
  then obtain s1 where s1: "level_down_loop vs s0 = Some s1" "level_ok s1"
    "experience s1 = exp_minus (experience s) ?x" "vocation s1 = vocation s"
    by (auto simp: core)
  have "vocations_ok vs s1" using assms(2) by (simp add: vocations_ok_def s1)
  from settle_level_ok [OF this] obtain t where t:
    "settle_level E vs (level s) (\<lambda>lvl. [level_message ''You were downgraded from Level '' (level s) lvl]) s1 = Some t"
    "same_core s1 t"
    by blast
  have "removeExperience E vs e b s =
      Some (notify [SendStats] (t\<lparr>levelPercent := level_percent (experience t)
        (getExpForLevel (level t)) (getExpForLevel (level t + 1))\<rparr>))"
    using False s1(1) t(1) by (cases b) (simp_all add: removeExperience_def s0_def)
  then show ?thesis using s1(2-) t(2) sub by (auto simp: same_core_def level_ok_def)
qed

section \<open>Experience as a machine\<close>

datatype exp_event = Gain u64 bool | Lose u64 bool

definition exp_step :: "progress_env \<Rightarrow> Vocations \<Rightarrow> exp_event \<Rightarrow> Character \<Rightarrow> Character option" where
  "exp_step E vs e s =
     (case e of Gain x b \<Rightarrow> addExperience E vs x b s | Lose x b \<Rightarrow> removeExperience E vs x b s)"

definition exp_allowed :: "progress_env \<Rightarrow> Character \<Rightarrow> exp_event \<Rightarrow> bool" where
  "exp_allowed E s e \<longleftrightarrow>
     (case e of
        Gain x b \<Rightarrow> unat (experience s) + unat (onGainExperience E s x) < exp_cap
      | Lose x b \<Rightarrow> unat (onLoseExperience E s x) < 2 ^ 63)"

definition exp_ok :: "Vocations \<Rightarrow> Character \<Rightarrow> bool" where
  "exp_ok vs s \<longleftrightarrow> level_ok s \<and> vocations_ok vs s \<and> unat (experience s) < exp_cap"

lemma exp_step_safe:
  assumes "exp_ok vs s" "exp_allowed E s e"
  shows "\<exists>s'. exp_step E vs e s = Some s' \<and> exp_ok vs s'"
proof (cases e)
  case (Gain x b)
  have "unat (experience s + onGainExperience E s x) \<le> unat (experience s) + unat (onGainExperience E s x)"
    by (simp add: unat_word_ariths)
  then show ?thesis
    using addExperience_ok [of s vs E x b] assms Gain
    by (auto simp: exp_ok_def exp_allowed_def exp_step_def vocations_ok_def)
next
  case (Lose x b)
  then show ?thesis
    using removeExperience_ok [of s vs E x b] assms
    by (fastforce simp: exp_ok_def exp_allowed_def exp_step_def vocations_ok_def)
qed

interpretation experience_machine: safe_machine "exp_step E vs" "exp_allowed E" "exp_ok vs" for E vs
  using exp_step_safe by unfold_locales

section \<open>Lemmas on skills and magic\<close>

text \<open>The requirement as a function, without the cache, and a cache that agrees with it.\<close>

definition req_tries :: "powers \<Rightarrow> u16 \<Rightarrow> u8 \<Rightarrow> u16 \<Rightarrow> u64" where
  "req_tries F i sk lvl = (if sk > SKILL_LAST \<or> lvl \<le> 10 then 0 else skill_pow F i sk lvl)"

definition tries_fit :: "powers \<Rightarrow> u16 \<Rightarrow> u8 \<Rightarrow> bool" where
  "tries_fit F i sk \<longleftrightarrow> (\<forall>lvl. unat (skill_pow F i sk lvl) < 2 ^ 32)"

definition skill_cache_ok :: "powers \<Rightarrow> u16 \<Rightarrow> Vocation \<Rightarrow> bool" where
  "skill_cache_ok F i v \<longleftrightarrow>
     (\<forall>sk k t. om_find (cacheSkill v sk) k = Some t \<longrightarrow> t = ucast (skill_pow F i sk (ucast k)))"

lemma take_bit_u16: "take_bit 32 (l :: u16) = l"
  by (simp add: word_unat_eq_iff unsigned_take_bit_eq take_bit_nat_eq_self_iff
      less_le_trans [OF unsigned_less])

lemma ucast_u16_u32: "(ucast (ucast (l :: u16) :: u32) :: u16) = l"
  by (simp add: word_unat_eq_iff unsigned_ucast_eq take_bit_u16)

lemma ucast_u64_u32: "unat t < 2 ^ 32 \<Longrightarrow> (ucast (ucast (t :: u64) :: u32) :: u64) = t"
  by (simp add: word_unat_eq_iff unsigned_ucast_eq unsigned_take_bit_eq take_bit_nat_eq_self_iff)

lemma skill_cache_step: "skill_cache_ok F i v \<Longrightarrow> skill_cache_ok F i (snd (getReqSkillTries F i sk lvl v))"
  by (auto simp: skill_cache_ok_def getReqSkillTries_def Let_def om_find_set ucast_u16_u32 split: option.splits if_splits)

lemma getReqSkillTries_value:
  assumes "skill_cache_ok F i v" "tries_fit F i sk"
  shows "fst (getReqSkillTries F i sk lvl v) = req_tries F i sk lvl"
proof (cases "om_find (cacheSkill v sk) (ucast lvl)")
  case None
  then show ?thesis by (simp add: getReqSkillTries_def req_tries_def Let_def)
next
  case (Some t)
  then have "t = ucast (skill_pow F i sk (ucast (ucast lvl :: u32)))"
    using assms(1) unfolding skill_cache_ok_def by blast
  then have t: "t = ucast (skill_pow F i sk lvl)" by (simp only: ucast_u16_u32)
  have "ucast t = skill_pow F i sk lvl"
    unfolding t using assms(2) unfolding tries_fit_def by (intro ucast_u64_u32) blast
  with Some show ?thesis by (simp add: getReqSkillTries_def req_tries_def)
qed

text \<open>All tries ever spent on a skill.\<close>

fun tries_below :: "powers \<Rightarrow> u16 \<Rightarrow> u8 \<Rightarrow> nat \<Rightarrow> nat" where
  "tries_below F i sk 0 = 0"
| "tries_below F i sk (Suc l) = tries_below F i sk l + unat (req_tries F i sk (of_nat (Suc l)))"

definition tries_spent :: "powers \<Rightarrow> u16 \<Rightarrow> u8 \<Rightarrow> Skill \<Rightarrow> nat" where
  "tries_spent F i sk k = tries_below F i sk (unat (skill_level k)) + unat (tries k)"

lemma set_skill_simps [simp]:
  "skills (set_skill sk k s) sk = k" "vocation (set_skill sk k s) = vocation s"
  by (simp_all add: set_skill_def)

lemma notify_skills [simp]: "skills (notify ns s) = skills s" "magLevel (notify ns s) = magLevel s"
  "manaSpent (notify ns s) = manaSpent s"
  by (simp_all add: notify_def)

text \<open>
  What the loop does to the skill: nothing is lost as long as the level can still grow, and at the
  end less than the next level is left.
\<close>

lemma skill_loop_spec:
  assumes "skill_loop F a sk cnt cur nxt v s = (cnt', cur', nxt', v', s')"
    "skill_cache_ok F (vocation s) v" "tries_fit F (vocation s) (skills_value sk)"
    "nxt = req_tries F (vocation s) (skills_value sk) (skill_level (skills s sk) + 1)"
    "unat (tries (skills s sk)) + unat cnt < 2 ^ 64" "tries (skills s sk) < nxt"
    "unat (skill_level (skills s sk)) < 65535"
    "cur = req_tries F (vocation s) (skills_value sk) (skill_level (skills s sk))"
  shows "vocation s' = vocation s \<and> skill_cache_ok F (vocation s) v' \<and>
    cur' = req_tries F (vocation s) (skills_value sk) (skill_level (skills s' sk)) \<and>
    nxt' = req_tries F (vocation s) (skills_value sk) (skill_level (skills s' sk) + 1) \<and>
    (nxt' \<le> cur' \<and> cnt' = 0 \<or>
     tries_spent F (vocation s) (skills_value sk) (skills s' sk) + unat cnt' =
       tries_spent F (vocation s) (skills_value sk) (skills s sk) + unat cnt \<and>
     unat (tries (skills s' sk)) + unat cnt' < unat nxt')"
  using assms
proof (induction F a sk cnt cur nxt v s rule: skill_loop.induct)
  case (1 F a sk cnt cur nxt v s)
  let ?k = "skills s sk" and ?i = "vocation s" and ?n = "skills_value sk"
  have sum: "unat (tries ?k + cnt) = unat (tries ?k) + unat cnt"
    using "1.prems"(5) by (subst unat_add_lem [symmetric]) simp
  show ?case
  proof (cases "tries ?k + cnt \<ge> nxt")
    case False
    then have "unat (tries ?k) + unat cnt < unat nxt" using sum by (simp add: word_less_nat_alt not_le)
    moreover have "(cnt', cur', nxt', v', s') = (cnt, cur, nxt, v, s)"
      using False "1.prems"(1) by (subst (asm) skill_loop.simps) simp
    ultimately show ?thesis using "1.prems"(2,4,8) by simp
  next
    case True
    define cnt1 where "cnt1 = cnt - (nxt - tries ?k)"
    define lvl where "lvl = skill_level ?k + 1"
    define s1 where "s1 = notify ((if a then [skill_message sk lvl] else []) @ [PlayerAdvance sk (ucast lvl - 1) (ucast lvl)])
      (set_skill sk \<lparr>tries = 0, skill_level = lvl, percent_done = (0, 1)\<rparr> s)"
    obtain nxt1 v1 where r: "getReqSkillTries F (vocation s1) ?n (lvl + 1) v = (nxt1, v1)"
      by (cases "getReqSkillTries F (vocation s1) ?n (lvl + 1) v")
    have s1: "vocation s1 = ?i" "skills s1 sk = \<lparr>tries = 0, skill_level = lvl, percent_done = (0, 1)\<rparr>"
      by (simp_all add: s1_def)
    have loop: "skill_loop F a sk cnt cur nxt v s =
        (if nxt \<ge> nxt1 then (0, nxt, nxt1, v1, s1) else skill_loop F a sk cnt1 nxt nxt1 v1 s1)"
      using True r by (subst skill_loop.simps) (simp add: Let_def cnt1_def lvl_def s1_def)
    have v1: "skill_cache_ok F ?i v1"
      using skill_cache_step [OF "1.prems"(2), of ?n "lvl + 1"] r by (simp add: s1)
    have nxt1: "nxt1 = req_tries F ?i ?n (lvl + 1)"
      using getReqSkillTries_value [OF "1.prems"(2,3), of "lvl + 1"] r by (simp add: s1)
    have nxt: "nxt = req_tries F ?i ?n lvl" using "1.prems"(4) by (simp add: lvl_def)
    show ?thesis
    proof (cases "nxt \<ge> nxt1")
      case stop: True
      then have "(cnt', cur', nxt', v', s') = (0, nxt, nxt1, v1, s1)" using loop "1.prems"(1) by simp
      with stop show ?thesis using v1 s1 nxt nxt1 by simp
    next
      case go: False
      have lvl: "unat lvl = Suc (unat (skill_level ?k))"
        using "1.prems"(7) by (simp add: lvl_def unat_word_ariths)
      have top: "unat lvl < 65535"
      proof (rule ccontr)
        assume "\<not> unat lvl < 65535"
        then have "unat lvl = 65535" using lvl "1.prems"(7) by linarith
        then have "lvl + 1 = 0" by (simp add: word_unat_eq_iff unat_word_ariths)
        then show False using go by (simp add: nxt1 req_tries_def)
      qed
      have d: "unat (nxt - tries ?k) = unat nxt - unat (tries ?k)"
        using "1.prems"(6) by (simp add: unat_sub)
      have "nxt - tries ?k \<le> cnt"
        using True sum d by (simp add: word_le_nat_alt)
      then have cnt1: "unat cnt1 = unat cnt - (unat nxt - unat (tries ?k))" by (simp add: cnt1_def unat_sub d)
      have below: "unat (tries ?k) < unat nxt" "unat nxt \<le> unat (tries ?k) + unat cnt"
        using "1.prems"(6) True sum by (simp_all add: word_less_nat_alt word_le_nat_alt)
      have of_nat: "of_nat (Suc (unat (skill_level ?k))) = lvl" by (simp add: lvl_def)
      have "tries_below F ?i ?n (unat lvl) = tries_below F ?i ?n (unat (skill_level ?k)) + unat nxt"
        unfolding lvl tries_below.simps of_nat using "1.prems"(4) by (simp add: lvl_def)
      then have spent: "tries_spent F ?i ?n (skills s1 sk) + unat cnt1 = tries_spent F ?i ?n ?k + unat cnt"
        using below by (simp add: tries_spent_def s1 cnt1)
      have "vocation s' = vocation s1 \<and> skill_cache_ok F (vocation s1) v' \<and>
        cur' = req_tries F (vocation s1) ?n (skill_level (skills s' sk)) \<and>
        nxt' = req_tries F (vocation s1) ?n (skill_level (skills s' sk) + 1) \<and>
        (nxt' \<le> cur' \<and> cnt' = 0 \<or>
         tries_spent F (vocation s1) ?n (skills s' sk) + unat cnt' =
           tries_spent F (vocation s1) ?n (skills s1 sk) + unat cnt1 \<and>
         unat (tries (skills s' sk)) + unat cnt' < unat nxt')"
      proof (rule "1.IH" [OF True cnt1_def lvl_def refl s1_def refl r [symmetric] refl])
        show "skill_loop F a sk cnt1 nxt nxt1 v1 s1 = (cnt', cur', nxt', v', s')"
          using loop go "1.prems"(1) by simp
        show "unat (tries (skills s1 sk)) + unat cnt1 < 2 ^ 64" using unat_u64 [of cnt1] by (simp add: s1)
        show "tries (skills s1 sk) < nxt1" using go by (auto simp: s1 word_gt_0)
      qed (use go v1 "1.prems"(3) nxt nxt1 top in \<open>simp_all add: s1\<close>)
      from this [unfolded s1(1) spent] show ?thesis .
    qed
  qed
qed

lemma set_percent_simps [simp]:
  "skill_level (skills (snd (set_percent sk n s)) sk) = skill_level (skills s sk)"
  "tries (skills (snd (set_percent sk n s)) sk) = tries (skills s sk)"
  by (simp_all add: set_percent_def Let_def)

lemma addSkillAdvance_spec:
  assumes "getVocation (vocation s) vs = Some v" "skill_cache_ok (pow_values E) (vocation s) v"
    "tries_fit (pow_values E) (vocation s) (skills_value sk)"
    "req \<equiv> req_tries (pow_values E) (vocation s) (skills_value sk)"
    "unat (tries (skills s sk)) + unat (onGainSkillTries E s sk cnt) < 2 ^ 64"
    "tries (skills s sk) < req (skill_level (skills s sk) + 1)" "unat (skill_level (skills s sk)) < 65535"
  shows "\<exists>vs' s'. addSkillAdvance E vs sk cnt s = Some (vs', s') \<and>
    (let k = skills s' sk in
     req (skill_level k + 1) \<le> req (skill_level k) \<or>
     tries_spent (pow_values E) (vocation s) (skills_value sk) k =
       tries_spent (pow_values E) (vocation s) (skills_value sk) (skills s sk) + unat (onGainSkillTries E s sk cnt) \<and>
     tries k < req (skill_level k + 1))"
proof -
  let ?F = "pow_values E" and ?i = "vocation s" and ?n = "skills_value sk" and ?k = "skills s sk"
  let ?c = "onGainSkillTries E s sk cnt"
  obtain cur v1 where r1: "getReqSkillTries ?F ?i ?n (skill_level ?k) v = (cur, v1)"
    by (cases "getReqSkillTries ?F ?i ?n (skill_level ?k) v")
  obtain nxt v2 where r2: "getReqSkillTries ?F ?i ?n (skill_level ?k + 1) v1 = (nxt, v2)"
    by (cases "getReqSkillTries ?F ?i ?n (skill_level ?k + 1) v1")
  have v1: "skill_cache_ok ?F ?i v1" using skill_cache_step [OF assms(2), of ?n "skill_level ?k"] r1 by simp
  have v2: "skill_cache_ok ?F ?i v2" using skill_cache_step [OF v1, of ?n "skill_level ?k + 1"] r2 by simp
  have cur: "cur = req (skill_level ?k)"
    using getReqSkillTries_value [OF assms(2,3), of "skill_level ?k"] r1 by (simp add: assms(4))
  have nxt: "nxt = req (skill_level ?k + 1)"
    using getReqSkillTries_value [OF v1 assms(3), of "skill_level ?k + 1"] r2 by (simp add: assms(4))
  show ?thesis
  proof (cases "cur \<ge> nxt \<or> ?c = 0")
    case True
    then show ?thesis
      using assms(1,6) r1 r2 cur nxt by (auto simp: addSkillAdvance_def Let_def)
  next
    case False
    obtain c' cur' nxt' v' s1 where loop: "skill_loop ?F True sk ?c cur nxt v2 s = (c', cur', nxt', v', s1)"
      by (cases "skill_loop ?F True sk ?c cur nxt v2 s")
    let ?k1 = "skills s1 sk"
    have "tries ?k < nxt" using assms(6) nxt by simp
    note spec = skill_loop_spec [OF loop v2 assms(3) nxt [unfolded assms(4)] assms(5) this assms(7) cur [unfolded assms(4)]]
    obtain t where t: "addSkillAdvance E vs sk cnt s = Some (om_set vs ?i v', t)"
      "skill_level (skills t sk) = skill_level ?k1" "tries (skills t sk) = tries ?k1 + c'"
    proof
      let ?s2 = "snd (set_percent sk (new_percent (tries ?k1 + c') cur' nxt') (set_skill sk (?k1\<lparr>tries := tries ?k1 + c'\<rparr>) s1))"
      let ?t = "if skill_level ?k1 \<noteq> skill_level ?k \<or>
          fst (set_percent sk (new_percent (tries ?k1 + c') cur' nxt') (set_skill sk (?k1\<lparr>tries := tries ?k1 + c'\<rparr>) s1))
        then notify [SendSkills, SendStats] ?s2 else ?s2"
      have "skill_level (skills ?s2 sk) = skill_level ?k1" by simp
      then show "addSkillAdvance E vs sk cnt s = Some (om_set vs ?i v', ?t)"
        using assms(1) r1 r2 loop False
        by (simp add: addSkillAdvance_def Let_def case_prod_unfold del: set_percent_simps)
      show "skill_level (skills ?t sk) = skill_level ?k1" "tries (skills ?t sk) = tries ?k1 + c'"
        by simp_all
    qed
    from spec consider "req (skill_level ?k1 + 1) \<le> req (skill_level ?k1)"
      | "tries_spent ?F ?i ?n ?k1 + unat c' = tries_spent ?F ?i ?n ?k + unat ?c"
        "unat (tries ?k1) + unat c' < unat (req (skill_level ?k1 + 1))"
      unfolding assms(4) by blast
    then show ?thesis
    proof cases
      case 1
      then show ?thesis by (simp add: t Let_def)
    next
      case 2
      have "unat (tries ?k1 + c') = unat (tries ?k1) + unat c'"
        using 2(2) unat_u64 [of "req (skill_level ?k1 + 1)"] by (subst unat_add_lem [symmetric]) simp
      then have "tries_spent ?F ?i ?n (skills t sk) = tries_spent ?F ?i ?n ?k + unat ?c"
        "tries (skills t sk) < req (skill_level (skills t sk) + 1)"
        using 2 by (simp_all add: tries_spent_def t word_less_nat_alt)
      then show ?thesis using t(1) by (simp add: Let_def)
    qed
  qed
qed

text \<open>The same for mana, whose cache holds full 64-bit values.\<close>

definition req_mana :: "powers \<Rightarrow> u16 \<Rightarrow> u32 \<Rightarrow> u64" where
  "req_mana F i lvl = (if lvl = 0 then 0 else mana_pow F i lvl)"

definition mana_cache_ok :: "powers \<Rightarrow> u16 \<Rightarrow> Vocation \<Rightarrow> bool" where
  "mana_cache_ok F i v \<longleftrightarrow> (\<forall>k r. om_find (cacheMana v) k = Some r \<longrightarrow> r = mana_pow F i k)"

lemma getReqMana_ok:
  assumes "mana_cache_ok F i v"
  shows "fst (getReqMana F i lvl v) = req_mana F i lvl" "mana_cache_ok F i (snd (getReqMana F i lvl v))"
  using assms
  by (auto simp: getReqMana_def req_mana_def mana_cache_ok_def Let_def om_find_set split: option.splits if_splits)

fun mana_below :: "powers \<Rightarrow> u16 \<Rightarrow> nat \<Rightarrow> nat" where
  "mana_below F i 0 = 0"
| "mana_below F i (Suc l) = mana_below F i l + unat (req_mana F i (of_nat (Suc l)))"

definition mana_total :: "powers \<Rightarrow> Character \<Rightarrow> nat" where
  "mana_total F s = mana_below F (vocation s) (unat (magLevel s)) + unat (manaSpent s)"

lemma sum_mana_spec:
  assumes "mana_cache_ok F i v"
  shows "fst (sum_mana F i ls v) = sum_list (map (req_mana F i) ls) \<and> mana_cache_ok F i (snd (sum_mana F i ls v))"
  using assms
proof (induction ls arbitrary: v)
  case Nil
  then show ?case by simp
next
  case (Cons l ls)
  then show ?case using Cons.IH [OF getReqMana_ok(2) [OF Cons.prems, of l]]
    by (simp add: case_prod_unfold Let_def getReqMana_ok)
qed

lemma sum_mana_below:
  "sum_list (map (req_mana F i) (map of_nat [1..<Suc n])) = of_nat (mana_below F i n)"
  by (induction n) simp_all

lemma mana_loss_loop_spec:
  assumes "mana_loss_loop F lost v s = (lost', v', s')" "mana_cache_ok F (vocation s) v"
    "unat lost \<le> mana_total F s"
  shows "mana_cache_ok F (vocation s) v' \<and> vocation s' = vocation s \<and> lost' \<le> manaSpent s' \<and>
    mana_total F s' + unat lost = mana_total F s + unat lost'"
  using assms
proof (induction F lost v s rule: mana_loss_loop.induct)
  case (1 F lost v s)
  show ?case
  proof (cases "lost > manaSpent s \<and> magLevel s > 0")
    case False
    then have eq: "(lost', v', s') = (lost, v, s)" using "1.prems"(1)
      by (subst (asm) mana_loss_loop.simps) (auto split: if_splits)
    have "lost \<le> manaSpent s"
    proof (cases "lost > manaSpent s")
      case True
      with False have "magLevel s = 0" by (simp add: word_gt_0)
      with "1.prems"(3) True show ?thesis by (simp add: mana_total_def word_less_nat_alt)
    qed simp
    with eq "1.prems"(2) show ?thesis by simp
  next
    case True
    obtain r v1 where r: "getReqMana F (vocation s) (magLevel s) v = (r, v1)"
      by (cases "getReqMana F (vocation s) (magLevel s) v")
    define s1 where "s1 = s\<lparr>manaSpent := r, magLevel := magLevel s - 1\<rparr>"
    have req: "r = req_mana F (vocation s) (magLevel s)" and v1: "mana_cache_ok F (vocation s) v1"
      using getReqMana_ok [OF "1.prems"(2), of "magLevel s"] r by simp_all
    have nz: "magLevel s \<noteq> 0" using True by (simp add: word_gt_0)
    have suc: "unat (magLevel s) = Suc (unat (magLevel s - 1))" using nz by (simp add: unat_minus_one unat_gt_0 [symmetric])
    have "of_nat (Suc (unat (magLevel s - 1))) = magLevel s" by simp
    then have below: "mana_below F (vocation s) (unat (magLevel s)) =
        mana_below F (vocation s) (unat (magLevel s - 1)) + unat r"
      unfolding suc mana_below.simps req by simp
    have sub: "unat (lost - manaSpent s) = unat lost - unat (manaSpent s)" by (rule unat_sub [OF less_imp_le [OF conjunct1 [OF True]]])
    have lt: "unat (manaSpent s) < unat lost" using True by (simp add: word_less_nat_alt)
    have total: "mana_total F s = mana_total F s1 + unat (manaSpent s)"
      using below by (simp add: mana_total_def s1_def)
    have "mana_cache_ok F (vocation s1) v' \<and> vocation s' = vocation s1 \<and> lost' \<le> manaSpent s' \<and>
        mana_total F s' + unat (lost - manaSpent s) = mana_total F s1 + unat lost'"
    proof (rule "1.IH" [OF True refl r [symmetric] refl, folded s1_def])
      show "mana_loss_loop F (lost - manaSpent s) v1 s1 = (lost', v', s')"
        using "1.prems"(1) True r by (subst (asm) mana_loss_loop.simps) (simp add: s1_def)
      show "unat (lost - manaSpent s) \<le> mana_total F s1" using "1.prems"(3) by (simp add: sub total)
    qed (use v1 in \<open>simp add: s1_def\<close>)
    moreover from this have "mana_total F s' + unat lost = mana_total F s + unat lost'"
      using sub lt total by linarith
    moreover have "vocation s1 = vocation s" by (simp add: s1_def)
    ultimately show ?thesis by simp
  qed
qed

lemma lose_mana_spec:
  assumes "mana_cache_ok F (vocation s) v" "mana_total F s < 2 ^ 64"
    "part_of (of_nat (mana_total F s)) d \<le> mana_total F s"
  shows "\<exists>v' s'. lose_mana F d v s = Some (v', s') \<and> mana_cache_ok F (vocation s) v' \<and>
    mana_total F s' = mana_total F s - part_of (of_nat (mana_total F s)) d"
proof -
  let ?i = "vocation s" and ?lost = "part_of (of_nat (mana_total F s)) d"
  obtain sum v1 where sum: "sum_mana F ?i (map of_nat [1..<Suc (unat (magLevel s))]) v = (sum, v1)"
    by (cases "sum_mana F ?i (map of_nat [1..<Suc (unat (magLevel s))]) v")
  have v1: "mana_cache_ok F ?i v1" and "sum = of_nat (mana_below F ?i (unat (magLevel s)))"
    using sum_mana_spec [OF assms(1), of "map of_nat [1..<Suc (unat (magLevel s))]"] sum_mana_below [of F ?i] sum
    by (simp_all del: upt_Suc)
  then have all: "sum + manaSpent s = of_nat (mana_total F s)" by (simp add: mana_total_def)
  have fits: "?lost < 2 ^ 64" using assms(2,3) by (rule le_less_trans [rotated])
  then have u: "unat (of_nat ?lost :: u64) = ?lost" by (simp add: unat_of_nat)
  obtain lost' v2 s1 where loop: "mana_loss_loop F (of_nat ?lost) v1 s = (lost', v2, s1)"
    by (cases "mana_loss_loop F (of_nat ?lost) v1 s")
  have spec: "mana_cache_ok F ?i v2" "vocation s1 = ?i" "lost' \<le> manaSpent s1"
    "mana_total F s1 + ?lost = mana_total F s + unat lost'"
    using mana_loss_loop_spec [OF loop v1] u assms(3) by simp_all
  obtain nxt v3 where n: "getReqMana F ?i (magLevel s1 + 1) v2 = (nxt, v3)" by (cases "getReqMana F ?i (magLevel s1 + 1) v2")
  obtain cur v4 where c: "getReqMana F ?i (magLevel s1) v3 = (cur, v4)" by (cases "getReqMana F ?i (magLevel s1) v3")
  have v4: "mana_cache_ok F ?i v4"
    using getReqMana_ok(2) [OF getReqMana_ok(2) [OF spec(1)], of "magLevel s1" "magLevel s1 + 1"] n c by simp
  define t where "t = s1\<lparr>manaSpent := manaSpent s1 - lost',
    magLevelPercent := (if nxt > cur then getPercentLevel (manaSpent s1 - lost') nxt else (0, 1))\<rparr>"
  have "lose_mana F d v s = Some (v4, t)"
    using fits sum by (simp add: lose_mana_def all loop n c t_def Let_def not_le del: upt_Suc)
  moreover have "unat (manaSpent s1 - lost') = unat (manaSpent s1) - unat lost'" using spec(3) by (simp add: unat_sub)
  then have "mana_total F t = mana_total F s - ?lost"
    using spec(3,4) by (simp add: mana_total_def t_def word_le_nat_alt)
  ultimately show ?thesis using v4 by blast
qed

section \<open>Properties\<close>

text \<open>
  C14. Level and experience always agree: whatever gains and losses of experience a character goes
  through (with at most the experience of 716999 levels, and single losses below \<open>2 ^ 63\<close>), each of them is
  carried out, and the level is the one whose range of experience points contains the experience.
\<close>

theorem level_matches_experience:
  assumes "reached (exp_step E vs) (exp_allowed E) s0 s" "exp_ok vs s0"
  shows "exp_total (unat (level s) - 1) \<le> unat (experience s) \<and> unat (experience s) < exp_total (unat (level s)) \<and>
    (exp_allowed E s e \<longrightarrow> (\<exists>s'. exp_step E vs e s = Some s'))"
  using experience_machine.reached_ok [OF assms] experience_machine.never_stuck [OF assms]
  by (auto simp: exp_ok_def level_ok_def)

definition demo_vocation :: "u32 \<Rightarrow> Vocation" where
  "demo_vocation hp =
     \<lparr>voc_name = ''Knight'', gainHP = hp, gainMana = 5, gainCap = 2500, voc_baseSpeed = 110, fromVocation = 4,
      cacheMana = [], cacheSkill = (\<lambda>_. [])\<rparr>"

definition demo_vocations :: Vocations where
  "demo_vocations = [(0, demo_vocation 5), (4, demo_vocation 15)]"

definition demo_powers :: powers where
  "demo_powers = \<lparr>skill_pow = (\<lambda>i sk lvl. 50 * ucast lvl), mana_pow = (\<lambda>i lvl. 1600 * ucast lvl)\<rparr>"

definition demo_progress :: progress_env where
  "demo_progress =
     \<lparr>pow_values = demo_powers, NotGainMana = False, NotGainExperience = False, SetMaxSpeed = False,
      staminaMinutes = 100, has_spectators = False, onGainExperience = (\<lambda>s x. x),
      onLoseExperience = (\<lambda>s x. x), onGainSkillTries = (\<lambda>s sk n. n)\<rparr>"

definition demo_character :: Character where
  "demo_character =
     \<lparr>ch_name = ''Bob'', vocation = 4, level = 8, levelPercent = 0, experience = 4200, magLevel = 2,
      manaSpent = 100, magLevelPercent = (0, 1),
      skills = (\<lambda>_. \<lparr>tries = 0, skill_level = 10, percent_done = (0, 1)\<rparr>), healthMax = 185, health = 185,
      manaMax = 40, mana = 40, capacity = 47000, baseSpeed = 124, in_party = False, notices = []\<rparr>"

lemma exp_total_values: "exp_total 7 = 4200" "exp_total 8 = 6400" "exp_total 9 = 9300"
  using exp_total_closed [of 7] exp_total_closed [of 8] exp_total_closed [of 9] by simp_all

lemma exp_cap_big: "10000 < exp_cap"
proof -
  have "exp_total 15 \<le> exp_total (max_levels - 1)" by (rule exp_total_mono) (simp add: max_levels_def)
  then show ?thesis using exp_total_closed [of 15] by (simp add: exp_cap_def)
qed

lemma demo_character_ok: "exp_ok demo_vocations demo_character"
  using exp_cap_big
  by (simp add: exp_ok_def level_ok_def demo_character_def max_levels_def vocations_ok_def getVocation_def
      demo_vocations_def VOCATION_NONE_def exp_total_values)

theorem level_matches_experience_witness:
  "exp_total 7 \<le> 4200 \<and> 4200 < exp_total 8 \<and>
   (\<exists>s'. exp_step demo_progress demo_vocations (Gain 3000 False) demo_character = Some s')"
proof -
  have "exp_allowed demo_progress demo_character (Gain 3000 False)"
    using exp_cap_big by (simp add: exp_allowed_def demo_progress_def demo_character_def)
  then show ?thesis
    using level_matches_experience [OF reached_start demo_character_ok, of demo_progress "Gain 3000 False"]
    by (simp add: demo_character_def)
qed



text \<open>
  The cache of skill requirements is half as wide as the requirements: the first call for a level
  returns the requirement, later calls its lowest 32 bits, so that the answers differ as soon as the
  requirement reaches \<open>2 ^ 32\<close>.
\<close>

theorem skill_cache_truncates:
  assumes "sk \<le> SKILL_LAST" "lvl > 10" "om_find (cacheSkill v sk) (ucast lvl) = None"
    "getReqSkillTries F i sk lvl v = (first, v1)" "getReqSkillTries F i sk lvl v1 = (second, v2)"
  shows "first = skill_pow F i sk lvl \<and> unat second = unat first mod 2 ^ 32 \<and>
    (second = first \<longleftrightarrow> unat first < 2 ^ 32)"
proof -
  have f: "first = skill_pow F i sk lvl"
    and v1: "v1 = v\<lparr>cacheSkill := (cacheSkill v)(sk := om_set (cacheSkill v sk) (ucast lvl) (ucast first))\<rparr>"
    using assms(1-4) by (auto simp: getReqSkillTries_def Let_def not_le [symmetric])
  have "second = ucast (ucast first :: u32)"
    using assms(1,2,5) by (simp add: getReqSkillTries_def v1 om_find_set not_le [symmetric])
  then have "unat second = take_bit 32 (unat first)"
    by (simp add: unsigned_ucast_eq unsigned_take_bit_eq)
  then have "unat second = unat first mod 2 ^ 32" by (simp add: take_bit_eq_mod)
  moreover have "second = first \<longleftrightarrow> unat second = unat first" by (rule word_unat_eq_iff)
  ultimately show ?thesis using f by (simp add: mod_eq_self_iff_div_eq_0 div_eq_0_iff)
qed

theorem skill_cache_truncates_witness:
  "unat (fst (getReqSkillTries \<lparr>skill_pow = (\<lambda>i sk lvl. 5000000000), mana_pow = (\<lambda>i lvl. 0)\<rparr> 4 0 90
     (snd (getReqSkillTries \<lparr>skill_pow = (\<lambda>i sk lvl. 5000000000), mana_pow = (\<lambda>i lvl. 0)\<rparr> 4 0 90 (demo_vocation 15))))) = 705032704"
  using skill_cache_truncates [of 0 90 "demo_vocation 15" "\<lparr>skill_pow = (\<lambda>i sk lvl. 5000000000), mana_pow = (\<lambda>i lvl. 0)\<rparr>" 4,
      OF _ _ _ surjective_pairing surjective_pairing]
  by (simp add: SKILL_LAST_def demo_vocation_def)

lemma getExp_values:
  "getExpForLevel 8 = 4200" "getExpForLevel 9 = 6400" "getExpForLevel 10 = 9300"
  by (simp_all add: getExpForLevel_def)

lemma health_notify [simp]:
  "healthMax (notify ns s) = healthMax s" "healthMax (experience_messages E a b e s) = healthMax s"
  by (simp_all add: notify_def experience_messages_def)

lemma settle_level_health:
  assumes "getVocation (vocation s) vs = Some v"
  shows "\<exists>t. settle_level E vs old announce s = Some t \<and> same_core s t \<and> healthMax t = healthMax s"
  using assms by (auto simp: settle_level_def updateBaseSpeed_def same_core_def Let_def)

lemma level_up_loop_stop: "experience s < nxt \<Longrightarrow> level_up_loop vs cur nxt s = Some (cur, nxt, s)"
  by (subst level_up_loop.simps) (simp add: not_le [symmetric])

lemma level_down_loop_stop: "getExpForLevel (level s) \<le> experience s \<Longrightarrow> level_down_loop vs s = Some s"
  by (subst level_down_loop.simps) (simp add: not_le [symmetric])

lemma climb_to_9:
  assumes "vocation s \<noteq> VOCATION_NONE" "getVocation (vocation s) vs = Some v" "level s = 8"
    "6400 \<le> experience s" "experience s < 9300"
  shows "level_up_loop vs 4200 6400 s = Some (6400, 9300, add_gains v (s\<lparr>level := 9\<rparr>))"
proof -
  have "level_up vs s = Some (add_gains v (s\<lparr>level := 9\<rparr>))"
    using assms(1-3) by (simp add: level_up_def gains_of_def)
  then show ?thesis
    using assms(4,5) getExp_values(3)
    by (subst level_up_loop.simps) (simp add: add_gains_def level_up_loop_stop)
qed

lemma fall_to_8:
  assumes "vocation s \<noteq> VOCATION_NONE" "getVocation VOCATION_NONE vs = Some n" "level s = 9"
    "4200 \<le> experience s" "experience s < 6400"
  shows "level_down_loop vs s = Some (take_gains n (s\<lparr>level := 8\<rparr>))"
proof -
  have "level_down vs s = Some (take_gains n (s\<lparr>level := 8\<rparr>))"
    using assms(1-3) by (simp add: level_down_def gains_of_def)
  then show ?thesis
    using assms(3-5) getExp_values
    by (subst level_down_loop.simps) (simp add: take_gains_def level_down_loop_stop)
qed

text \<open>
  Gaining and losing the same experience is not neutral at level 8: a character with a vocation that
  reaches level 9 and falls back to level 8 keeps its vocation's gain in health and only gives back the
  smaller gain of a character without vocation, so that every such cycle leaves it with more health,
  at the same level and with the same experience.
\<close>

theorem level_cycle_gains_health:
  assumes "vocation s \<noteq> VOCATION_NONE" "getVocation (vocation s) vs = Some v" "getVocation VOCATION_NONE vs = Some n"
    "level s = 8" "4200 \<le> experience s" "experience s < 6400"
    "6400 \<le> unat (experience s) + unat x" "unat (experience s) + unat x < 9300"
    "\<And>t y. onGainExperience E t y = y" "\<And>t y. onLoseExperience E t y = y" "\<not> SetMaxSpeed E"
  shows "\<exists>s1 s2. addExperience E vs x b s = Some s1 \<and> removeExperience E vs x b s1 = Some s2 \<and>
    level s2 = level s \<and> experience s2 = experience s \<and>
    healthMax s2 = sub_clamped (healthMax s + gainHP v) (gainHP n)"
proof -
  have sum: "unat (experience s + x) = unat (experience s) + unat x"
    using assms(8) by (subst unat_add_lem [symmetric]) simp
  then have e1: "6400 \<le> experience s + x" "experience s + x < 9300"
    using assms(7,8) by (simp_all add: word_le_nat_alt word_less_nat_alt)
  have x: "x \<noteq> 0" using assms(6) e1(1) by auto
  have back_down: "exp_minus (experience s + x) x = experience s"
    using sint_eq_unat [of "experience s"] assms(6) by (simp add: exp_minus_def word_less_nat_alt)
  define s0 where "s0 = (if b then experience_messages E ''You gained '' '' gained '' x (s\<lparr>experience := experience s + x\<rparr>)
    else s\<lparr>experience := experience s + x\<rparr>)"
  have s0: "level s0 = 8" "experience s0 = experience s + x" "vocation s0 = vocation s" "healthMax s0 = healthMax s"
    using assms(4) by (simp_all add: s0_def)
  define t0 where "t0 = add_gains v (s0\<lparr>level := 9\<rparr>)"
  have t0: "level t0 = 9" "experience t0 = experience s + x" "vocation t0 = vocation s" "healthMax t0 = healthMax s + gainHP v"
    by (simp_all add: t0_def add_gains_def s0)
  have up: "level_up_loop vs 4200 6400 s0 = Some (6400, 9300, t0)"
    unfolding t0_def using assms(1,2) s0 e1 by (intro climb_to_9) simp_all
  obtain t where t: "settle_level E vs 8 (\<lambda>lvl. [PlayerAdvance SKILL_LEVEL 8 lvl,
      level_message ''You advanced from Level '' 8 lvl]) t0 = Some t" "same_core t0 t" "healthMax t = healthMax t0"
    using settle_level_health [OF assms(2) [folded t0(3)]] by blast
  define s1 where "s1 = notify [SendStats] (t\<lparr>levelPercent := level_percent (experience t) 6400 9300\<rparr>)"
  have s1: "level s1 = 9" "experience s1 = experience s + x" "vocation s1 = vocation s" "healthMax s1 = healthMax s + gainHP v"
    using t(2,3) t0 by (simp_all add: s1_def same_core_def)
  have add: "addExperience E vs x b s = Some s1"
    using x assms(4,9) up t(1) by (cases b) (simp_all add: addExperience_def getExp_values s0_def s1_def)
  define r0 where "r0 = (let u = s1\<lparr>experience := experience s\<rparr> in
    if b then experience_messages E ''You lost '' '' lost '' x u else u)"
  have r0: "level r0 = 9" "experience r0 = experience s" "vocation r0 = vocation s" "healthMax r0 = healthMax s + gainHP v"
    by (simp_all add: r0_def s1 Let_def)
  define u0 where "u0 = take_gains n (r0\<lparr>level := 8\<rparr>)"
  have u0: "level u0 = 8" "experience u0 = experience s" "vocation u0 = vocation s"
    "healthMax u0 = sub_clamped (healthMax s + gainHP v) (gainHP n)"
    by (simp_all add: u0_def take_gains_def r0)
  have down: "level_down_loop vs r0 = Some u0"
    unfolding u0_def using assms(1,3,5,6) r0 by (intro fall_to_8) simp_all
  obtain u where u: "settle_level E vs 9 (\<lambda>lvl. [level_message ''You were downgraded from Level '' 9 lvl]) u0 = Some u"
      "same_core u0 u" "healthMax u = healthMax u0"
    using settle_level_health [OF assms(2) [folded u0(3)]] by blast
  define s2 where "s2 = notify [SendStats] (u\<lparr>levelPercent :=
    level_percent (experience u) (getExpForLevel (level u)) (getExpForLevel (level u + 1))\<rparr>)"
  have "experience s + x \<noteq> 0" using e1(1) by auto
  then have remove: "removeExperience E vs x b s1 = Some s2"
    using x assms(10) down u(1) back_down
    by (cases b) (simp_all add: removeExperience_def r0_def s1 s2_def)
  show ?thesis using add remove u(2,3) u0 assms(4) by (auto simp: s2_def same_core_def)
qed

theorem level_cycle_gains_health_witness:
  "\<exists>s1 s2. addExperience demo_progress demo_vocations 3000 False demo_character = Some s1 \<and>
     removeExperience demo_progress demo_vocations 3000 False s1 = Some s2 \<and>
     level s2 = 8 \<and> experience s2 = 4200 \<and> healthMax s2 = 195"
  using level_cycle_gains_health [of demo_character demo_vocations "demo_vocation 15" "demo_vocation 5" 3000 demo_progress False]
  by (simp add: demo_character_def demo_vocations_def getVocation_def VOCATION_NONE_def demo_progress_def
      demo_vocation_def sub_clamped_def)

text \<open>
  C19. A death takes exactly its share of the magic level: the mana ever spent on magic shrinks by the
  computed loss, no more and no less, however many levels that costs.
\<close>

theorem death_takes_its_share:
  assumes "mana_cache_ok F (vocation s) v" "mana_total F s < 2 ^ 64"
    "part_of (of_nat (mana_total F s)) d \<le> mana_total F s"
  shows "\<exists>v' s'. lose_mana F d v s = Some (v', s') \<and>
    mana_total F s' = mana_total F s - part_of (of_nat (mana_total F s)) d"
  using lose_mana_spec [OF assms] by blast

theorem death_takes_its_share_witness:
  "\<exists>v' s'. lose_mana demo_powers (1, 4) (demo_vocation 15) demo_character = Some (v', s') \<and>
    mana_total demo_powers s' = 3675"
proof -
  have "mana_below demo_powers 4 (Suc (Suc 0)) = 4800" by (simp add: req_mana_def demo_powers_def)
  then have total: "mana_total demo_powers demo_character = 4900"
    by (simp add: mana_total_def demo_character_def numeral_2_eq_2 [symmetric])
  have lost: "part_of 4900 (1, 4) = 1225"
  proof -
    obtain i where i: "fl_of_nat 53 4900 = (4900 * 2 ^ i, 2 ^ i)" by (rule fl_of_nat_exact [of 4900 53]) simp_all
    obtain j where j: "fl 53 (1225 * 2 ^ (i + 2), 2 ^ (i + 2)) = (1225 * 2 ^ j, 2 ^ j)" by (rule fl_nat [of 1225 53 "i + 2"]) simp_all
    have "fl 53 (4900 * 2 ^ i, 4 * 2 ^ i) = (1225 * 2 ^ j, 2 ^ j)" using j by simp
    then show ?thesis using i by (simp add: part_of_def fl_trunc_def mult.commute)
  qed
  show ?thesis
    using death_takes_its_share [of demo_powers demo_character "demo_vocation 15" "(1, 4)"] total lost
    by (simp add: mana_cache_ok_def demo_vocation_def)
qed

end
