(* ===== verification/Items.thy ===== *)
theory Items
  imports Otb Names "HOL-Library.Multiset"
begin

text \<open>
  Items (\<^verbatim>\<open>items/item.h\<close>, \<^verbatim>\<open>items/item.cpp\<close>): the attribute store behind an item, a vector of typed
  values with a bit mask of the types present; the accessors that items build on it; and the
  serialization of an item into a property stream and back. The table of item types, read from data
  files, is a parameter. Attribute types are the bit constants of \<^verbatim>\<open>ItemAttrTypes\<close>.
\<close>

section \<open>The attribute store\<close>

text \<open>
  The union \<^verbatim>\<open>Attribute::value\<close>: zero until it is set. A custom attribute map is listed in the order in
  which the code iterates over it; where \<^verbatim>\<open>std::unordered_map\<close> puts a new entry is not specified, here it
  is the end. A \<^verbatim>\<open>double\<close> is its bit pattern.
\<close>

datatype variant = VBlank | VString string | VInt u64 | VDouble u64 | VBool bool

type_synonym CustomAttributeMap = "(string \<times> variant) list"

datatype attr_value = ZeroValue | IntValue u64 | StrValue string | CustomValue CustomAttributeMap

record ItemAttributes =
  attr_list :: "(ItemAttrTypes \<times> attr_value) list"
  attributeBits :: u32

definition empty_attributes :: ItemAttributes where
  "empty_attributes = \<lparr>attr_list = [], attributeBits = 0\<rparr>"

definition int_attr_types :: u32 where
  "int_attr_types =
     ITEM_ATTRIBUTE_ACTIONID OR ITEM_ATTRIBUTE_UNIQUEID OR ITEM_ATTRIBUTE_DATE OR ITEM_ATTRIBUTE_WEIGHT OR
     ITEM_ATTRIBUTE_ATTACK OR ITEM_ATTRIBUTE_DEFENSE OR ITEM_ATTRIBUTE_EXTRADEFENSE OR ITEM_ATTRIBUTE_ARMOR OR
     ITEM_ATTRIBUTE_HITCHANCE OR ITEM_ATTRIBUTE_SHOOTRANGE OR ITEM_ATTRIBUTE_OWNER OR ITEM_ATTRIBUTE_DURATION OR
     ITEM_ATTRIBUTE_DECAYSTATE OR ITEM_ATTRIBUTE_CORPSEOWNER OR ITEM_ATTRIBUTE_CHARGES OR
     ITEM_ATTRIBUTE_FLUIDTYPE OR ITEM_ATTRIBUTE_DOORID OR ITEM_ATTRIBUTE_IMBUEMENT_SLOT OR
     ITEM_ATTRIBUTE_OPENCONTAINER OR ITEM_ATTRIBUTE_QUICKLOOTCONTAINER"

definition str_attr_types :: u32 where
  "str_attr_types =
     ITEM_ATTRIBUTE_DESCRIPTION OR ITEM_ATTRIBUTE_TEXT OR ITEM_ATTRIBUTE_WRITER OR ITEM_ATTRIBUTE_NAME OR
     ITEM_ATTRIBUTE_ARTICLE OR ITEM_ATTRIBUTE_PLURALNAME OR ITEM_ATTRIBUTE_SPECIAL"

definition isIntAttrType :: "ItemAttrTypes \<Rightarrow> bool" where
  "isIntAttrType type \<longleftrightarrow> type AND int_attr_types \<noteq> 0"

definition isStrAttrType :: "ItemAttrTypes \<Rightarrow> bool" where
  "isStrAttrType type \<longleftrightarrow> type AND str_attr_types \<noteq> 0"

definition isCustomAttrType :: "ItemAttrTypes \<Rightarrow> bool" where
  "isCustomAttrType type \<longleftrightarrow> type AND ITEM_ATTRIBUTE_CUSTOM \<noteq> 0"

definition attrs_has :: "ItemAttrTypes \<Rightarrow> ItemAttributes \<Rightarrow> bool" where
  "attrs_has type a \<longleftrightarrow> type AND attributeBits a \<noteq> 0"

fun attr_index :: "ItemAttrTypes \<Rightarrow> (ItemAttrTypes \<times> attr_value) list \<Rightarrow> nat option" where
  "attr_index type [] = None"
| "attr_index type ((t, v) # as) = (if t = type then Some 0 else map_option Suc (attr_index type as))"

definition getExistingAttr :: "ItemAttrTypes \<Rightarrow> ItemAttributes \<Rightarrow> attr_value option" where
  "getExistingAttr type a =
     (if attrs_has type a then map_option (\<lambda>i. snd (attr_list a ! i)) (attr_index type (attr_list a)) else None)"

text \<open>\<^verbatim>\<open>getAttr\<close>: the position of the attribute, which is appended with a zero value if it is missing.\<close>

definition getAttr :: "ItemAttrTypes \<Rightarrow> ItemAttributes \<Rightarrow> nat \<times> ItemAttributes" where
  "getAttr type a =
     (case (if attrs_has type a then attr_index type (attr_list a) else None) of
        Some i \<Rightarrow> (i, a)
      | None \<Rightarrow>
          (length (attr_list a),
           a\<lparr>attributeBits := attributeBits a OR type, attr_list := attr_list a @ [(type, ZeroValue)]\<rparr>))"

definition put_value :: "ItemAttrTypes \<Rightarrow> attr_value \<Rightarrow> ItemAttributes \<Rightarrow> ItemAttributes" where
  "put_value type v a =
     (let (i, a) = getAttr type a in
      a\<lparr>attr_list := (attr_list a)[i := (fst (attr_list a ! i), v)]\<rparr>)"

definition attrs_getInt :: "ItemAttrTypes \<Rightarrow> ItemAttributes \<Rightarrow> u64" where
  "attrs_getInt type a =
     (if \<not> isIntAttrType type then 0
      else case getExistingAttr type a of Some (IntValue v) \<Rightarrow> v | _ \<Rightarrow> 0)"

definition attrs_setInt :: "ItemAttrTypes \<Rightarrow> u64 \<Rightarrow> ItemAttributes \<Rightarrow> ItemAttributes" where
  "attrs_setInt type v a = (if \<not> isIntAttrType type then a else put_value type (IntValue v) a)"

definition attrs_increaseInt :: "ItemAttrTypes \<Rightarrow> u64 \<Rightarrow> ItemAttributes \<Rightarrow> ItemAttributes" where
  "attrs_increaseInt type v a =
     (if \<not> isIntAttrType type then a
      else put_value type (IntValue ((case getExistingAttr type a of Some (IntValue x) \<Rightarrow> x | _ \<Rightarrow> 0) + v)) a)"

definition attrs_getStr :: "ItemAttrTypes \<Rightarrow> ItemAttributes \<Rightarrow> string" where
  "attrs_getStr type a =
     (if \<not> isStrAttrType type then []
      else case getExistingAttr type a of Some (StrValue s) \<Rightarrow> s | _ \<Rightarrow> [])"

definition attrs_setStr :: "ItemAttrTypes \<Rightarrow> string \<Rightarrow> ItemAttributes \<Rightarrow> ItemAttributes" where
  "attrs_setStr type s a =
     (if \<not> isStrAttrType type then a
      else if s = [] then a
      else put_value type (StrValue s) a)"

text \<open>The last attribute takes the place of the one that is removed.\<close>

definition attrs_remove :: "ItemAttrTypes \<Rightarrow> ItemAttributes \<Rightarrow> ItemAttributes" where
  "attrs_remove type a =
     (if \<not> attrs_has type a then a
      else
        let as = attr_list a;
            as' = (case attr_index type as of Some i \<Rightarrow> butlast (as[i := last as]) | None \<Rightarrow> as) in
        a\<lparr>attr_list := as', attributeBits := attributeBits a AND NOT type\<rparr>)"

subsection \<open>Custom attributes\<close>

definition custom_map :: "ItemAttributes \<Rightarrow> CustomAttributeMap option" where
  "custom_map a =
     (case getExistingAttr ITEM_ATTRIBUTE_CUSTOM a of Some (CustomValue m) \<Rightarrow> Some m | _ \<Rightarrow> None)"

definition erase_key :: "string \<Rightarrow> CustomAttributeMap \<Rightarrow> CustomAttributeMap" where
  "erase_key k m = filter (\<lambda>e. fst e \<noteq> k) m"

definition attrs_setCustom :: "string \<Rightarrow> variant \<Rightarrow> ItemAttributes \<Rightarrow> ItemAttributes" where
  "attrs_setCustom key v a =
     (let k = toLowerCaseString key;
          m = (case custom_map a of Some m \<Rightarrow> erase_key (asLowerCaseString k) m | None \<Rightarrow> []) in
      put_value ITEM_ATTRIBUTE_CUSTOM (CustomValue (m @ [(k, v)])) a)"

definition attrs_getCustom :: "string \<Rightarrow> ItemAttributes \<Rightarrow> variant option" where
  "attrs_getCustom key a =
     (case custom_map a of Some m \<Rightarrow> map_of m (asLowerCaseString key) | None \<Rightarrow> None)"

definition attrs_removeCustom :: "string \<Rightarrow> ItemAttributes \<Rightarrow> bool \<times> ItemAttributes" where
  "attrs_removeCustom key a =
     (case custom_map a of
        Some m \<Rightarrow>
          if map_of m (asLowerCaseString key) \<noteq> None
          then (True, put_value ITEM_ATTRIBUTE_CUSTOM (CustomValue (erase_key (asLowerCaseString key) m)) a)
          else (False, a)
      | None \<Rightarrow> (False, a))"

section \<open>Items\<close>

record Abilities =
  ability_skills :: "nat \<Rightarrow> int"
  ability_stats :: "nat \<Rightarrow> int"
  ability_statsPercent :: "nat \<Rightarrow> int"

record ItemType =
  type_stackable :: bool
  type_fluid :: bool
  type_splash :: bool
  type_charges :: u32
  type_moveable :: bool
  type_pickupable :: bool
  type_weight :: u32
  type_decayTime :: u32
  type_decayTo :: int
  type_stopTime :: bool
  type_quiver :: bool
  type_ammo :: bool
  type_abilities :: "Abilities option"

type_synonym ItemTypes = "u16 \<Rightarrow> ItemType"

record Item =
  item_id :: u16
  item_count :: u8
  item_attributes :: "ItemAttributes option"

datatype ItemDecayState_t = DECAYING_FALSE | DECAYING_TRUE | DECAYING_PENDING | DECAYING_STOPPING

fun decay_value :: "ItemDecayState_t \<Rightarrow> u8" where
  "decay_value DECAYING_FALSE = 0"
| "decay_value DECAYING_TRUE = 1"
| "decay_value DECAYING_PENDING = 2"
| "decay_value DECAYING_STOPPING = 3"

definition change_attributes :: "(ItemAttributes \<Rightarrow> ItemAttributes) \<Rightarrow> Item \<Rightarrow> Item" where
  "change_attributes f it =
     it\<lparr>item_attributes := Some (f (case item_attributes it of Some a \<Rightarrow> a | None \<Rightarrow> empty_attributes))\<rparr>"

definition hasAttribute :: "ItemAttrTypes \<Rightarrow> Item \<Rightarrow> bool" where
  "hasAttribute type it = (case item_attributes it of Some a \<Rightarrow> attrs_has type a | None \<Rightarrow> False)"

definition getIntAttr :: "ItemAttrTypes \<Rightarrow> Item \<Rightarrow> u64" where
  "getIntAttr type it = (case item_attributes it of Some a \<Rightarrow> attrs_getInt type a | None \<Rightarrow> 0)"

definition setIntAttr :: "ItemAttrTypes \<Rightarrow> u64 \<Rightarrow> Item \<Rightarrow> Item" where
  "setIntAttr type v = change_attributes (attrs_setInt type v)"

definition getStrAttr :: "ItemAttrTypes \<Rightarrow> Item \<Rightarrow> string" where
  "getStrAttr type it = (case item_attributes it of Some a \<Rightarrow> attrs_getStr type a | None \<Rightarrow> [])"

definition setStrAttr :: "ItemAttrTypes \<Rightarrow> string \<Rightarrow> Item \<Rightarrow> Item" where
  "setStrAttr type s = change_attributes (attrs_setStr type s)"

definition removeAttribute :: "ItemAttrTypes \<Rightarrow> Item \<Rightarrow> Item" where
  "removeAttribute type it =
     (case item_attributes it of
        Some a \<Rightarrow> it\<lparr>item_attributes := Some (attrs_remove type a)\<rparr>
      | None \<Rightarrow> it)"

definition setCustomAttribute :: "string \<Rightarrow> variant \<Rightarrow> Item \<Rightarrow> Item" where
  "setCustomAttribute key v = change_attributes (attrs_setCustom key v)"

definition setActionId :: "u16 \<Rightarrow> Item \<Rightarrow> Item" where
  "setActionId n = setIntAttr ITEM_ATTRIBUTE_ACTIONID (ucast (if n < 100 then 100 else n))"

definition getActionId :: "Item \<Rightarrow> u16" where
  "getActionId it = ucast (getIntAttr ITEM_ATTRIBUTE_ACTIONID it)"

definition getCharges :: "Item \<Rightarrow> u16" where
  "getCharges it = ucast (getIntAttr ITEM_ATTRIBUTE_CHARGES it)"

definition getFluidType :: "Item \<Rightarrow> u16" where
  "getFluidType it = ucast (getIntAttr ITEM_ATTRIBUTE_FLUIDTYPE it)"

text \<open>\<open>d\<close> is an \<^verbatim>\<open>int32_t\<close>.\<close>

definition setDuration :: "u32 \<Rightarrow> Item \<Rightarrow> Item" where
  "setDuration d = setIntAttr ITEM_ATTRIBUTE_DURATION (if sint d < 0 then 0 else ucast d)"

definition setDurationTimestamp :: "u64 \<Rightarrow> Item \<Rightarrow> Item" where
  "setDurationTimestamp t = setIntAttr ITEM_ATTRIBUTE_DURATION_TIMESTAMP t"

definition getDecaying :: "Item \<Rightarrow> u8" where
  "getDecaying it = ucast (getIntAttr ITEM_ATTRIBUTE_DECAYSTATE it)"

text \<open>\<open>now\<close> is \<^verbatim>\<open>OTSYS_TIME()\<close>; the difference is cut to 32 bits before it is compared with zero.\<close>

definition getDuration :: "u64 \<Rightarrow> Item \<Rightarrow> u32" where
  "getDuration now it =
     (if getDecaying it = decay_value DECAYING_TRUE \<or> getDecaying it = decay_value DECAYING_STOPPING then
        let d = ucast (getIntAttr ITEM_ATTRIBUTE_DURATION_TIMESTAMP it - now) :: u32 in
        if sint d < 0 then 0 else d
      else ucast (getIntAttr ITEM_ATTRIBUTE_DURATION it))"

definition setDecaying :: "ItemDecayState_t \<Rightarrow> Item \<Rightarrow> Item" where
  "setDecaying st it =
     (let it = setIntAttr ITEM_ATTRIBUTE_DECAYSTATE (ucast (decay_value st)) it in
      if st = DECAYING_FALSE then removeAttribute ITEM_ATTRIBUTE_DURATION_TIMESTAMP it else it)"

definition getSubType :: "ItemTypes \<Rightarrow> Item \<Rightarrow> u16" where
  "getSubType T it =
     (let t = T (item_id it) in
      if type_fluid t \<or> type_splash t then getFluidType it
      else if type_stackable t then ucast (item_count it)
      else if type_charges t \<noteq> 0 then getCharges it
      else ucast (item_count it))"

definition setSubType :: "ItemTypes \<Rightarrow> u16 \<Rightarrow> Item \<Rightarrow> Item" where
  "setSubType T n it =
     (let t = T (item_id it) in
      if type_fluid t \<or> type_splash t then setIntAttr ITEM_ATTRIBUTE_FLUIDTYPE (ucast n) it
      else if type_stackable t then it\<lparr>item_count := ucast n\<rparr>
      else if type_charges t \<noteq> 0 then setIntAttr ITEM_ATTRIBUTE_CHARGES (ucast n) it
      else it\<lparr>item_count := ucast n\<rparr>)"

definition setDefaultSubtype :: "ItemTypes \<Rightarrow> Item \<Rightarrow> Item" where
  "setDefaultSubtype T it =
     (let t = T (item_id it); it = it\<lparr>item_count := 1\<rparr> in
      if type_charges t \<noteq> 0 then
        if type_stackable t then it\<lparr>item_count := ucast (type_charges t)\<rparr>
        else setIntAttr ITEM_ATTRIBUTE_CHARGES (ucast (ucast (type_charges t) :: u16)) it
      else it)"

text \<open>The constructor.\<close>

definition new_item :: "ItemTypes \<Rightarrow> u16 \<Rightarrow> u16 \<Rightarrow> Item" where
  "new_item T i n =
     (let t = T i;
          it = \<lparr>item_id = i, item_count = 1, item_attributes = None\<rparr>;
          it = (if type_fluid t \<or> type_splash t then setIntAttr ITEM_ATTRIBUTE_FLUIDTYPE (ucast n) it
                else if type_stackable t then
                  if n \<noteq> 0 then it\<lparr>item_count := ucast n\<rparr>
                  else if type_charges t \<noteq> 0 then it\<lparr>item_count := ucast (type_charges t)\<rparr> else it
                else if type_charges t \<noteq> 0 then
                  setIntAttr ITEM_ATTRIBUTE_CHARGES
                    (if n \<noteq> 0 then ucast n else ucast (ucast (type_charges t) :: u16)) it
                else it) in
      if type_decayTime t * 1000 \<noteq> 0 then setDuration (type_decayTime t * 1000) it else it)"

definition isRewardCorpse :: "Item \<Rightarrow> bool" where
  "isRewardCorpse it \<longleftrightarrow> (ucast (getIntAttr ITEM_ATTRIBUTE_CORPSEOWNER it) :: u32) = 0x7FFFFFFF"

definition setID :: "ItemTypes \<Rightarrow> u16 \<Rightarrow> Item \<Rightarrow> Item" where
  "setID T newid it =
     (let prevIt = T (item_id it);
          it = it\<lparr>item_id := newid\<rparr>;
          t = T newid;
          newDuration = type_decayTime t * 1000;
          it = (if newDuration = 0 \<and> \<not> type_stopTime t \<and> type_decayTo t < 0 then
                  removeAttribute ITEM_ATTRIBUTE_DURATION
                    (if hasAttribute ITEM_ATTRIBUTE_DECAYSTATE it then setDecaying DECAYING_STOPPING it else it)
                else it);
          it = (if \<not> isRewardCorpse it then removeAttribute ITEM_ATTRIBUTE_CORPSEOWNER it else it) in
      if newDuration > 0 \<and> (\<not> type_stopTime prevIt \<or> \<not> hasAttribute ITEM_ATTRIBUTE_DURATION it)
      then setDuration newDuration (setDecaying DECAYING_PENDING it) else it)"

definition getBaseWeight :: "ItemTypes \<Rightarrow> Item \<Rightarrow> u32" where
  "getBaseWeight T it =
     (if hasAttribute ITEM_ATTRIBUTE_WEIGHT it then ucast (getIntAttr ITEM_ATTRIBUTE_WEIGHT it)
      else type_weight (T (item_id it)))"

definition item_weight :: "ItemTypes \<Rightarrow> Item \<Rightarrow> u32" where
  "item_weight T it =
     (if type_stackable (T (item_id it)) then getBaseWeight T it * max 1 (ucast (item_count it))
      else getBaseWeight T it)"

definition same_attr :: "ItemAttrTypes \<times> attr_value \<Rightarrow> ItemAttrTypes \<times> attr_value \<Rightarrow> bool" where
  "same_attr x y \<longleftrightarrow>
     fst x \<noteq> fst y \<or>
     (isStrAttrType (fst x) \<longrightarrow> snd x = snd y) \<and> (isIntAttrType (fst x) \<longrightarrow> snd x = snd y)"

definition item_equals :: "Item \<Rightarrow> Item \<Rightarrow> bool" where
  "item_equals x y \<longleftrightarrow>
     item_id x = item_id y \<and>
     (case (item_attributes x, item_attributes y) of
        (None, None) \<Rightarrow> True
      | (Some a, Some b) \<Rightarrow>
          attributeBits a = attributeBits b \<and>
          list_all (\<lambda>p. list_all (same_attr p) (attr_list b)) (attr_list a)
      | _ \<Rightarrow> False)"

section \<open>The contract of the attribute store\<close>

text \<open>
  What items rely on: values are found again under the type they were stored with, other types are not
  touched. The contract holds for types that are a single bit, as all constants are.
\<close>

locale attribute_store =
  fixes find :: "'k \<Rightarrow> 's \<Rightarrow> 'v option" and put :: "'k \<Rightarrow> 'v \<Rightarrow> 's \<Rightarrow> 's" and remove :: "'k \<Rightarrow> 's \<Rightarrow> 's"
    and has :: "'k \<Rightarrow> 's \<Rightarrow> bool" and ok :: "'s \<Rightarrow> bool" and key :: "'k \<Rightarrow> bool"
  assumes find_put: "ok s \<Longrightarrow> key k \<Longrightarrow> key k' \<Longrightarrow> find k' (put k v s) = (if k' = k then Some v else find k' s)"
    and find_remove: "ok s \<Longrightarrow> key k \<Longrightarrow> key k' \<Longrightarrow> find k' (remove k s) = (if k' = k then None else find k' s)"
    and has_find: "ok s \<Longrightarrow> key k \<Longrightarrow> has k s \<longleftrightarrow> find k s \<noteq> None"
    and ok_put: "ok s \<Longrightarrow> key k \<Longrightarrow> ok (put k v s)"
    and ok_remove: "ok s \<Longrightarrow> key k \<Longrightarrow> ok (remove k s)"
begin

lemma has_put: "ok s \<Longrightarrow> key k \<Longrightarrow> key k' \<Longrightarrow> has k' (put k v s) \<longleftrightarrow> k' = k \<or> has k' s"
  by (simp add: has_find ok_put find_put)

lemma has_remove: "ok s \<Longrightarrow> key k \<Longrightarrow> key k' \<Longrightarrow> has k' (remove k s) \<longleftrightarrow> k' \<noteq> k \<and> has k' s"
  by (simp add: has_find ok_remove find_remove)

end

definition single_bit :: "u32 \<Rightarrow> bool" where
  "single_bit t \<longleftrightarrow> (\<exists>n < 32. t = 2 ^ n)"

definition attr_types :: "ItemAttributes \<Rightarrow> ItemAttrTypes set" where
  "attr_types a = fst ` set (attr_list a)"

definition attrs_ok :: "ItemAttributes \<Rightarrow> bool" where
  "attrs_ok a \<longleftrightarrow> distinct (map fst (attr_list a)) \<and> (\<forall>t \<in> attr_types a. single_bit t) \<and>
     (\<forall>t. single_bit t \<longrightarrow> (attrs_has t a \<longleftrightarrow> t \<in> attr_types a))"

lemma exp_and_iff: "(2 ^ n :: u32) AND b = 0 \<longleftrightarrow> \<not> bit b n"
  by (metis and.commute and_exp_eq_0_iff_not_bit)

lemma bit_power: "m < 32 \<Longrightarrow> bit (2 ^ m :: u32) n \<longleftrightarrow> m = n"
  by (auto simp: bit_exp_iff possible_bit_word)

lemma single_eq: "m < 32 \<Longrightarrow> n < 32 \<Longrightarrow> (2 ^ m :: u32) = 2 ^ n \<longleftrightarrow> m = n"
  by (metis bit_power)

lemma single_or:
  assumes "single_bit s" "single_bit t"
  shows "t AND (b OR s) = 0 \<longleftrightarrow> t AND b = 0 \<and> t \<noteq> s"
proof -
  from assms obtain m n where "m < 32" "n < 32" "s = 2 ^ m" "t = 2 ^ n" by (auto simp: single_bit_def)
  then show ?thesis by (simp only: exp_and_iff bit_or_iff bit_power single_eq) auto
qed

lemma single_and_not:
  assumes "single_bit s" "single_bit t"
  shows "t AND (b AND NOT s) = 0 \<longleftrightarrow> t AND b = 0 \<or> t = s"
proof -
  from assms obtain m n where "m < 32" "n < 32" "s = 2 ^ m" "t = 2 ^ n" by (auto simp: single_bit_def)
  then show ?thesis
    by (simp only: exp_and_iff bit_and_iff bit_not_iff bit_power single_eq possible_bit_word) auto
qed

lemma attr_index_None: "attr_index t as = None \<longleftrightarrow> map_of as t = None"
  by (induction as) auto

lemma attr_index_Some:
  "attr_index t as = Some i \<Longrightarrow> i < length as \<and> fst (as ! i) = t \<and> map_of as t = Some (snd (as ! i))"
  by (induction as arbitrary: i) (auto split: if_splits)

lemma map_of_dom: "t \<in> fst ` set as \<longleftrightarrow> map_of as t \<noteq> None"
  by (metis map_of_eq_None_iff)

lemma has_iff: "attrs_ok a \<Longrightarrow> single_bit t \<Longrightarrow> attrs_has t a \<longleftrightarrow> map_of (attr_list a) t \<noteq> None"
  unfolding attrs_ok_def attr_types_def map_of_dom by blast

lemma getExistingAttr_map_of:
  assumes "attrs_ok a" "single_bit t"
  shows "getExistingAttr t a = map_of (attr_list a) t"
proof (cases "attr_index t (attr_list a)")
  case None
  then show ?thesis by (simp add: getExistingAttr_def attr_index_None [THEN iffD1])
next
  case (Some i)
  note i = attr_index_Some [OF this]
  then have "attrs_has t a" using has_iff [OF assms] by simp
  with Some i show ?thesis by (simp add: getExistingAttr_def)
qed

lemma mset_butlast_last: "xs \<noteq> [] \<Longrightarrow> mset xs = add_mset (last xs) (mset (butlast xs))"
  by (induction xs rule: rev_induct) auto

lemma swap_remove:
  assumes "i < length xs"
  shows "add_mset (xs ! i) (mset (butlast (xs[i := last xs]))) = mset xs"
proof (cases "i = length xs - 1")
  case True
  moreover from assms have ne: "xs \<noteq> []" by auto
  ultimately have "xs[i := last xs] = xs" "xs ! i = last xs" by (simp_all add: last_conv_nth)
  then show ?thesis using mset_butlast_last [OF ne] by simp
next
  case False
  from assms have ne: "xs \<noteq> []" by auto
  have "last (xs[i := last xs]) = last xs" using False assms ne by (simp add: last_list_update)
  then have "mset (xs[i := last xs]) = add_mset (last xs) (mset (butlast (xs[i := last xs])))"
    using mset_butlast_last [of "xs[i := last xs]"] ne by simp
  moreover have "mset (xs[i := last xs]) = add_mset (last xs) (mset xs - {#xs ! i#})"
    using assms by (rule mset_update)
  ultimately have "mset (butlast (xs[i := last xs])) = mset xs - {#xs ! i#}" by simp
  then show ?thesis using assms by simp
qed

lemma map_of_update_at:
  "i < length as \<Longrightarrow> fst (as ! i) = t \<Longrightarrow> distinct (map fst as) \<Longrightarrow>
    map_of (as[i := (t, v)]) = (map_of as)(t \<mapsto> v)"
proof (induction as arbitrary: i)
  case (Cons p as)
  obtain k w where p: "p = (k, w)" by force
  show ?case
  proof (cases i)
    case 0
    with Cons.prems p show ?thesis by auto
  next
    case (Suc j)
    with Cons.prems p have "t \<noteq> k" by (auto simp: image_iff)
    with Suc Cons p show ?thesis by (auto simp: fun_eq_iff)
  qed
qed simp

lemma put_value_list:
  assumes "attrs_ok a" "single_bit t"
  shows "map_of (attr_list (put_value t v a)) = (map_of (attr_list a))(t \<mapsto> v) \<and> attrs_ok (put_value t v a)"
proof (cases "attr_index t (attr_list a)")
  case None
  then have new: "map_of (attr_list a) t = None" by (simp add: attr_index_None)
  then have "\<not> attrs_has t a" using has_iff [OF assms] by simp
  then have eq: "put_value t v a = a\<lparr>attributeBits := attributeBits a OR t, attr_list := attr_list a @ [(t, v)]\<rparr>"
    by (simp add: put_value_def getAttr_def nth_append)
  have "map_of (attr_list a @ [(t, v)]) = (map_of (attr_list a))(t \<mapsto> v)"
    using new by (auto simp: fun_eq_iff map_add_def split: option.splits)
  moreover have "t \<notin> fst ` set (attr_list a)" using new by (simp add: map_of_dom)
  then have "attrs_ok (put_value t v a)"
    using assms unfolding eq attrs_ok_def attrs_has_def attr_types_def by (auto simp: single_or)
  ultimately show ?thesis by (simp add: eq)
next
  case (Some i)
  note i = attr_index_Some [OF Some]
  then have has: "attrs_has t a" using has_iff [OF assms] by simp
  have eq: "put_value t v a = a\<lparr>attr_list := (attr_list a)[i := (t, v)]\<rparr>"
    using has Some i by (simp add: put_value_def getAttr_def)
  have keys: "map fst ((attr_list a)[i := (t, v)]) = map fst (attr_list a)"
    using i by (metis fst_conv list_update_id map_update nth_map)
  have "map_of ((attr_list a)[i := (t, v)]) = (map_of (attr_list a))(t \<mapsto> v)"
    using i assms by (intro map_of_update_at) (auto simp: attrs_ok_def)
  moreover have "attrs_ok (put_value t v a)"
    using assms keys unfolding eq attrs_ok_def attr_types_def attrs_has_def set_map [symmetric] by simp
  ultimately show ?thesis by (simp add: eq)
qed

lemma attrs_remove_list:
  assumes ok: "attrs_ok a" and t: "single_bit t"
  shows "map_of (attr_list (attrs_remove t a)) = (map_of (attr_list a))(t := None) \<and> attrs_ok (attrs_remove t a)"
proof (cases "attr_index t (attr_list a)")
  case None
  then have "map_of (attr_list a) t = None" by (simp add: attr_index_None)
  then have "attrs_remove t a = a" "(map_of (attr_list a))(t := None) = map_of (attr_list a)"
    using has_iff [OF assms] by (auto simp: attrs_remove_def)
  then show ?thesis using ok by simp
next
  case (Some i)
  let ?as = "attr_list a" and ?bs = "butlast ((attr_list a)[i := last (attr_list a)])"
  note i = attr_index_Some [OF Some]
  then have has: "attrs_has t a" using has_iff [OF assms] by simp
  then have eq: "attrs_remove t a = a\<lparr>attr_list := ?bs, attributeBits := attributeBits a AND NOT t\<rparr>"
    using Some by (simp add: attrs_remove_def Let_def)
  have ms: "add_mset (?as ! i) (mset ?bs) = mset ?as" using i by (simp add: swap_remove)
  have keys: "distinct (map fst (?as ! i # ?bs))"
  proof -
    have "mset (map fst (?as ! i # ?bs)) = mset (map fst ?as)"
      using arg_cong [OF ms, of "image_mset fst"] by simp
    from mset_eq_imp_distinct_iff [OF this] show ?thesis using ok by (simp add: attrs_ok_def)
  qed
  have sets: "set ?as = insert (?as ! i) (set ?bs)" by (metis ms set_mset_add_mset_insert set_mset_mset)
  have "map_of ?as = map_of (?as ! i # ?bs)"
    using keys ok ms by (intro map_of_inject_set [THEN iffD2]) (auto simp: attrs_ok_def sets)
  then have m: "map_of ?as = (map_of ?bs)(t \<mapsto> snd (?as ! i))" using i by (metis map_of_Cons_code(2) map_of.simps(2))
  have "map_of ?bs t = None" using keys i by (simp add: map_of_eq_None_iff)
  then have "map_of ?bs = (map_of ?as)(t := None)" by (auto simp: m)
  moreover have "attrs_ok (attrs_remove t a)"
    using ok t keys i sets unfolding eq attrs_ok_def attr_types_def attrs_has_def
    by (auto simp: single_and_not) (metis fst_conv image_eqI)
  ultimately show ?thesis by (simp add: eq)
qed

interpretation attrs: attribute_store getExistingAttr put_value attrs_remove attrs_has attrs_ok single_bit
  by unfold_locales (simp_all add: getExistingAttr_map_of has_iff put_value_list attrs_remove_list)

section \<open>Attributes are typed\<close>

text \<open>
  \<^verbatim>\<open>Attribute::value\<close> is an untagged union: reading the member that was not stored last would be undefined.
  The values of an attribute store always have the form that their type calls for.
\<close>

definition custom_ok :: "CustomAttributeMap \<Rightarrow> bool" where
  "custom_ok m \<longleftrightarrow> distinct (map fst m) \<and> list_all (\<lambda>e. toLowerCaseString (fst e) = fst e) m"

fun value_fits :: "ItemAttrTypes \<times> attr_value \<Rightarrow> bool" where
  "value_fits (t, IntValue n) \<longleftrightarrow> isIntAttrType t"
| "value_fits (t, StrValue s) \<longleftrightarrow> isStrAttrType t \<and> s \<noteq> []"
| "value_fits (t, CustomValue m) \<longleftrightarrow> t = ITEM_ATTRIBUTE_CUSTOM \<and> custom_ok m"
| "value_fits (t, ZeroValue) \<longleftrightarrow> False"

definition attrs_typed :: "ItemAttributes \<Rightarrow> bool" where
  "attrs_typed a \<longleftrightarrow> attrs_ok a \<and> (\<forall>p \<in> set (attr_list a). value_fits p)"

datatype attr_op =
    SetInt ItemAttrTypes u64
  | IncreaseInt ItemAttrTypes u64
  | SetStr ItemAttrTypes string
  | Remove ItemAttrTypes
  | SetCustom string variant
  | RemoveCustom string

fun attr_op_type :: "attr_op \<Rightarrow> ItemAttrTypes" where
  "attr_op_type (SetInt t v) = t"
| "attr_op_type (IncreaseInt t v) = t"
| "attr_op_type (SetStr t v) = t"
| "attr_op_type (Remove t) = t"
| "attr_op_type (SetCustom k v) = ITEM_ATTRIBUTE_CUSTOM"
| "attr_op_type (RemoveCustom k) = ITEM_ATTRIBUTE_CUSTOM"

fun run_attr_op :: "attr_op \<Rightarrow> ItemAttributes \<Rightarrow> ItemAttributes" where
  "run_attr_op (SetInt t v) a = attrs_setInt t v a"
| "run_attr_op (IncreaseInt t v) a = attrs_increaseInt t v a"
| "run_attr_op (SetStr t s) a = attrs_setStr t s a"
| "run_attr_op (Remove t) a = attrs_remove t a"
| "run_attr_op (SetCustom k v) a = attrs_setCustom k v a"
| "run_attr_op (RemoveCustom k) a = snd (attrs_removeCustom k a)"

lemma toLowerCaseString_idem: "toLowerCaseString (toLowerCaseString s) = toLowerCaseString s"
proof -
  have "tolower (tolower c) = tolower c" for c
    by (simp add: tolower_def of_char_of)
  then show ?thesis by (simp add: toLowerCaseString_def)
qed

lemma put_value_subset:
  assumes "attrs_ok a" "single_bit t"
  shows "set (attr_list (put_value t v a)) \<subseteq> insert (t, v) (set (attr_list a))"
proof (cases "attr_index t (attr_list a)")
  case None
  then show ?thesis by (auto simp: put_value_def getAttr_def nth_append)
next
  case (Some i)
  note i = attr_index_Some [OF Some]
  then have "attrs_has t a" using has_iff [OF assms] by simp
  then show ?thesis using Some i by (auto simp: put_value_def getAttr_def dest: set_update_subset_insert [THEN subsetD])
qed

lemma attrs_remove_subset: "set (attr_list (attrs_remove t a)) \<subseteq> set (attr_list a)"
proof (cases "attr_index t (attr_list a)")
  case (Some i)
  then have "i < length (attr_list a)" using attr_index_Some by blast
  then have "set ((attr_list a)[i := last (attr_list a)]) \<subseteq> set (attr_list a)"
    by (cases "attr_list a = []") (auto dest: set_update_subset_insert [THEN subsetD])
  then show ?thesis using Some by (auto simp: attrs_remove_def Let_def dest: in_set_butlastD)
qed (simp add: attrs_remove_def)

lemma put_value_typed: "attrs_typed a \<Longrightarrow> single_bit t \<Longrightarrow> value_fits (t, v) \<Longrightarrow> attrs_typed (put_value t v a)"
  using put_value_subset [of a t v] put_value_list [of a t v] by (auto simp: attrs_typed_def)

lemma attrs_remove_typed: "attrs_typed a \<Longrightarrow> single_bit t \<Longrightarrow> attrs_typed (attrs_remove t a)"
  using attrs_remove_subset [of t a] attrs_remove_list [of a t] by (auto simp: attrs_typed_def)

lemma typed_find: "attrs_typed a \<Longrightarrow> single_bit t \<Longrightarrow> getExistingAttr t a = Some v \<Longrightarrow> value_fits (t, v)"
  by (auto simp: attrs_typed_def getExistingAttr_map_of dest: map_of_SomeD)

lemma single_custom: "single_bit ITEM_ATTRIBUTE_CUSTOM"
  unfolding single_bit_def by (rule exI [of _ 31]) simp

lemma custom_map_ok: "attrs_typed a \<Longrightarrow> custom_map a = Some m \<Longrightarrow> custom_ok m"
  using typed_find [OF _ single_custom, of a] by (fastforce simp: custom_map_def split: option.splits attr_value.splits)

lemma custom_ok_erase: "custom_ok m \<Longrightarrow> custom_ok (erase_key k m)"
  by (auto simp: custom_ok_def erase_key_def list_all_iff distinct_map_filter)

lemma custom_ok_add:
  assumes "custom_ok m"
  shows "custom_ok (erase_key (toLowerCaseString k) m @ [(toLowerCaseString k, v)])"
  using custom_ok_erase [OF assms, of "toLowerCaseString k"]
  by (auto simp: custom_ok_def toLowerCaseString_idem) (auto simp: erase_key_def)

lemma run_attr_op_typed: "attrs_typed a \<Longrightarrow> single_bit (attr_op_type p) \<Longrightarrow> attrs_typed (run_attr_op p a)"
proof (induction p)
  case (SetCustom k v)
  let ?m = "case custom_map a of Some m \<Rightarrow> erase_key (toLowerCaseString k) m | None \<Rightarrow> []"
  have "custom_ok (?m @ [(toLowerCaseString k, v)])"
    using custom_ok_add [OF custom_map_ok, OF SetCustom(1)] custom_ok_add [of "[]" k v]
    by (simp add: custom_ok_def erase_key_def split: option.split)
  then show ?case
    using put_value_typed [OF SetCustom(1) single_custom]
    unfolding run_attr_op.simps attrs_setCustom_def asLowerCaseString_def toLowerCaseString_idem Let_def by simp
next
  case (RemoveCustom k)
  then show ?case using custom_map_ok [of a] custom_ok_erase
    by (auto simp: attrs_removeCustom_def split: option.splits intro!: put_value_typed)
qed (auto simp: attrs_setInt_def attrs_increaseInt_def attrs_setStr_def intro: put_value_typed attrs_remove_typed)

lemma run_attr_ops_typed:
  "attrs_typed a \<Longrightarrow> list_all (\<lambda>p. single_bit (attr_op_type p)) ps \<Longrightarrow> attrs_typed (fold run_attr_op ps a)"
  by (induction ps arbitrary: a) (auto intro: run_attr_op_typed)

lemma empty_typed: "attrs_typed empty_attributes"
  by (simp add: attrs_typed_def attrs_ok_def empty_attributes_def attr_types_def attrs_has_def)

lemma masks_disjoint:
  assumes "single_bit t"
  shows "\<not> (isIntAttrType t \<and> isStrAttrType t)" "isIntAttrType t \<Longrightarrow> t \<noteq> ITEM_ATTRIBUTE_CUSTOM"
    "isStrAttrType t \<Longrightarrow> t \<noteq> ITEM_ATTRIBUTE_CUSTOM"
proof -
  from assms obtain n where t: "t = 2 ^ n" by (auto simp: single_bit_def)
  have "int_attr_types AND str_attr_types = 0" by (simp add: int_attr_types_def str_attr_types_def)
  then have "\<not> (bit int_attr_types n \<and> bit str_attr_types n)" by (metis bit_0_eq bit_and_iff bot_apply bot_bool_def)
  then show "\<not> (isIntAttrType t \<and> isStrAttrType t)" by (simp add: isIntAttrType_def isStrAttrType_def t exp_and_iff)
qed (auto simp: isIntAttrType_def isStrAttrType_def int_attr_types_def str_attr_types_def)

text \<open>
  C17. Whatever calls of the setters a program makes on a fresh attribute store, an attribute of integer
  type that is present holds an integer, one of string type a string that is not empty, and the custom
  attribute a map with distinct lower case keys: the accessors read the member of the union that was
  written.
\<close>

theorem attributes_typed:
  assumes "list_all (\<lambda>p. single_bit (attr_op_type p)) ops" and "single_bit t"
    and "a = fold run_attr_op ops empty_attributes"
  shows "case getExistingAttr t a of
      Some (IntValue n) \<Rightarrow> isIntAttrType t \<and> \<not> isStrAttrType t \<and> attrs_getInt t a = n
    | Some (StrValue s) \<Rightarrow> isStrAttrType t \<and> \<not> isIntAttrType t \<and> s \<noteq> [] \<and> attrs_getStr t a = s
    | Some (CustomValue m) \<Rightarrow> t = ITEM_ATTRIBUTE_CUSTOM \<and> custom_map a = Some m \<and> custom_ok m
    | Some ZeroValue \<Rightarrow> False
    | None \<Rightarrow> \<not> attrs_has t a"
proof -
  have typed: "attrs_typed a" unfolding assms(3) by (intro run_attr_ops_typed empty_typed assms(1))
  show ?thesis
  proof (cases "getExistingAttr t a")
    case None
    then show ?thesis using attrs.has_find [of a t] typed assms(2) by (simp add: attrs_typed_def)
  next
    case (Some v)
    from typed_find [OF typed assms(2) this] show ?thesis
      using masks_disjoint [OF assms(2)] Some
      by (cases v) (auto simp: attrs_getInt_def attrs_getStr_def custom_map_def)
  qed
qed

lemma single_bit_power [simp]: "n < 32 \<Longrightarrow> single_bit (2 ^ n)"
  by (auto simp: single_bit_def)

lemma single_bit_code: "single_bit t \<longleftrightarrow> t \<in> set (map (\<lambda>n. 2 ^ n) [0..<32])"
  by (auto simp: single_bit_def)

theorem attributes_typed_witness:
  "case getExistingAttr ITEM_ATTRIBUTE_TEXT
      (fold run_attr_op [SetStr ITEM_ATTRIBUTE_TEXT ''hi'', SetInt ITEM_ATTRIBUTE_DATE 7, Remove ITEM_ATTRIBUTE_DATE]
        empty_attributes) of
      Some (StrValue s) \<Rightarrow> s \<noteq> [] | _ \<Rightarrow> False"
proof -
  let ?ops = "[SetStr ITEM_ATTRIBUTE_TEXT ''hi'', SetInt ITEM_ATTRIBUTE_DATE 7, Remove ITEM_ATTRIBUTE_DATE]"
  have "list_all (\<lambda>p. single_bit (attr_op_type p)) ?ops" "single_bit ITEM_ATTRIBUTE_TEXT"
    using single_bit_power [of 3] single_bit_power [of 4] by simp_all
  note attributes_typed [OF this refl]
  moreover have "getExistingAttr ITEM_ATTRIBUTE_TEXT (fold run_attr_op ?ops empty_attributes) = Some (StrValue ''hi'')"
    by code_simp
  ultimately show ?thesis by simp
qed

end
