(* ===== verification/ItemStream.thy ===== *)
theory ItemStream
  imports Items Digest
begin

text \<open>
  Items in property streams (\<^verbatim>\<open>items/item.cpp\<close>): \<^verbatim>\<open>serializeAttr\<close>, \<^verbatim>\<open>readAttr\<close>, \<^verbatim>\<open>unserializeAttr\<close> and the
  codec of custom attributes. The theorems show which attributes survive saving and loading an item,
  and which do not.
\<close>

type_synonym AttrTypes = u8

abbreviation (input) ATTR_ACTION_ID :: AttrTypes where "ATTR_ACTION_ID \<equiv> 4"
abbreviation (input) ATTR_UNIQUE_ID :: AttrTypes where "ATTR_UNIQUE_ID \<equiv> 5"
abbreviation (input) ATTR_TEXT :: AttrTypes where "ATTR_TEXT \<equiv> 6"
abbreviation (input) ATTR_DESC :: AttrTypes where "ATTR_DESC \<equiv> 7"
abbreviation (input) ATTR_TELE_DEST :: AttrTypes where "ATTR_TELE_DEST \<equiv> 8"
abbreviation (input) ATTR_DEPOT_ID :: AttrTypes where "ATTR_DEPOT_ID \<equiv> 10"
abbreviation (input) ATTR_RUNE_CHARGES :: AttrTypes where "ATTR_RUNE_CHARGES \<equiv> 12"
abbreviation (input) ATTR_HOUSEDOORID :: AttrTypes where "ATTR_HOUSEDOORID \<equiv> 14"
abbreviation (input) ATTR_COUNT :: AttrTypes where "ATTR_COUNT \<equiv> 15"
abbreviation (input) ATTR_DURATION :: AttrTypes where "ATTR_DURATION \<equiv> 16"
abbreviation (input) ATTR_DECAYING_STATE :: AttrTypes where "ATTR_DECAYING_STATE \<equiv> 17"
abbreviation (input) ATTR_WRITTENDATE :: AttrTypes where "ATTR_WRITTENDATE \<equiv> 18"
abbreviation (input) ATTR_WRITTENBY :: AttrTypes where "ATTR_WRITTENBY \<equiv> 19"
abbreviation (input) ATTR_SLEEPERGUID :: AttrTypes where "ATTR_SLEEPERGUID \<equiv> 20"
abbreviation (input) ATTR_SLEEPSTART :: AttrTypes where "ATTR_SLEEPSTART \<equiv> 21"
abbreviation (input) ATTR_CHARGES :: AttrTypes where "ATTR_CHARGES \<equiv> 22"
abbreviation (input) ATTR_NAME :: AttrTypes where "ATTR_NAME \<equiv> 24"
abbreviation (input) ATTR_ARTICLE :: AttrTypes where "ATTR_ARTICLE \<equiv> 25"
abbreviation (input) ATTR_PLURALNAME :: AttrTypes where "ATTR_PLURALNAME \<equiv> 26"
abbreviation (input) ATTR_WEIGHT :: AttrTypes where "ATTR_WEIGHT \<equiv> 27"
abbreviation (input) ATTR_ATTACK :: AttrTypes where "ATTR_ATTACK \<equiv> 28"
abbreviation (input) ATTR_DEFENSE :: AttrTypes where "ATTR_DEFENSE \<equiv> 29"
abbreviation (input) ATTR_EXTRADEFENSE :: AttrTypes where "ATTR_EXTRADEFENSE \<equiv> 30"
abbreviation (input) ATTR_ARMOR :: AttrTypes where "ATTR_ARMOR \<equiv> 31"
abbreviation (input) ATTR_HITCHANCE :: AttrTypes where "ATTR_HITCHANCE \<equiv> 32"
abbreviation (input) ATTR_SHOOTRANGE :: AttrTypes where "ATTR_SHOOTRANGE \<equiv> 33"
abbreviation (input) ATTR_SPECIAL :: AttrTypes where "ATTR_SPECIAL \<equiv> 34"
abbreviation (input) ATTR_IMBUEMENT_SLOT :: AttrTypes where "ATTR_IMBUEMENT_SLOT \<equiv> 35"
abbreviation (input) ATTR_OPENCONTAINER :: AttrTypes where "ATTR_OPENCONTAINER \<equiv> 36"
abbreviation (input) ATTR_CUSTOM_ATTRIBUTES :: AttrTypes where "ATTR_CUSTOM_ATTRIBUTES \<equiv> 37"
abbreviation (input) ATTR_QUICKLOOTCONTAINER :: AttrTypes where "ATTR_QUICKLOOTCONTAINER \<equiv> 38"
abbreviation (input) ATTR_IMBUEMENT_TYPE :: AttrTypes where "ATTR_IMBUEMENT_TYPE \<equiv> 39"

definition bytes_string :: "u8 list \<Rightarrow> string" where
  "bytes_string bs = map (\<lambda>b. char_of (unat b)) bs"

section \<open>Writing\<close>

definition put_str :: "string \<Rightarrow> u8 list \<Rightarrow> u8 list" where
  "put_str s = writeString (string_bytes s)"

fun variant_serialize :: "variant \<Rightarrow> u8 list \<Rightarrow> u8 list" where
  "variant_serialize VBlank b = prop_write 1 (0 :: u8) b"
| "variant_serialize (VString s) b = put_str s (prop_write 1 (1 :: u8) b)"
| "variant_serialize (VInt i) b = prop_write 8 i (prop_write 1 (2 :: u8) b)"
| "variant_serialize (VDouble d) b = prop_write 8 d (prop_write 1 (3 :: u8) b)"
| "variant_serialize (VBool v) b = prop_write 1 (if v then 1 else 0 :: u8) (prop_write 1 (4 :: u8) b)"

fun custom_serialize :: "CustomAttributeMap \<Rightarrow> u8 list \<Rightarrow> u8 list" where
  "custom_serialize [] b = b"
| "custom_serialize ((key, v) # m) b = custom_serialize m (variant_serialize v (put_str key b))"

text \<open>One \<^verbatim>\<open>if\<close> of \<^verbatim>\<open>serializeAttr\<close>: the tag and the value are written when the condition holds.\<close>

definition put_attr :: "bool \<Rightarrow> AttrTypes \<Rightarrow> (u8 list \<Rightarrow> u8 list) \<Rightarrow> u8 list \<Rightarrow> u8 list" where
  "put_attr c tag w b = (if c then w (prop_write 1 tag b) else b)"

definition serializeAttr :: "ItemTypes \<Rightarrow> u64 \<Rightarrow> Item \<Rightarrow> u8 list \<Rightarrow> u8 list" where
  "serializeAttr T now it b =
     (let t = T (item_id it);
          has = (\<lambda>a. hasAttribute a it);
          int = (\<lambda>a. getIntAttr a it);
          str = (\<lambda>a. getStrAttr a it);
          b = put_attr (type_stackable t \<or> type_fluid t \<or> type_splash t) ATTR_COUNT
                (prop_write 1 (ucast (getSubType T it) :: u8)) b;
          b = put_attr (getCharges it \<noteq> 0) ATTR_CHARGES (prop_write 2 (getCharges it)) b;
          b = put_attr (type_moveable t \<and> getActionId it \<noteq> 0) ATTR_ACTION_ID (prop_write 2 (getActionId it)) b;
          b = put_attr (str ITEM_ATTRIBUTE_TEXT \<noteq> []) ATTR_TEXT (put_str (str ITEM_ATTRIBUTE_TEXT)) b;
          b = put_attr (int ITEM_ATTRIBUTE_DATE \<noteq> 0) ATTR_WRITTENDATE
                (prop_write 4 (ucast (int ITEM_ATTRIBUTE_DATE) :: u32)) b;
          b = put_attr (str ITEM_ATTRIBUTE_WRITER \<noteq> []) ATTR_WRITTENBY (put_str (str ITEM_ATTRIBUTE_WRITER)) b;
          b = put_attr (str ITEM_ATTRIBUTE_DESCRIPTION \<noteq> []) ATTR_DESC (put_str (str ITEM_ATTRIBUTE_DESCRIPTION)) b;
          b = put_attr (has ITEM_ATTRIBUTE_DURATION) ATTR_DURATION (prop_write 4 (getDuration now it)) b;
          b = put_attr (getDecaying it = decay_value DECAYING_TRUE \<or> getDecaying it = decay_value DECAYING_PENDING)
                ATTR_DECAYING_STATE (prop_write 1 (getDecaying it)) b;
          b = put_attr (has ITEM_ATTRIBUTE_NAME) ATTR_NAME (put_str (str ITEM_ATTRIBUTE_NAME)) b;
          b = put_attr (has ITEM_ATTRIBUTE_ARTICLE) ATTR_ARTICLE (put_str (str ITEM_ATTRIBUTE_ARTICLE)) b;
          b = put_attr (has ITEM_ATTRIBUTE_PLURALNAME) ATTR_PLURALNAME (put_str (str ITEM_ATTRIBUTE_PLURALNAME)) b;
          b = put_attr (has ITEM_ATTRIBUTE_WEIGHT) ATTR_WEIGHT
                (prop_write 4 (ucast (int ITEM_ATTRIBUTE_WEIGHT) :: u32)) b;
          b = put_attr (has ITEM_ATTRIBUTE_ATTACK) ATTR_ATTACK
                (prop_write 4 (ucast (int ITEM_ATTRIBUTE_ATTACK) :: u32)) b;
          b = put_attr (has ITEM_ATTRIBUTE_DEFENSE) ATTR_DEFENSE
                (prop_write 4 (ucast (int ITEM_ATTRIBUTE_DEFENSE) :: u32)) b;
          b = put_attr (has ITEM_ATTRIBUTE_EXTRADEFENSE) ATTR_EXTRADEFENSE
                (prop_write 4 (ucast (int ITEM_ATTRIBUTE_EXTRADEFENSE) :: u32)) b;
          b = put_attr (has ITEM_ATTRIBUTE_IMBUEMENT_SLOT) ATTR_IMBUEMENT_SLOT
                (prop_write 4 (ucast (int ITEM_ATTRIBUTE_IMBUEMENT_SLOT) :: u32)) b;
          b = put_attr (has ITEM_ATTRIBUTE_OPENCONTAINER) ATTR_OPENCONTAINER
                (prop_write 1 (ucast (int ITEM_ATTRIBUTE_OPENCONTAINER) :: u8)) b;
          b = put_attr (has ITEM_ATTRIBUTE_ARMOR) ATTR_ARMOR
                (prop_write 4 (ucast (int ITEM_ATTRIBUTE_ARMOR) :: u32)) b;
          b = put_attr (has ITEM_ATTRIBUTE_HITCHANCE) ATTR_HITCHANCE
                (prop_write 1 (ucast (int ITEM_ATTRIBUTE_HITCHANCE) :: u8)) b;
          b = put_attr (has ITEM_ATTRIBUTE_SHOOTRANGE) ATTR_SHOOTRANGE
                (prop_write 1 (ucast (int ITEM_ATTRIBUTE_SHOOTRANGE) :: u8)) b;
          b = put_attr (has ITEM_ATTRIBUTE_SPECIAL) ATTR_SPECIAL (put_str (str ITEM_ATTRIBUTE_SPECIAL)) b;
          m = (case item_attributes it of Some a \<Rightarrow> (case custom_map a of Some m \<Rightarrow> m | None \<Rightarrow> []) | None \<Rightarrow> []);
          b = put_attr (has ITEM_ATTRIBUTE_CUSTOM) ATTR_CUSTOM_ATTRIBUTES
                (\<lambda>b. custom_serialize m (prop_write 8 (of_nat (length m) :: u64) b)) b;
          b = put_attr (has ITEM_ATTRIBUTE_QUICKLOOTCONTAINER) ATTR_QUICKLOOTCONTAINER
                (prop_write 4 (ucast (int ITEM_ATTRIBUTE_QUICKLOOTCONTAINER) :: u32)) b in
      put_attr (has ITEM_ATTRIBUTE_IMBUEMENT_TYPE) ATTR_IMBUEMENT_TYPE (put_str (str ITEM_ATTRIBUTE_IMBUEMENT_TYPE)) b)"

section \<open>Reading\<close>

datatype Attr_ReadValue = ATTR_READ_CONTINUE | ATTR_READ_ERROR | ATTR_READ_END

text \<open>An item that is being read, with the unique ids that the game has given out.\<close>

type_synonym loading = "Item \<times> u16 list"

definition setUniqueId :: "u16 \<Rightarrow> loading \<Rightarrow> loading" where
  "setUniqueId n l =
     (let (it, uniqueItems) = l in
      if hasAttribute ITEM_ATTRIBUTE_UNIQUEID it then l
      else if n \<in> set uniqueItems then l
      else (setIntAttr ITEM_ATTRIBUTE_UNIQUEID (ucast n) it, n # uniqueItems))"

text \<open>The common shape of the cases of \<^verbatim>\<open>readAttr\<close>: read a value, fail or store it.\<close>

definition read_field ::
  "nat \<Rightarrow> ('w::len word \<Rightarrow> loading \<Rightarrow> loading) \<Rightarrow> loading \<Rightarrow> u8 list \<Rightarrow> Attr_ReadValue \<times> loading \<times> u8 list" where
  "read_field n f l s =
     (case prop_read n s of
        (None, s) \<Rightarrow> (ATTR_READ_ERROR, l, s)
      | (Some v, s) \<Rightarrow> (ATTR_READ_CONTINUE, f v l, s))"

definition read_str ::
  "(string \<Rightarrow> loading \<Rightarrow> loading) \<Rightarrow> loading \<Rightarrow> u8 list \<Rightarrow> Attr_ReadValue \<times> loading \<times> u8 list" where
  "read_str f l s =
     (case readString s of
        (None, s) \<Rightarrow> (ATTR_READ_ERROR, l, s)
      | (Some v, s) \<Rightarrow> (ATTR_READ_CONTINUE, f (bytes_string v) l, s))"

definition read_skip :: "nat \<Rightarrow> loading \<Rightarrow> u8 list \<Rightarrow> Attr_ReadValue \<times> loading \<times> u8 list" where
  "read_skip n l s =
     (case prop_skip n s of
        (True, s) \<Rightarrow> (ATTR_READ_CONTINUE, l, s)
      | (False, s) \<Rightarrow> (ATTR_READ_ERROR, l, s))"

definition variant_unserialize :: "u8 list \<Rightarrow> variant option \<times> u8 list" where
  "variant_unserialize s =
     (case prop_read 1 s of
        (None, s) \<Rightarrow> (None, s)
      | (Some pos, s) \<Rightarrow>
          if pos = (1 :: u8) then apfst (map_option (\<lambda>v. VString (bytes_string v))) (readString s)
          else if pos = 2 then apfst (map_option VInt) (prop_read 8 s)
          else if pos = 3 then apfst (map_option VDouble) (prop_read 8 s)
          else if pos = 4 then apfst (map_option (\<lambda>v :: u8. VBool (v \<noteq> 0))) (prop_read 1 s)
          else (None, s))"

fun read_custom :: "nat \<Rightarrow> loading \<Rightarrow> u8 list \<Rightarrow> Attr_ReadValue \<times> loading \<times> u8 list" where
  "read_custom 0 l s = (ATTR_READ_CONTINUE, l, s)"
| "read_custom (Suc n) l s =
     (case readString s of
        (None, s) \<Rightarrow> (ATTR_READ_ERROR, l, s)
      | (Some key, s) \<Rightarrow>
          case variant_unserialize s of
            (None, s) \<Rightarrow> (ATTR_READ_ERROR, l, s)
          | (Some v, s) \<Rightarrow> read_custom n (apfst (setCustomAttribute (bytes_string key) v) l) s)"

definition readAttr :: "ItemTypes \<Rightarrow> AttrTypes \<Rightarrow> loading \<Rightarrow> u8 list \<Rightarrow> Attr_ReadValue \<times> loading \<times> u8 list" where
  "readAttr T attr =
     (if attr = ATTR_COUNT \<or> attr = ATTR_RUNE_CHARGES then
        read_field 1 (\<lambda>v :: u8. apfst (setSubType T (ucast v)))
      else if attr = ATTR_ACTION_ID then read_field 2 (\<lambda>v. apfst (setActionId v))
      else if attr = ATTR_UNIQUE_ID then read_field 2 setUniqueId
      else if attr = ATTR_TEXT then read_str (\<lambda>v. apfst (setStrAttr ITEM_ATTRIBUTE_TEXT v))
      else if attr = ATTR_WRITTENDATE then
        read_field 4 (\<lambda>v :: u32. apfst (setIntAttr ITEM_ATTRIBUTE_DATE (scast v)))
      else if attr = ATTR_WRITTENBY then read_str (\<lambda>v. apfst (setStrAttr ITEM_ATTRIBUTE_WRITER v))
      else if attr = ATTR_DESC then read_str (\<lambda>v. apfst (setStrAttr ITEM_ATTRIBUTE_DESCRIPTION v))
      else if attr = ATTR_CHARGES then read_field 2 (\<lambda>v. apfst (setSubType T v))
      else if attr = ATTR_DURATION then read_field 4 (\<lambda>v. apfst (setDuration v))
      else if attr = ATTR_DECAYING_STATE then
        read_field 1 (\<lambda>v :: u8. if v \<noteq> decay_value DECAYING_FALSE then apfst (setDecaying DECAYING_PENDING) else id)
      else if attr = ATTR_NAME then read_str (\<lambda>v. apfst (setStrAttr ITEM_ATTRIBUTE_NAME v))
      else if attr = ATTR_ARTICLE then read_str (\<lambda>v. apfst (setStrAttr ITEM_ATTRIBUTE_ARTICLE v))
      else if attr = ATTR_PLURALNAME then read_str (\<lambda>v. apfst (setStrAttr ITEM_ATTRIBUTE_PLURALNAME v))
      else if attr = ATTR_WEIGHT then
        read_field 4 (\<lambda>v :: u32. apfst (setIntAttr ITEM_ATTRIBUTE_WEIGHT (ucast v)))
      else if attr = ATTR_ATTACK then
        read_field 4 (\<lambda>v :: u32. apfst (setIntAttr ITEM_ATTRIBUTE_ATTACK (scast v)))
      else if attr = ATTR_DEFENSE then
        read_field 4 (\<lambda>v :: u32. apfst (setIntAttr ITEM_ATTRIBUTE_DEFENSE (scast v)))
      else if attr = ATTR_EXTRADEFENSE then
        read_field 4 (\<lambda>v :: u32. apfst (setIntAttr ITEM_ATTRIBUTE_EXTRADEFENSE (scast v)))
      else if attr = ATTR_IMBUEMENT_SLOT then
        read_field 4 (\<lambda>v :: u32. apfst (setIntAttr ITEM_ATTRIBUTE_IMBUEMENT_SLOT (scast v)))
      else if attr = ATTR_OPENCONTAINER then
        read_field 1 (\<lambda>v :: u8. apfst (setIntAttr ITEM_ATTRIBUTE_OPENCONTAINER (ucast v)))
      else if attr = ATTR_ARMOR then
        read_field 4 (\<lambda>v :: u32. apfst (setIntAttr ITEM_ATTRIBUTE_ARMOR (scast v)))
      else if attr = ATTR_HITCHANCE then
        read_field 1 (\<lambda>v :: u8. apfst (setIntAttr ITEM_ATTRIBUTE_HITCHANCE (scast v)))
      else if attr = ATTR_SHOOTRANGE then
        read_field 1 (\<lambda>v :: u8. apfst (setIntAttr ITEM_ATTRIBUTE_SHOOTRANGE (ucast v)))
      else if attr = ATTR_SPECIAL then read_str (\<lambda>v. apfst (setStrAttr ITEM_ATTRIBUTE_SPECIAL v))
      else if attr = ATTR_QUICKLOOTCONTAINER then
        read_field 4 (\<lambda>v :: u32. apfst (setIntAttr ITEM_ATTRIBUTE_QUICKLOOTCONTAINER (ucast v)))
      else if attr = ATTR_DEPOT_ID then read_skip 2
      else if attr = ATTR_HOUSEDOORID then read_skip 1
      else if attr = ATTR_SLEEPERGUID \<or> attr = ATTR_SLEEPSTART then read_skip 4
      else if attr = ATTR_TELE_DEST then read_skip 5
      else if attr = ATTR_CUSTOM_ATTRIBUTES then
        (\<lambda>l s. case prop_read 8 s of
                 (None, s) \<Rightarrow> (ATTR_READ_ERROR, l, s)
               | (Some (n :: u64), s) \<Rightarrow> read_custom (unat n) l s)
      else if attr = ATTR_IMBUEMENT_TYPE then read_str (\<lambda>v. apfst (setStrAttr ITEM_ATTRIBUTE_IMBUEMENT_TYPE v))
      else (\<lambda>l s. (ATTR_READ_ERROR, l, s)))"

text \<open>
  The loop of \<^verbatim>\<open>unserializeAttr\<close>: it ends at a zero tag, at the end of the stream, or at an attribute that
  cannot be read. Every round consumes at least the tag.
\<close>

lemma prop_read_length: "length (snd (prop_read n s)) \<le> length s"
  by (simp add: prop_read_def)

lemma prop_read_Some_length: "prop_read n s = (Some v, s') \<Longrightarrow> length s' + n = length s"
  by (auto simp: prop_read_def split: if_splits)

lemma readString_length: "length (snd (readString s)) \<le> length s"
  using prop_read_length [where ?'a = 16, of 2 s]
  by (auto simp: readString_def split: prod.splits option.splits)

lemma variant_unserialize_length: "length (snd (variant_unserialize s)) \<le> length s"
proof -
  have *: "length (snd (apfst f p)) = length (snd p)" for f :: "'a \<Rightarrow> 'b" and p :: "'a \<times> u8 list" by (cases p) simp
  obtain v s' where v: "prop_read 1 s = (v :: u8 option, s')" by force
  then have "length s' \<le> length s" using prop_read_length [where ?'a = 8, of 1 s] by simp
  then show ?thesis
    using v readString_length [of s'] prop_read_length [where ?'a = 64, of 8 s'] prop_read_length [where ?'a = 8, of 1 s']
    by (auto simp: variant_unserialize_def * simp del: One_nat_def split: option.splits intro: le_trans)
qed

lemma read_custom_length: "length (snd (snd (read_custom n l s))) \<le> length s"
proof (induction n l s rule: read_custom.induct)
  case (2 n l s)
  obtain k s' where k: "readString s = (k, s')" by force
  obtain v s'' where v: "variant_unserialize s' = (v, s'')" by force
  have "length s' \<le> length s" "length s'' \<le> length s'"
    using readString_length [of s] variant_unserialize_length [of s'] k v by simp_all
  then show ?case using 2 k v by (fastforce split: option.splits)
qed simp

lemma read_field_length: "length (snd (snd (read_field n f l s))) \<le> length s"
  by (auto simp: read_field_def prop_read_def)

lemma read_str_length: "length (snd (snd (read_str f l s))) \<le> length s"
  using readString_length [of s] by (auto simp: read_str_def split: prod.splits option.splits)

lemma read_skip_length: "length (snd (snd (read_skip n l s))) \<le> length s"
  by (auto simp: read_skip_def prop_skip_def)

lemma read_customs_length:
  "length (snd (snd (case prop_read 8 s of (None, s) \<Rightarrow> (ATTR_READ_ERROR, l, s)
      | (Some (n :: u64), s) \<Rightarrow> read_custom (unat n) l s))) \<le> length s"
  using prop_read_length [where ?'a = 64, of 8 s]
  by (auto split: prod.splits option.splits intro: le_trans [OF read_custom_length])

lemma readAttr_length: "length (snd (snd (readAttr T attr l s))) \<le> length s"
  unfolding readAttr_def
  by (simp add: read_field_length read_str_length read_skip_length read_customs_length)

function unserializeAttr :: "ItemTypes \<Rightarrow> loading \<Rightarrow> u8 list \<Rightarrow> bool \<times> loading \<times> u8 list" where
  "unserializeAttr T l s =
     (case prop_read 1 s of
        (None, s) \<Rightarrow> (True, l, s)
      | (Some (attr :: u8), s) \<Rightarrow>
          if attr = 0 then (True, l, s)
          else
            case readAttr T attr l s of
              (ATTR_READ_ERROR, l, s) \<Rightarrow> (False, l, s)
            | (ATTR_READ_END, l, s) \<Rightarrow> (True, l, s)
            | (ATTR_READ_CONTINUE, l, s) \<Rightarrow> unserializeAttr T l s)"
  by auto
termination
proof (relation "measure (\<lambda>(T, l, s). length s)", goal_cases)
  case (2 T l s)
  then show ?case
    using readAttr_length [of T _ l] prop_read_Some_length [of 1 s]
    by (metis case_prod_conv in_measure le_imp_less_Suc plus_1_eq_Suc add.commute snd_conv)
qed simp

declare unserializeAttr.simps [simp del]

section \<open>What an item stores\<close>

definition stored :: "ItemAttrTypes \<Rightarrow> Item \<Rightarrow> attr_value option" where
  "stored t it = (case item_attributes it of Some a \<Rightarrow> getExistingAttr t a | None \<Rightarrow> None)"

definition item_typed :: "Item \<Rightarrow> bool" where
  "item_typed it \<longleftrightarrow> (case item_attributes it of Some a \<Rightarrow> attrs_typed a | None \<Rightarrow> True)"

lemma stored_fits: "item_typed it \<Longrightarrow> single_bit t \<Longrightarrow> stored t it = Some v \<Longrightarrow> value_fits (t, v)"
  by (auto simp: stored_def item_typed_def typed_find split: option.splits)

lemma hasAttribute_stored: "item_typed it \<Longrightarrow> single_bit t \<Longrightarrow> hasAttribute t it \<longleftrightarrow> stored t it \<noteq> None"
  by (auto simp: stored_def item_typed_def hasAttribute_def attrs_typed_def attrs.has_find split: option.splits)

lemma getIntAttr_stored:
  "isIntAttrType t \<Longrightarrow> getIntAttr t it = (case stored t it of Some (IntValue n) \<Rightarrow> n | _ \<Rightarrow> 0)"
  by (simp add: getIntAttr_def stored_def attrs_getInt_def split: option.splits)

lemma getStrAttr_stored:
  "isStrAttrType t \<Longrightarrow> getStrAttr t it = (case stored t it of Some (StrValue s) \<Rightarrow> s | _ \<Rightarrow> [])"
  by (simp add: getStrAttr_def stored_def attrs_getStr_def split: option.splits)

lemma change_stored:
  assumes "item_typed it" "single_bit t" "single_bit t'" "value_fits (t, v)"
  shows "item_typed (change_attributes (put_value t v) it)"
    and "stored t' (change_attributes (put_value t v) it) = (if t' = t then Some v else stored t' it)"
proof -
  define a where "a = (case item_attributes it of Some a \<Rightarrow> a | None \<Rightarrow> empty_attributes)"
  have a: "attrs_typed a" using assms(1) empty_typed by (auto simp: a_def item_typed_def split: option.splits)
  have "stored t' it = getExistingAttr t' a"
    by (auto simp: stored_def a_def getExistingAttr_def empty_attributes_def split: option.splits)
  moreover have "change_attributes (put_value t v) it = it\<lparr>item_attributes := Some (put_value t v a)\<rparr>"
    by (simp add: change_attributes_def a_def)
  ultimately show "item_typed (change_attributes (put_value t v) it)"
    and "stored t' (change_attributes (put_value t v) it) = (if t' = t then Some v else stored t' it)"
    using a assms put_value_typed [OF a assms(2,4)] attrs.find_put [of a t t' v]
    by (simp_all add: item_typed_def stored_def attrs_typed_def)
qed

text \<open>A change of one attribute.\<close>

definition sets :: "ItemAttrTypes \<Rightarrow> attr_value \<Rightarrow> (Item \<Rightarrow> Item) \<Rightarrow> bool" where
  "sets t v f \<longleftrightarrow>
     (\<forall>x. item_typed x \<and> (t = ITEM_ATTRIBUTE_CUSTOM \<longrightarrow> stored t x = None) \<longrightarrow>
        item_typed (f x) \<and> item_id (f x) = item_id x \<and> item_count (f x) = item_count x
        \<and> (\<forall>t'. single_bit t' \<longrightarrow> stored t' (f x) = (if t' = t then Some v else stored t' x)))"

lemma setsD:
  assumes "sets t v f" "t \<noteq> ITEM_ATTRIBUTE_CUSTOM" "item_typed x"
  shows "item_typed (f x)" "item_id (f x) = item_id x" "item_count (f x) = item_count x"
    "single_bit k \<Longrightarrow> stored k (f x) = (if k = t then Some v else stored k x)"
  using assms by (auto simp: sets_def)

lemma sets_put: "single_bit t \<Longrightarrow> value_fits (t, v) \<Longrightarrow> sets t v (change_attributes (put_value t v))"
  by (simp add: sets_def change_stored) (simp add: change_attributes_def)

lemma sets_setIntAttr: "single_bit t \<Longrightarrow> isIntAttrType t \<Longrightarrow> sets t (IntValue n) (setIntAttr t n)"
  using sets_put [of t "IntValue n"] by (simp add: setIntAttr_def attrs_setInt_def [abs_def])

lemma sets_setStrAttr: "single_bit t \<Longrightarrow> isStrAttrType t \<Longrightarrow> s \<noteq> [] \<Longrightarrow> sets t (StrValue s) (setStrAttr t s)"
  using sets_put [of t "StrValue s"] by (simp add: setStrAttr_def attrs_setStr_def [abs_def])

lemma sets_setDuration:
  "sint n \<ge> 0 \<Longrightarrow> sets ITEM_ATTRIBUTE_DURATION (IntValue (ucast n)) (setDuration n)"
  unfolding setDuration_def
  using sets_setIntAttr [of ITEM_ATTRIBUTE_DURATION] single_bit_power [of 17]
  by (simp add: isIntAttrType_def int_attr_types_def)

lemma sets_setDecaying:
  "st \<noteq> DECAYING_FALSE \<Longrightarrow> sets ITEM_ATTRIBUTE_DECAYSTATE (IntValue (ucast (decay_value st))) (setDecaying st)"
  using sets_setIntAttr [of ITEM_ATTRIBUTE_DECAYSTATE "ucast (decay_value st)"] single_bit_power [of 18]
  by (simp add: setDecaying_def [abs_def] isIntAttrType_def int_attr_types_def)

lemma attr_type_bits [simp]:
  "single_bit 1" "single_bit 8" "single_bit 4" "single_bit 16" "single_bit 32" "single_bit 64" "single_bit 128" "single_bit 256"
  "single_bit 512" "single_bit 1024" "single_bit 2048" "single_bit 4096" "single_bit 8192" "single_bit 16384"
  "single_bit 32768" "single_bit 131072" "single_bit 262144" "single_bit 1048576" "single_bit 2097152"
  "single_bit 8388608" "single_bit 16777216" "single_bit 33554432" "single_bit 67108864" "single_bit 134217728"
  "single_bit 268435456" "single_bit 2147483648"
  using single_bit_power [of 0] single_bit_power [of 2] single_bit_power [of 3] single_bit_power [of 4] single_bit_power [of 5]
    single_bit_power [of 6] single_bit_power [of 7] single_bit_power [of 8] single_bit_power [of 9] single_bit_power [of 10]
    single_bit_power [of 11] single_bit_power [of 12] single_bit_power [of 13] single_bit_power [of 14] single_bit_power [of 15]
    single_bit_power [of 17] single_bit_power [of 18] single_bit_power [of 20] single_bit_power [of 21] single_bit_power [of 23]
    single_bit_power [of 24] single_bit_power [of 25] single_bit_power [of 26] single_bit_power [of 27] single_bit_power [of 28]
    single_bit_power [of 31]
  by simp_all

lemma attr_type_kinds [simp]:
  "isIntAttrType 1" "isIntAttrType 16" "isIntAttrType 512" "isIntAttrType 1024" "isIntAttrType 2048" "isIntAttrType 4096"
  "isIntAttrType 8192" "isIntAttrType 16384" "isIntAttrType 32768" "isIntAttrType 131072" "isIntAttrType 262144"
  "isIntAttrType 1048576" "isIntAttrType 2097152" "isIntAttrType 16777216" "isIntAttrType 33554432" "isIntAttrType 67108864"
  "\<not> isIntAttrType 134217728"
  "isStrAttrType 4" "isStrAttrType 8" "isStrAttrType 32" "isStrAttrType 64" "isStrAttrType 128" "isStrAttrType 256"
  "isStrAttrType 8388608" "\<not> isStrAttrType 268435456" "\<not> isIntAttrType 268435456"
  by (simp_all add: isIntAttrType_def isStrAttrType_def int_attr_types_def str_attr_types_def)

section \<open>Streams of attributes\<close>

lemma bytes_string_bytes [simp]: "bytes_string (string_bytes s) = s"
proof -
  have "char_of (unat (of_char c :: u8)) = c" for c
  proof -
    have "(of_char c :: nat) < 256" by simp
    then have "unat (of_nat (of_char c) :: u8) = of_char c" by (simp add: unat_of_nat take_bit_nat_eq_self)
    then show ?thesis by (simp add: of_nat_of_char)
  qed
  then show ?thesis by (simp add: bytes_string_def string_bytes_def comp_def)
qed

lemma length_string_bytes [simp]: "length (string_bytes s) = length s"
  by (simp add: string_bytes_def)

definition reads :: "ItemTypes \<Rightarrow> AttrTypes \<Rightarrow> u8 list \<Rightarrow> (Item \<Rightarrow> Item) \<Rightarrow> bool" where
  "reads T tag bs f \<longleftrightarrow>
     tag \<noteq> 0 \<and> (\<forall>l rest. readAttr T tag l (bs @ rest) = (ATTR_READ_CONTINUE, apfst f l, rest))"

type_synonym entry = "bool \<times> AttrTypes \<times> u8 list \<times> (Item \<Rightarrow> Item)"

definition entry_bytes :: "entry \<Rightarrow> u8 list" where
  "entry_bytes e = (case e of (c, tag, bs, f) \<Rightarrow> if c then word_bytes 1 tag @ bs else [])"

definition entry_change :: "entry \<Rightarrow> Item \<Rightarrow> Item" where
  "entry_change e = (case e of (c, tag, bs, f) \<Rightarrow> if c then f else id)"

definition entry_reads :: "ItemTypes \<Rightarrow> entry \<Rightarrow> bool" where
  "entry_reads T e \<longleftrightarrow> (case e of (c, tag, bs, f) \<Rightarrow> c \<longrightarrow> reads T tag bs f)"

lemma entry_simps:
  "entry_bytes (c, tag, bs, f) = (if c then word_bytes 1 tag @ bs else [])"
  "entry_change (c, tag, bs, f) = (if c then f else id)"
  by (simp_all add: entry_bytes_def entry_change_def)

lemma unserialize_entries:
  "list_all (entry_reads T) es \<Longrightarrow>
    unserializeAttr T l (concat (map entry_bytes es)) = (True, apfst (fold entry_change es) l, [])"
proof (induction es arbitrary: l)
  case Nil
  then show ?case by (subst unserializeAttr.simps, cases l) (simp add: prop_read_def)
next
  case (Cons e es)
  obtain c tag bs f where e: "e = (c, tag, bs, f)" by (cases e) auto
  let ?rest = "concat (map entry_bytes es)"
  show ?case
  proof (cases c)
    case True
    then have r: "tag \<noteq> 0" "readAttr T tag l (bs @ ?rest) = (ATTR_READ_CONTINUE, apfst f l, ?rest)"
      using Cons.prems by (cases l; simp add: e entry_reads_def reads_def)+
    have "unserializeAttr T l (word_bytes 1 tag @ bs @ ?rest) = unserializeAttr T (apfst f l) ?rest"
      using r s8.fetch_enc [OF TrueI, of tag "bs @ ?rest"]
      by (simp add: unserializeAttr.simps [of T l "word_bytes 1 tag @ bs @ ?rest"] del: One_nat_def)
    then show ?thesis using Cons True by (cases l) (simp add: e entry_simps)
  next
    case False
    then show ?thesis using Cons by (simp add: e entry_simps)
  qed
qed

lemma writeString_append: "writeString s b = b @ writeString s []"
  by (simp add: writeString_def prop_write_def)

lemma put_str_append: "put_str s b = b @ put_str s []"
  by (simp add: put_str_def writeString_append [of _ b])

lemma prop_write_append: "prop_write n v b = b @ prop_write n v []"
  by (simp add: prop_write_def)

lemma variant_serialize_append: "variant_serialize v b = b @ variant_serialize v []"
proof (cases v)
  case (VString s)
  then show ?thesis by (metis append.assoc put_str_append prop_write_append variant_serialize.simps(2))
qed (simp_all add: prop_write_def)

lemma custom_serialize_append: "custom_serialize m b = b @ custom_serialize m []"
proof (induction m arbitrary: b)
  case (Cons p m)
  obtain k v where p: "p = (k, v)" by force
  have "variant_serialize v (put_str k b) = b @ variant_serialize v (put_str k [])"
    using variant_serialize_append [of v "put_str k b"] variant_serialize_append [of v "put_str k []"] put_str_append [of k b]
    by simp
  then show ?case
    using Cons [of "variant_serialize v (put_str k b)"] Cons [of "variant_serialize v (put_str k [])"] p by simp
qed simp

definition attr_bytes :: "bool \<Rightarrow> AttrTypes \<Rightarrow> u8 list \<Rightarrow> u8 list" where
  "attr_bytes c tag bs = (if c then word_bytes 1 tag @ bs else [])"

lemma entry_bytes_attr: "entry_bytes (c, tag, bs, f) = attr_bytes c tag bs"
  by (simp add: entry_bytes_def attr_bytes_def)

lemma put_attr_append:
  assumes "\<And>b. w b = b @ w []"
  shows "put_attr c tag w b = b @ attr_bytes c tag (w [])"
proof -
  have "w (prop_write 1 tag b) = prop_write 1 tag b @ w []" by (rule assms)
  then show ?thesis by (simp add: put_attr_def attr_bytes_def prop_write_def)
qed

lemma put_attr_word: "put_attr c tag (prop_write n v) b = b @ attr_bytes c tag (prop_write n v [])"
  by (rule put_attr_append) (rule prop_write_append)

lemma put_attr_str: "put_attr c tag (put_str s) b = b @ attr_bytes c tag (put_str s [])"
  by (rule put_attr_append) (rule put_str_append)

lemma put_attr_custom:
  "put_attr c tag (\<lambda>b. custom_serialize m (prop_write n v b)) b =
    b @ attr_bytes c tag (custom_serialize m (prop_write n v []))"
proof (rule put_attr_append)
  fix b
  show "custom_serialize m (prop_write n v b) = b @ custom_serialize m (prop_write n v [])"
    using custom_serialize_append [of m "prop_write n v b"] custom_serialize_append [of m "prop_write n v []"]
    by (simp add: prop_write_def)
qed

definition customs :: "Item \<Rightarrow> CustomAttributeMap" where
  "customs it = (case stored ITEM_ATTRIBUTE_CUSTOM it of Some (CustomValue m) \<Rightarrow> m | _ \<Rightarrow> [])"

lemma customs_map:
  "(case item_attributes it of Some a \<Rightarrow> (case custom_map a of Some m \<Rightarrow> m | None \<Rightarrow> []) | None \<Rightarrow> []) = customs it"
  by (auto simp: customs_def custom_map_def stored_def split: option.splits attr_value.splits)

definition set_customs :: "CustomAttributeMap \<Rightarrow> Item \<Rightarrow> Item" where
  "set_customs m = fold (\<lambda>(k, v). setCustomAttribute k v) m"

text \<open>The attributes that \<^verbatim>\<open>serializeAttr\<close> writes, in its order, with what reading them back does.\<close>

definition subtype_entries :: "ItemTypes \<Rightarrow> Item \<Rightarrow> entry list" where
  "subtype_entries T it =
     (let t = T (item_id it); n = ucast (getSubType T it) :: u8 in
      [(type_stackable t \<or> type_fluid t \<or> type_splash t, ATTR_COUNT, prop_write 1 n [], setSubType T (ucast n)),
       (getCharges it \<noteq> 0, ATTR_CHARGES, prop_write 2 (getCharges it) [], setSubType T (getCharges it))])"

definition int_entry :: "AttrTypes \<Rightarrow> ItemAttrTypes \<Rightarrow> nat \<Rightarrow> (u64 \<Rightarrow> 'w::len word) \<Rightarrow> ('w word \<Rightarrow> u64) \<Rightarrow> Item \<Rightarrow> entry" where
  "int_entry tag t n shrink grow it =
     (hasAttribute t it, tag, prop_write n (shrink (getIntAttr t it)) [], setIntAttr t (grow (shrink (getIntAttr t it))))"

definition str_entry :: "AttrTypes \<Rightarrow> ItemAttrTypes \<Rightarrow> Item \<Rightarrow> entry" where
  "str_entry tag t it = (hasAttribute t it, tag, put_str (getStrAttr t it) [], setStrAttr t (getStrAttr t it))"

definition text_entry :: "AttrTypes \<Rightarrow> ItemAttrTypes \<Rightarrow> Item \<Rightarrow> entry" where
  "text_entry tag t it = (getStrAttr t it \<noteq> [], tag, put_str (getStrAttr t it) [], setStrAttr t (getStrAttr t it))"

abbreviation s32_entry :: "AttrTypes \<Rightarrow> ItemAttrTypes \<Rightarrow> Item \<Rightarrow> entry" where
  "s32_entry tag t \<equiv> int_entry tag t 4 (ucast :: u64 \<Rightarrow> u32) scast"

abbreviation u32_entry :: "AttrTypes \<Rightarrow> ItemAttrTypes \<Rightarrow> Item \<Rightarrow> entry" where
  "u32_entry tag t \<equiv> int_entry tag t 4 (ucast :: u64 \<Rightarrow> u32) ucast"

abbreviation s8_entry :: "AttrTypes \<Rightarrow> ItemAttrTypes \<Rightarrow> Item \<Rightarrow> entry" where
  "s8_entry tag t \<equiv> int_entry tag t 1 (ucast :: u64 \<Rightarrow> u8) scast"

abbreviation u8_entry :: "AttrTypes \<Rightarrow> ItemAttrTypes \<Rightarrow> Item \<Rightarrow> entry" where
  "u8_entry tag t \<equiv> int_entry tag t 1 (ucast :: u64 \<Rightarrow> u8) ucast"

definition attr_entries :: "ItemTypes \<Rightarrow> u64 \<Rightarrow> Item \<Rightarrow> (ItemAttrTypes \<times> entry) list" where
  "attr_entries T now it =
     [(ITEM_ATTRIBUTE_ACTIONID, type_moveable (T (item_id it)) \<and> getActionId it \<noteq> 0, ATTR_ACTION_ID,
         prop_write 2 (getActionId it) [], setActionId (getActionId it)),
      (ITEM_ATTRIBUTE_TEXT, text_entry ATTR_TEXT ITEM_ATTRIBUTE_TEXT it),
      (ITEM_ATTRIBUTE_DATE, getIntAttr ITEM_ATTRIBUTE_DATE it \<noteq> 0, ATTR_WRITTENDATE,
         prop_write 4 (ucast (getIntAttr ITEM_ATTRIBUTE_DATE it) :: u32) [],
         setIntAttr ITEM_ATTRIBUTE_DATE (scast (ucast (getIntAttr ITEM_ATTRIBUTE_DATE it) :: u32))),
      (ITEM_ATTRIBUTE_WRITER, text_entry ATTR_WRITTENBY ITEM_ATTRIBUTE_WRITER it),
      (ITEM_ATTRIBUTE_DESCRIPTION, text_entry ATTR_DESC ITEM_ATTRIBUTE_DESCRIPTION it),
      (ITEM_ATTRIBUTE_DURATION, hasAttribute ITEM_ATTRIBUTE_DURATION it, ATTR_DURATION,
         prop_write 4 (getDuration now it) [], setDuration (getDuration now it)),
      (ITEM_ATTRIBUTE_DECAYSTATE, getDecaying it = 1 \<or> getDecaying it = 2, ATTR_DECAYING_STATE,
         prop_write 1 (getDecaying it) [], setDecaying DECAYING_PENDING),
      (ITEM_ATTRIBUTE_NAME, str_entry ATTR_NAME ITEM_ATTRIBUTE_NAME it),
      (ITEM_ATTRIBUTE_ARTICLE, str_entry ATTR_ARTICLE ITEM_ATTRIBUTE_ARTICLE it),
      (ITEM_ATTRIBUTE_PLURALNAME, str_entry ATTR_PLURALNAME ITEM_ATTRIBUTE_PLURALNAME it),
      (ITEM_ATTRIBUTE_WEIGHT, u32_entry ATTR_WEIGHT ITEM_ATTRIBUTE_WEIGHT it),
      (ITEM_ATTRIBUTE_ATTACK, s32_entry ATTR_ATTACK ITEM_ATTRIBUTE_ATTACK it),
      (ITEM_ATTRIBUTE_DEFENSE, s32_entry ATTR_DEFENSE ITEM_ATTRIBUTE_DEFENSE it),
      (ITEM_ATTRIBUTE_EXTRADEFENSE, s32_entry ATTR_EXTRADEFENSE ITEM_ATTRIBUTE_EXTRADEFENSE it),
      (ITEM_ATTRIBUTE_IMBUEMENT_SLOT, s32_entry ATTR_IMBUEMENT_SLOT ITEM_ATTRIBUTE_IMBUEMENT_SLOT it),
      (ITEM_ATTRIBUTE_OPENCONTAINER, u8_entry ATTR_OPENCONTAINER ITEM_ATTRIBUTE_OPENCONTAINER it),
      (ITEM_ATTRIBUTE_ARMOR, s32_entry ATTR_ARMOR ITEM_ATTRIBUTE_ARMOR it),
      (ITEM_ATTRIBUTE_HITCHANCE, s8_entry ATTR_HITCHANCE ITEM_ATTRIBUTE_HITCHANCE it),
      (ITEM_ATTRIBUTE_SHOOTRANGE, u8_entry ATTR_SHOOTRANGE ITEM_ATTRIBUTE_SHOOTRANGE it),
      (ITEM_ATTRIBUTE_SPECIAL, str_entry ATTR_SPECIAL ITEM_ATTRIBUTE_SPECIAL it),
      (ITEM_ATTRIBUTE_CUSTOM, hasAttribute ITEM_ATTRIBUTE_CUSTOM it, ATTR_CUSTOM_ATTRIBUTES,
         custom_serialize (customs it) (prop_write 8 (of_nat (length (customs it)) :: u64) []), set_customs (customs it)),
      (ITEM_ATTRIBUTE_QUICKLOOTCONTAINER, u32_entry ATTR_QUICKLOOTCONTAINER ITEM_ATTRIBUTE_QUICKLOOTCONTAINER it),
      (ITEM_ATTRIBUTE_IMBUEMENT_TYPE, str_entry ATTR_IMBUEMENT_TYPE ITEM_ATTRIBUTE_IMBUEMENT_TYPE it)]"

lemma serializeAttr_entries:
  "serializeAttr T now it [] =
    concat (map entry_bytes (subtype_entries T it @ map snd (attr_entries T now it)))"
  unfolding serializeAttr_def subtype_entries_def attr_entries_def Let_def customs_map
    put_attr_word put_attr_str put_attr_custom int_entry_def str_entry_def text_entry_def decay_value.simps
  by (simp add: entry_bytes_attr del: One_nat_def)

section \<open>Items that survive saving\<close>

fun variant_saved :: "variant \<Rightarrow> bool" where
  "variant_saved VBlank \<longleftrightarrow> False"
| "variant_saved (VString s) \<longleftrightarrow> length s \<le> 65535"
| "variant_saved _ \<longleftrightarrow> True"

definition custom_saved :: "CustomAttributeMap \<Rightarrow> bool" where
  "custom_saved m \<longleftrightarrow> m \<noteq> [] \<and> length m < 2 ^ 64 \<and> list_all (\<lambda>(k, v). length k \<le> 65535 \<and> variant_saved v) m"

text \<open>The values that fit the width with which their attribute is written.\<close>

fun value_saved :: "ItemAttrTypes \<times> attr_value \<Rightarrow> bool" where
  "value_saved (t, IntValue n) \<longleftrightarrow>
     (if t \<in> {ITEM_ATTRIBUTE_ATTACK, ITEM_ATTRIBUTE_DEFENSE, ITEM_ATTRIBUTE_EXTRADEFENSE,
              ITEM_ATTRIBUTE_IMBUEMENT_SLOT, ITEM_ATTRIBUTE_ARMOR} then scast (ucast n :: u32) = n
      else if t = ITEM_ATTRIBUTE_DATE then scast (ucast n :: u32) = n \<and> n \<noteq> 0
      else if t = ITEM_ATTRIBUTE_HITCHANCE then scast (ucast n :: u8) = n
      else if t \<in> {ITEM_ATTRIBUTE_WEIGHT, ITEM_ATTRIBUTE_QUICKLOOTCONTAINER} then ucast (ucast n :: u32) = n
      else if t \<in> {ITEM_ATTRIBUTE_OPENCONTAINER, ITEM_ATTRIBUTE_SHOOTRANGE, ITEM_ATTRIBUTE_FLUIDTYPE} then
        ucast (ucast n :: u8) = n
      else if t = ITEM_ATTRIBUTE_DURATION then n < 2 ^ 31
      else if t = ITEM_ATTRIBUTE_ACTIONID then 100 \<le> n \<and> n < 2 ^ 16
      else if t = ITEM_ATTRIBUTE_CHARGES then n \<noteq> 0 \<and> n < 2 ^ 16
      else if t = ITEM_ATTRIBUTE_DECAYSTATE then n = ucast (decay_value DECAYING_PENDING)
      else True)"
| "value_saved (t, StrValue s) \<longleftrightarrow> length s \<le> 65535"
| "value_saved (t, CustomValue m) \<longleftrightarrow> custom_saved m"
| "value_saved (t, ZeroValue) \<longleftrightarrow> True"

text \<open>
  An item whose attributes are the ones that its type writes and reads again: charges on types with
  charges that do not stack, a fluid on fluid containers and splashes, a duration where the type has one.
\<close>

definition saveable :: "ItemTypes \<Rightarrow> Item \<Rightarrow> bool" where
  "saveable T it \<longleftrightarrow>
     (let t = T (item_id it); fluid = type_fluid t \<or> type_splash t in
      (case item_attributes it of Some a \<Rightarrow> list_all value_saved (attr_list a) | None \<Rightarrow> True) \<and>
      (hasAttribute ITEM_ATTRIBUTE_ACTIONID it \<longrightarrow> type_moveable t) \<and>
      (hasAttribute ITEM_ATTRIBUTE_FLUIDTYPE it \<longleftrightarrow> fluid) \<and>
      (hasAttribute ITEM_ATTRIBUTE_CHARGES it \<longleftrightarrow> \<not> fluid \<and> \<not> type_stackable t \<and> type_charges t \<noteq> 0) \<and>
      (type_decayTime t * 1000 \<noteq> 0 \<longrightarrow> hasAttribute ITEM_ATTRIBUTE_DURATION it) \<and>
      (fluid \<or> \<not> type_stackable t \<longrightarrow> item_count it = 1))"

definition saved_types :: "ItemAttrTypes list" where
  "saved_types =
     [ITEM_ATTRIBUTE_CHARGES, ITEM_ATTRIBUTE_FLUIDTYPE, ITEM_ATTRIBUTE_ACTIONID, ITEM_ATTRIBUTE_TEXT, ITEM_ATTRIBUTE_DATE,
      ITEM_ATTRIBUTE_WRITER, ITEM_ATTRIBUTE_DESCRIPTION, ITEM_ATTRIBUTE_DURATION, ITEM_ATTRIBUTE_DECAYSTATE,
      ITEM_ATTRIBUTE_NAME, ITEM_ATTRIBUTE_ARTICLE, ITEM_ATTRIBUTE_PLURALNAME, ITEM_ATTRIBUTE_WEIGHT, ITEM_ATTRIBUTE_ATTACK,
      ITEM_ATTRIBUTE_DEFENSE, ITEM_ATTRIBUTE_EXTRADEFENSE, ITEM_ATTRIBUTE_IMBUEMENT_SLOT, ITEM_ATTRIBUTE_OPENCONTAINER,
      ITEM_ATTRIBUTE_ARMOR, ITEM_ATTRIBUTE_HITCHANCE, ITEM_ATTRIBUTE_SHOOTRANGE, ITEM_ATTRIBUTE_SPECIAL,
      ITEM_ATTRIBUTE_CUSTOM, ITEM_ATTRIBUTE_QUICKLOOTCONTAINER]"

lemma stored_saved:
  "saveable T it \<Longrightarrow> item_typed it \<Longrightarrow> single_bit t \<Longrightarrow> stored t it = Some v \<Longrightarrow> value_saved (t, v)"
  by (auto simp: saveable_def stored_def item_typed_def attrs_typed_def getExistingAttr_map_of list_all_iff Let_def
        dest!: map_of_SomeD split: option.splits)

lemma reads_word8:
  "readAttr T tag = read_field 1 g \<Longrightarrow> tag \<noteq> 0 \<Longrightarrow> (\<And>l. g v l = apfst f l) \<Longrightarrow> reads T tag (prop_write 1 (v :: u8) []) f"
  using s8.fetch_enc [OF TrueI, of v] by (simp add: reads_def read_field_def prop_write_def del: One_nat_def)

lemma reads_word16:
  "readAttr T tag = read_field 2 g \<Longrightarrow> tag \<noteq> 0 \<Longrightarrow> (\<And>l. g v l = apfst f l) \<Longrightarrow> reads T tag (prop_write 2 (v :: u16) []) f"
  using s16.fetch_enc [OF TrueI, of v] by (simp add: reads_def read_field_def prop_write_def)

lemma reads_word32:
  "readAttr T tag = read_field 4 g \<Longrightarrow> tag \<noteq> 0 \<Longrightarrow> (\<And>l. g v l = apfst f l) \<Longrightarrow> reads T tag (prop_write 4 (v :: u32) []) f"
  using s32.fetch_enc [OF TrueI, of v] by (simp add: reads_def read_field_def prop_write_def)

lemma put_str_enc: "length s \<le> 65535 \<Longrightarrow> put_str s [] = str_enc (string_bytes s)"
  using sstr.put_enc [of "string_bytes s" "[]"] by (simp add: put_str_def)

lemma readString_put_str: "length s \<le> 65535 \<Longrightarrow> readString (put_str s [] @ rest) = (Some (string_bytes s), rest)"
  using sstr.fetch_enc [of "string_bytes s" rest] by (simp add: put_str_enc)

lemma reads_string:
  "readAttr T tag = read_str (\<lambda>v. apfst (g v)) \<Longrightarrow> tag \<noteq> 0 \<Longrightarrow> length s \<le> 65535 \<Longrightarrow> reads T tag (put_str s []) (g s)"
  by (simp add: reads_def read_str_def readString_put_str)

lemma variant_roundtrip:
  "variant_saved v \<Longrightarrow> variant_unserialize (variant_serialize v [] @ rest) = (Some v, rest)"
proof (cases v)
  case (VString x)
  assume "variant_saved v"
  then have "readString (put_str x [] @ rest) = (Some (string_bytes x), rest)"
    using VString by (simp add: readString_put_str)
  then show ?thesis
    using s8.fetch_enc [OF TrueI, of 1 "put_str x [] @ rest"] put_str_append [of x "prop_write 1 (1 :: u8) []"]
    by (simp add: VString variant_unserialize_def prop_write_def del: One_nat_def)
next
  case (VInt n)
  then show ?thesis
    using s8.fetch_enc [OF TrueI, of 2 "prop_write 8 n [] @ rest"] s64.fetch_enc [OF TrueI, of n rest]
    by (simp add: variant_unserialize_def prop_write_def del: One_nat_def)
next
  case (VDouble n)
  then show ?thesis
    using s8.fetch_enc [OF TrueI, of 3 "prop_write 8 n [] @ rest"] s64.fetch_enc [OF TrueI, of n rest]
    by (simp add: variant_unserialize_def prop_write_def del: One_nat_def)
next
  case (VBool b)
  let ?n = "if b then 1 else 0 :: u8"
  show ?thesis
    using s8.fetch_enc [OF TrueI, of 4 "prop_write 1 ?n [] @ rest"] s8.fetch_enc [OF TrueI, of ?n rest]
    by (simp add: VBool variant_unserialize_def prop_write_def del: One_nat_def)
qed simp

lemma customs_roundtrip:
  "list_all (\<lambda>(k, v). length k \<le> 65535 \<and> variant_saved v) m \<Longrightarrow>
    read_custom (length m) l (custom_serialize m [] @ rest) = (ATTR_READ_CONTINUE, apfst (set_customs m) l, rest)"
proof (induction m arbitrary: l)
  case Nil
  then show ?case by (cases l) (simp add: set_customs_def)
next
  case (Cons p m)
  obtain k v where p: "p = (k, v)" by force
  have "custom_serialize (p # m) [] = put_str k [] @ variant_serialize v [] @ custom_serialize m []"
    using custom_serialize_append [of m "variant_serialize v (put_str k [])"] variant_serialize_append [of v "put_str k []"] p
    by simp
  then show ?case using Cons p
    by (cases l) (simp add: readString_put_str variant_roundtrip set_customs_def)
qed

lemma setCustomAttribute_put:
  assumes "toLowerCaseString k = k" and "k \<notin> fst ` set (customs it)" and "item_typed it"
  shows "setCustomAttribute k v it =
    change_attributes (put_value ITEM_ATTRIBUTE_CUSTOM (CustomValue (customs it @ [(k, v)]))) it"
proof -
  define a where "a = (case item_attributes it of Some a \<Rightarrow> a | None \<Rightarrow> empty_attributes)"
  have "(case custom_map a of Some m \<Rightarrow> m | None \<Rightarrow> []) = customs it"
    by (auto simp: a_def customs_def stored_def custom_map_def getExistingAttr_def empty_attributes_def attrs_has_def
          split: option.splits attr_value.splits)
  moreover have "erase_key k (customs it) = customs it"
    using assms(2) by (auto simp: erase_key_def filter_id_conv image_iff)
  ultimately have "(case custom_map a of Some m \<Rightarrow> erase_key (asLowerCaseString k) m | None \<Rightarrow> []) = customs it"
    using assms(1) by (auto simp: asLowerCaseString_def split: option.splits)
  then have "attrs_setCustom k v a = put_value ITEM_ATTRIBUTE_CUSTOM (CustomValue (customs it @ [(k, v)])) a"
    by (simp add: attrs_setCustom_def assms(1))
  then show ?thesis by (simp add: setCustomAttribute_def change_attributes_def a_def)
qed

lemma set_customs_step:
  assumes "item_typed x" "custom_ok (customs x @ m)" "m \<noteq> []"
  shows "item_typed (set_customs m x) \<and> item_id (set_customs m x) = item_id x \<and> item_count (set_customs m x) = item_count x
    \<and> (\<forall>t'. single_bit t' \<longrightarrow> stored t' (set_customs m x) =
         (if t' = ITEM_ATTRIBUTE_CUSTOM then Some (CustomValue (customs x @ m)) else stored t' x))"
  using assms
proof (induction m arbitrary: x)
  case (Cons p m)
  obtain k v where p: "p = (k, v)" by force
  let ?y = "change_attributes (put_value ITEM_ATTRIBUTE_CUSTOM (CustomValue (customs x @ [(k, v)]))) x"
  have ok: "custom_ok (customs x @ [(k, v)])" using Cons.prems(2) p by (auto simp: custom_ok_def)
  then have fits: "value_fits (ITEM_ATTRIBUTE_CUSTOM, CustomValue (customs x @ [(k, v)]))" by simp
  have y: "setCustomAttribute k v x = ?y"
    using ok Cons.prems(1) by (intro setCustomAttribute_put) (auto simp: custom_ok_def)
  note st1 = change_stored(1) [OF Cons.prems(1) single_custom single_custom fits]
    and st2 = change_stored(2) [OF Cons.prems(1) single_custom _ fits]
  have c: "customs ?y = customs x @ [(k, v)]" by (simp add: customs_def [of ?y] st2)
  have same: "item_id ?y = item_id x" "item_count ?y = item_count x" by (simp_all add: change_attributes_def)
  show ?case
  proof (cases "m = []")
    case True
    then show ?thesis using st1 st2 same by (simp add: set_customs_def p y)
  next
    case False
    have "custom_ok (customs ?y @ m)" using Cons.prems(2) p c by simp
    from Cons.IH [OF st1 this False] show ?thesis
      using st2 same c by (simp add: set_customs_def p y)
  qed
qed simp

lemma sets_customs: "custom_ok m \<Longrightarrow> m \<noteq> [] \<Longrightarrow> sets ITEM_ATTRIBUTE_CUSTOM (CustomValue m) (set_customs m)"
  using set_customs_step [of _ m] by (simp add: sets_def customs_def)

definition restores :: "Item \<Rightarrow> ItemAttrTypes \<times> entry \<Rightarrow> bool" where
  "restores it e \<longleftrightarrow> single_bit (fst e) \<and>
     (case e of (t, c, tag, bs, f) \<Rightarrow>
        if c then (\<exists>v. stored t it = Some v \<and> sets t v f) else stored t it = None)"

lemma fold_restores:
  assumes "distinct (map fst es)" "list_all (restores it) es" "item_typed x"
    and "ITEM_ATTRIBUTE_CUSTOM \<in> fst ` set es \<longrightarrow> stored ITEM_ATTRIBUTE_CUSTOM x = None"
  defines "y \<equiv> fold entry_change (map snd es) x"
  shows "item_typed y \<and> item_id y = item_id x \<and> item_count y = item_count x \<and>
    (\<forall>t. single_bit t \<longrightarrow> stored t y = (if t \<in> fst ` set es \<and> stored t it \<noteq> None then stored t it else stored t x))"
  using assms(1-4) unfolding y_def
proof (induction es arbitrary: x)
  case (Cons e es)
  obtain t c tag bs f where e: "e = (t, c, tag, bs, f)" by (metis prod_cases5)
  show ?case
  proof (cases c)
    case True
    then obtain v where v: "stored t it = Some v" "sets t v f" using Cons.prems(2) by (auto simp: restores_def e)
    then have f: "item_typed (f x)" "item_id (f x) = item_id x" "item_count (f x) = item_count x"
      "\<And>t'. single_bit t' \<Longrightarrow> stored t' (f x) = (if t' = t then Some v else stored t' x)"
      using Cons.prems(3,4) by (auto simp: sets_def e)
    have "ITEM_ATTRIBUTE_CUSTOM \<in> fst ` set es \<longrightarrow> stored ITEM_ATTRIBUTE_CUSTOM (f x) = None"
      using Cons.prems(1,4) f(4) [OF single_custom] by (auto simp: e)
    with Cons.IH [of "f x"] Cons.prems(1,2) f v(1) show ?thesis
      by (auto simp: e entry_simps True)
  next
    case False
    then have "stored t it = None" using Cons.prems(2) by (auto simp: restores_def e)
    with Cons.IH [of x] Cons.prems show ?thesis by (auto simp: e entry_simps False)
  qed
qed simp

lemma stored_int:
  assumes "item_typed it" "single_bit t" "isIntAttrType t"
  shows "stored t it = None \<and> getIntAttr t it = 0 \<and> \<not> hasAttribute t it \<or>
    stored t it = Some (IntValue (getIntAttr t it)) \<and> hasAttribute t it"
proof (cases "stored t it")
  case None
  then show ?thesis using assms by (simp add: getIntAttr_stored hasAttribute_stored)
next
  case (Some v)
  then obtain n where "v = IntValue n"
    using stored_fits [OF assms(1,2) Some] masks_disjoint [OF assms(2)] assms(3) by (cases v) auto
  then show ?thesis using assms Some by (simp add: getIntAttr_stored hasAttribute_stored)
qed

lemma stored_str:
  assumes "item_typed it" "single_bit t" "isStrAttrType t"
  shows "stored t it = None \<and> getStrAttr t it = [] \<and> \<not> hasAttribute t it \<or>
    stored t it = Some (StrValue (getStrAttr t it)) \<and> getStrAttr t it \<noteq> [] \<and> hasAttribute t it"
proof (cases "stored t it")
  case None
  then show ?thesis using assms by (simp add: getStrAttr_stored hasAttribute_stored)
next
  case (Some v)
  then obtain s where "v = StrValue s" "s \<noteq> []"
    using stored_fits [OF assms(1,2) Some] masks_disjoint [OF assms(2)] assms(3) by (cases v) auto
  then show ?thesis using assms Some by (simp add: getStrAttr_stored hasAttribute_stored)
qed

lemma restores_int:
  assumes "saveable T it" "item_typed it" "single_bit t" "isIntAttrType t"
    and "\<And>n. value_saved (t, IntValue n) \<Longrightarrow> grow (shrink n) = n"
  shows "restores it (t, int_entry tag t k shrink grow it)"
  using stored_int [OF assms(2-4)] stored_saved [OF assms(1-3)] sets_setIntAttr [OF assms(3,4)] assms(3,5)
  by (auto simp: restores_def int_entry_def)

lemma restores_str:
  assumes "item_typed it" "single_bit t" "isStrAttrType t"
  shows "restores it (t, str_entry tag t it)" "restores it (t, text_entry tag t it)"
  using stored_str [OF assms] sets_setStrAttr [OF assms(2,3)] assms(2)
  by (auto simp: restores_def str_entry_def text_entry_def)

lemma restores_actionid:
  assumes "saveable T it" "item_typed it"
  shows "restores it (ITEM_ATTRIBUTE_ACTIONID, type_moveable (T (item_id it)) \<and> getActionId it \<noteq> 0, tag, bs,
    setActionId (getActionId it))"
proof -
  let ?n = "getIntAttr ITEM_ATTRIBUTE_ACTIONID it"
  consider "stored ITEM_ATTRIBUTE_ACTIONID it = None" "getActionId it = 0"
    | "stored ITEM_ATTRIBUTE_ACTIONID it = Some (IntValue ?n)" "type_moveable (T (item_id it))" "100 \<le> ?n" "?n < 2 ^ 16"
    using stored_int [OF assms(2), of ITEM_ATTRIBUTE_ACTIONID] stored_saved [OF assms, of ITEM_ATTRIBUTE_ACTIONID] assms(1)
    by (auto simp: getActionId_def saveable_def Let_def)
  then show ?thesis
  proof cases
    case 2
    have u: "unat (ucast ?n :: u16) = unat ?n"
      using 2(4) by (simp add: unsigned_ucast_eq take_bit_nat_eq_self word_less_nat_alt)
    then have "(ucast (ucast ?n :: u16) :: u64) = ?n" "\<not> (ucast ?n :: u16) < 100" "(ucast ?n :: u16) \<noteq> 0"
      using 2(3) by (auto simp: word_unat_eq_iff word_less_nat_alt word_le_nat_alt unsigned_ucast_eq unsigned_take_bit_eq
            take_bit_nat_eq_self)
    then show ?thesis
      using 2(1,2) sets_setIntAttr [of ITEM_ATTRIBUTE_ACTIONID ?n]
      by (auto simp: restores_def getActionId_def setActionId_def)
  qed (simp add: restores_def)
qed

lemma restores_date:
  assumes "saveable T it" "item_typed it"
  shows "restores it (ITEM_ATTRIBUTE_DATE, getIntAttr ITEM_ATTRIBUTE_DATE it \<noteq> 0, tag, bs,
    setIntAttr ITEM_ATTRIBUTE_DATE (scast (ucast (getIntAttr ITEM_ATTRIBUTE_DATE it) :: u32)))"
  using stored_int [OF assms(2), of ITEM_ATTRIBUTE_DATE] stored_saved [OF assms, of ITEM_ATTRIBUTE_DATE]
    sets_setIntAttr [of ITEM_ATTRIBUTE_DATE "getIntAttr ITEM_ATTRIBUTE_DATE it"]
  by (auto simp: restores_def)

lemma decaying_saved:
  assumes "saveable T it" "item_typed it"
  shows "stored ITEM_ATTRIBUTE_DECAYSTATE it = None \<and> getDecaying it = 0 \<or>
    stored ITEM_ATTRIBUTE_DECAYSTATE it = Some (IntValue 2) \<and> getDecaying it = 2"
  using stored_int [OF assms(2), of ITEM_ATTRIBUTE_DECAYSTATE] stored_saved [OF assms, of ITEM_ATTRIBUTE_DECAYSTATE]
  by (auto simp: getDecaying_def)

lemma restores_duration:
  assumes "saveable T it" "item_typed it"
  shows "restores it (ITEM_ATTRIBUTE_DURATION, hasAttribute ITEM_ATTRIBUTE_DURATION it, tag, bs,
    setDuration (getDuration now it))"
proof -
  let ?n = "getIntAttr ITEM_ATTRIBUTE_DURATION it"
  have d: "getDuration now it = ucast ?n" using decaying_saved [OF assms] by (auto simp: getDuration_def)
  consider "stored ITEM_ATTRIBUTE_DURATION it = None" "\<not> hasAttribute ITEM_ATTRIBUTE_DURATION it"
    | "stored ITEM_ATTRIBUTE_DURATION it = Some (IntValue ?n)" "hasAttribute ITEM_ATTRIBUTE_DURATION it" "?n < 2 ^ 31"
    using stored_int [OF assms(2), of ITEM_ATTRIBUTE_DURATION] stored_saved [OF assms, of ITEM_ATTRIBUTE_DURATION]
    by auto
  then show ?thesis
  proof cases
    case 2
    have u: "unat (ucast ?n :: u32) = unat ?n" and lt: "unat ?n < 2 ^ 31"
      using 2(3) by (simp_all add: unsigned_ucast_eq take_bit_nat_eq_self word_less_nat_alt)
    then have "(ucast (ucast ?n :: u32) :: u64) = ?n"
      by (auto simp: word_unat_eq_iff unsigned_ucast_eq unsigned_take_bit_eq take_bit_nat_eq_self)
    moreover have "sint (ucast ?n :: u32) \<ge> 0" using u lt sint_eq_unat [of "ucast ?n :: u32"] by simp
    ultimately show ?thesis
      using 2(1,2) sets_setDuration [of "ucast ?n :: u32"] by (auto simp: restores_def d)
  qed (simp add: restores_def)
qed

lemma restores_decaying:
  assumes "saveable T it" "item_typed it"
  shows "restores it (ITEM_ATTRIBUTE_DECAYSTATE, getDecaying it = 1 \<or> getDecaying it = 2, tag, bs,
    setDecaying DECAYING_PENDING)"
  using decaying_saved [OF assms] sets_setDecaying [of DECAYING_PENDING] by (auto simp: restores_def)

lemma stored_customs:
  assumes "saveable T it" "item_typed it"
  shows "stored ITEM_ATTRIBUTE_CUSTOM it = None \<and> \<not> hasAttribute ITEM_ATTRIBUTE_CUSTOM it \<or>
    stored ITEM_ATTRIBUTE_CUSTOM it = Some (CustomValue (customs it)) \<and> hasAttribute ITEM_ATTRIBUTE_CUSTOM it
      \<and> custom_ok (customs it) \<and> custom_saved (customs it)"
proof (cases "stored ITEM_ATTRIBUTE_CUSTOM it")
  case None
  then show ?thesis using assms by (simp add: hasAttribute_stored)
next
  case (Some v)
  note fits = stored_fits [OF assms(2) single_custom Some]
  then obtain m where "v = CustomValue m"
    using masks_disjoint [OF single_custom] by (cases v) auto
  then show ?thesis
    using Some fits stored_saved [OF assms single_custom Some] assms(2)
    by (simp add: hasAttribute_stored customs_def)
qed

lemma restores_customs:
  assumes "saveable T it" "item_typed it"
  shows "restores it (ITEM_ATTRIBUTE_CUSTOM, hasAttribute ITEM_ATTRIBUTE_CUSTOM it, tag, bs, set_customs (customs it))"
  using stored_customs [OF assms] sets_customs [of "customs it"] by (auto simp: restores_def custom_saved_def)

lemma stored_imbuement_type: "item_typed it \<Longrightarrow> stored ITEM_ATTRIBUTE_IMBUEMENT_TYPE it = None"
proof (rule ccontr)
  assume it: "item_typed it" and "stored ITEM_ATTRIBUTE_IMBUEMENT_TYPE it \<noteq> None"
  then obtain v where "stored ITEM_ATTRIBUTE_IMBUEMENT_TYPE it = Some v" by blast
  from stored_fits [OF it _ this] show False by (cases v) auto
qed

lemma restores_imbuement_type:
  "item_typed it \<Longrightarrow> restores it (ITEM_ATTRIBUTE_IMBUEMENT_TYPE, str_entry tag ITEM_ATTRIBUTE_IMBUEMENT_TYPE it)"
  by (simp add: restores_def str_entry_def hasAttribute_stored stored_imbuement_type)

lemma attr_entries_restore:
  assumes "saveable T it" "item_typed it"
  shows "list_all (restores it) (attr_entries T now it)"
  unfolding attr_entries_def list.pred_inject
  by (intro conjI TrueI restores_actionid [OF assms] restores_date [OF assms] restores_duration [OF assms]
        restores_decaying [OF assms] restores_customs [OF assms] restores_int [OF assms]
        restores_imbuement_type [OF assms(2)] restores_str [OF assms(2)]) simp_all

lemmas fetch_encs = s8.fetch_enc [OF TrueI] s16.fetch_enc [OF TrueI] s32.fetch_enc [OF TrueI] s64.fetch_enc [OF TrueI]

lemma entry_reads_str:
  assumes "saveable T it" "item_typed it" "single_bit t" "isStrAttrType t" "tag \<noteq> 0"
    and "readAttr T tag = read_str (\<lambda>v. apfst (setStrAttr t v))"
  shows "entry_reads T (str_entry tag t it)" "entry_reads T (text_entry tag t it)"
proof -
  have "length (getStrAttr t it) \<le> 65535"
    using stored_str [OF assms(2-4)] stored_saved [OF assms(1-3)] by fastforce
  from reads_string [OF assms(6,5) this]
  show "entry_reads T (str_entry tag t it)" "entry_reads T (text_entry tag t it)"
    by (simp_all add: entry_reads_def str_entry_def text_entry_def)
qed

lemma entry_reads_u32:
  "readAttr T tag = read_field 4 (\<lambda>v :: u32. apfst (setIntAttr t (grow v))) \<Longrightarrow> tag \<noteq> 0 \<Longrightarrow>
    entry_reads T (int_entry tag t 4 (shrink :: u64 \<Rightarrow> u32) grow it)"
  by (simp add: entry_reads_def int_entry_def reads_word32)

lemma entry_reads_u8:
  "readAttr T tag = read_field 1 (\<lambda>v :: u8. apfst (setIntAttr t (grow v))) \<Longrightarrow> tag \<noteq> 0 \<Longrightarrow>
    entry_reads T (int_entry tag t 1 (shrink :: u64 \<Rightarrow> u8) grow it)"
  by (simp add: entry_reads_def int_entry_def reads_word8 del: One_nat_def)

lemma entry_reads_customs:
  assumes "saveable T it" "item_typed it"
  shows "entry_reads T (hasAttribute ITEM_ATTRIBUTE_CUSTOM it, ATTR_CUSTOM_ATTRIBUTES,
    custom_serialize (customs it) (prop_write 8 (of_nat (length (customs it)) :: u64) []), set_customs (customs it))"
proof -
  let ?m = "customs it" and ?n = "of_nat (length (customs it)) :: u64"
  {
    assume "hasAttribute ITEM_ATTRIBUTE_CUSTOM it"
    then have m: "custom_saved ?m" using stored_customs [OF assms] by blast
    then have n: "unat ?n = length ?m" by (simp add: custom_saved_def unat_of_nat take_bit_nat_eq_self)
    have "readAttr T ATTR_CUSTOM_ATTRIBUTES l (custom_serialize ?m (prop_write 8 ?n []) @ rest) =
        (ATTR_READ_CONTINUE, apfst (set_customs ?m) l, rest)" for l rest
      using s64.fetch_enc [OF TrueI, of ?n "custom_serialize ?m [] @ rest"] customs_roundtrip [of ?m l rest] m
        custom_serialize_append [of ?m "prop_write 8 ?n []"]
      by (simp add: readAttr_def prop_write_def n custom_saved_def)
  }
  then show ?thesis by (simp add: entry_reads_def reads_def)
qed

lemma entry_reads_imbuement_type:
  "item_typed it \<Longrightarrow> entry_reads T (str_entry tag ITEM_ATTRIBUTE_IMBUEMENT_TYPE it)"
  by (simp add: entry_reads_def str_entry_def hasAttribute_stored stored_imbuement_type)

lemma attr_entries_read:
  assumes "saveable T it" "item_typed it"
  shows "list_all (entry_reads T) (map snd (attr_entries T now it))"
  unfolding attr_entries_def list.map snd_conv list.pred_inject
proof (intro conjI TrueI entry_reads_customs [OF assms] entry_reads_imbuement_type [OF assms(2)]
    entry_reads_str [OF assms] entry_reads_u32 entry_reads_u8)
  show "entry_reads T (type_moveable (T (item_id it)) \<and> getActionId it \<noteq> 0, ATTR_ACTION_ID,
      prop_write 2 (getActionId it) [], setActionId (getActionId it))"
    by (auto simp: entry_reads_def readAttr_def intro!: reads_word16)
  show "entry_reads T (getIntAttr ITEM_ATTRIBUTE_DATE it \<noteq> 0, ATTR_WRITTENDATE,
      prop_write 4 (ucast (getIntAttr ITEM_ATTRIBUTE_DATE it) :: u32) [],
      setIntAttr ITEM_ATTRIBUTE_DATE (scast (ucast (getIntAttr ITEM_ATTRIBUTE_DATE it) :: u32)))"
    by (auto simp: entry_reads_def readAttr_def intro!: reads_word32)
  show "entry_reads T (getDecaying it = 1 \<or> getDecaying it = 2, ATTR_DECAYING_STATE,
      prop_write 1 (getDecaying it) [], setDecaying DECAYING_PENDING)"
    by (auto simp: entry_reads_def readAttr_def intro!: reads_word8 simp del: One_nat_def)
  show "entry_reads T (hasAttribute ITEM_ATTRIBUTE_DURATION it, ATTR_DURATION,
      prop_write 4 (getDuration now it) [], setDuration (getDuration now it))"
    by (auto simp: entry_reads_def readAttr_def intro!: reads_word32)
qed (simp_all add: readAttr_def)

text \<open>What the constructor has set before the stream is read.\<close>

lemma new_item_stored:
  fixes T :: ItemTypes and i :: u16
  defines "t \<equiv> T i" and "x \<equiv> new_item T i 0"
  shows "item_typed x" "item_id x = i"
    and "type_fluid t \<or> type_splash t \<or> \<not> type_stackable t \<Longrightarrow> item_count x = 1"
    and "single_bit k \<Longrightarrow> k = ITEM_ATTRIBUTE_FLUIDTYPE \<longrightarrow> \<not> (type_fluid t \<or> type_splash t) \<Longrightarrow>
      k = ITEM_ATTRIBUTE_CHARGES \<longrightarrow> type_fluid t \<or> type_splash t \<or> type_stackable t \<or> type_charges t = 0 \<Longrightarrow>
      k = ITEM_ATTRIBUTE_DURATION \<longrightarrow> type_decayTime t * 1000 = 0 \<Longrightarrow> stored k x = None"
proof -
  let ?e = "\<lparr>item_id = i, item_count = 1, item_attributes = None\<rparr>"
  let ?charged = "\<not> (type_fluid t \<or> type_splash t) \<and> \<not> type_stackable t \<and> type_charges t \<noteq> 0"
  have e: "item_typed \<lparr>item_id = i, item_count = c, item_attributes = None\<rparr>"
    "stored k \<lparr>item_id = i, item_count = c, item_attributes = None\<rparr> = None" for k c
    by (simp_all add: item_typed_def stored_def)
  define y where "y = (if type_fluid t \<or> type_splash t then setIntAttr ITEM_ATTRIBUTE_FLUIDTYPE (ucast (0 :: u16)) ?e
     else if type_stackable t then if type_charges t \<noteq> 0 then ?e\<lparr>item_count := ucast (type_charges t)\<rparr> else ?e
     else if type_charges t \<noteq> 0 then setIntAttr ITEM_ATTRIBUTE_CHARGES (ucast (ucast (type_charges t) :: u16)) ?e else ?e)"
  note fl = setsD [OF sets_setIntAttr [of ITEM_ATTRIBUTE_FLUIDTYPE "ucast (0 :: u16)"], of ?e, simplified e]
    and ch = setsD [OF sets_setIntAttr [of ITEM_ATTRIBUTE_CHARGES "ucast (ucast (type_charges t) :: u16)"], of ?e, simplified e]
  have y: "item_typed y" "item_id y = i" "type_fluid t \<or> type_splash t \<or> \<not> type_stackable t \<Longrightarrow> item_count y = 1"
    "\<And>k. single_bit k \<Longrightarrow> k = ITEM_ATTRIBUTE_FLUIDTYPE \<longrightarrow> \<not> (type_fluid t \<or> type_splash t) \<Longrightarrow>
      k = ITEM_ATTRIBUTE_CHARGES \<longrightarrow> \<not> ?charged \<Longrightarrow> stored k y = None"
    using fl ch by (auto simp: y_def e)
  have x: "x = (if type_decayTime t * 1000 \<noteq> 0 then setDuration (type_decayTime t * 1000) y else y)"
    by (simp add: x_def new_item_def y_def t_def Let_def)
  obtain n where n: "sets ITEM_ATTRIBUTE_DURATION (IntValue n) (setDuration (type_decayTime t * 1000))"
    using sets_setIntAttr [of ITEM_ATTRIBUTE_DURATION] unfolding setDuration_def by auto
  show "item_typed x" "item_id x = i" "type_fluid t \<or> type_splash t \<or> \<not> type_stackable t \<Longrightarrow> item_count x = 1"
    using y setsD [OF n _ y(1)] by (auto simp: x)
  show "single_bit k \<Longrightarrow> k = ITEM_ATTRIBUTE_FLUIDTYPE \<longrightarrow> \<not> (type_fluid t \<or> type_splash t) \<Longrightarrow>
      k = ITEM_ATTRIBUTE_CHARGES \<longrightarrow> type_fluid t \<or> type_splash t \<or> type_stackable t \<or> type_charges t = 0 \<Longrightarrow>
      k = ITEM_ATTRIBUTE_DURATION \<longrightarrow> type_decayTime t * 1000 = 0 \<Longrightarrow> stored k x = None"
    using y(4) [of k] setsD(4) [OF n _ y(1), of k] by (auto simp: x)
qed

lemma subtype_entries_read: "list_all (entry_reads T) (subtype_entries T it)"
  unfolding subtype_entries_def Let_def list.pred_inject
  by (intro conjI TrueI)
    (auto simp: entry_reads_def readAttr_def intro!: reads_word8 reads_word16 simp del: One_nat_def)

lemma count_typed [simp]: "item_typed (x\<lparr>item_count := c\<rparr>) = item_typed x" "stored k (x\<lparr>item_count := c\<rparr>) = stored k x"
  by (simp_all add: item_typed_def stored_def)

lemma narrow_fluid:
  fixes f :: u64
  assumes "ucast (ucast f :: u8) = f"
  shows "ucast (ucast (ucast (ucast f :: u16) :: u8) :: u16) = f"
proof -
  have "unat (ucast (ucast f :: u8) :: u64) < 256"
    by (simp add: unsigned_ucast_eq unsigned_take_bit_eq take_bit_nat_less_exp [of 8, simplified])
  then have "unat f < 256" by (simp add: assms)
  then show ?thesis by (simp add: word_unat_eq_iff unsigned_ucast_eq unsigned_take_bit_eq take_bit_nat_eq_self)
qed

lemma narrow_count: "ucast (ucast (ucast (ucast (c :: u8) :: u16) :: u8) :: u16) = c"
proof -
  have "unat c < 256" using unsigned_less [where ?'a = nat, of c] by simp
  then show ?thesis by (simp add: word_unat_eq_iff unsigned_ucast_eq unsigned_take_bit_eq take_bit_nat_eq_self)
qed

lemma narrow_charges: "(c :: u64) < 2 ^ 16 \<Longrightarrow> ucast (ucast c :: u16) = c"
  by (simp add: word_unat_eq_iff word_less_nat_alt unsigned_ucast_eq unsigned_take_bit_eq take_bit_nat_eq_self)

lemma subtype_restored:
  assumes save: "saveable T it" and typed: "item_typed it" and x: "item_typed x" "item_id x = item_id it"
    and one: "type_fluid (T (item_id it)) \<or> type_splash (T (item_id it)) \<or> \<not> type_stackable (T (item_id it)) \<Longrightarrow>
      item_count x = 1"
    and none: "\<And>k. k = ITEM_ATTRIBUTE_FLUIDTYPE \<or> k = ITEM_ATTRIBUTE_CHARGES \<Longrightarrow> stored k it = None \<Longrightarrow> stored k x = None"
  defines "y \<equiv> fold entry_change (subtype_entries T it) x"
  shows "item_typed y \<and> item_id y = item_id it \<and> item_count y = item_count it \<and>
    (\<forall>k. single_bit k \<longrightarrow> stored k y =
       (if k = ITEM_ATTRIBUTE_FLUIDTYPE \<or> k = ITEM_ATTRIBUTE_CHARGES then stored k it else stored k x))"
proof -
  let ?t = "T (item_id it)"
  let ?fluid = "type_fluid ?t \<or> type_splash ?t"
  let ?f = "getIntAttr ITEM_ATTRIBUTE_FLUIDTYPE it" and ?c = "getIntAttr ITEM_ATTRIBUTE_CHARGES it"
  note F = stored_int [OF typed, of ITEM_ATTRIBUTE_FLUIDTYPE, simplified]
    and C = stored_int [OF typed, of ITEM_ATTRIBUTE_CHARGES, simplified]
  have has: "hasAttribute ITEM_ATTRIBUTE_FLUIDTYPE it \<longleftrightarrow> ?fluid"
    "hasAttribute ITEM_ATTRIBUTE_CHARGES it \<longleftrightarrow> \<not> ?fluid \<and> \<not> type_stackable ?t \<and> type_charges ?t \<noteq> 0"
    "?fluid \<or> \<not> type_stackable ?t \<Longrightarrow> item_count it = 1"
    using save by (auto simp: saveable_def Let_def)
  consider (fluid) "?fluid" | (stack) "\<not> ?fluid" "type_stackable ?t"
    | (charges) "\<not> ?fluid" "\<not> type_stackable ?t" "type_charges ?t \<noteq> 0"
    | (plain) "\<not> ?fluid" "\<not> type_stackable ?t" "type_charges ?t = 0" by blast
  then show ?thesis
  proof cases
    case fluid
    have f: "stored ITEM_ATTRIBUTE_FLUIDTYPE it = Some (IntValue ?f)" "ucast (ucast ?f :: u8) = ?f"
      using F has fluid stored_saved [OF save typed, of ITEM_ATTRIBUTE_FLUIDTYPE] by auto
    have c0: "stored ITEM_ATTRIBUTE_CHARGES it = None" "getCharges it = 0"
      using C has fluid by (auto simp: getCharges_def)
    have "y = setIntAttr ITEM_ATTRIBUTE_FLUIDTYPE ?f x"
      using fluid x narrow_fluid [OF f(2)] c0
      by (auto simp: y_def subtype_entries_def entry_simps getSubType_def setSubType_def getFluidType_def Let_def)
    then show ?thesis
      using setsD [OF sets_setIntAttr [of ITEM_ATTRIBUTE_FLUIDTYPE ?f] _ x(1)] x f c0 none [of ITEM_ATTRIBUTE_CHARGES]
        one has(3) fluid by auto
  next
    case stack
    have c0: "stored ITEM_ATTRIBUTE_CHARGES it = None" "getCharges it = 0" "stored ITEM_ATTRIBUTE_FLUIDTYPE it = None"
      using C F has stack by (auto simp: getCharges_def)
    have "y = x\<lparr>item_count := item_count it\<rparr>"
      using stack x narrow_count [of "item_count it"] c0
      by (auto simp: y_def subtype_entries_def entry_simps getSubType_def setSubType_def Let_def)
    then show ?thesis
      using x c0 none by auto
  next
    case charges
    have c: "stored ITEM_ATTRIBUTE_CHARGES it = Some (IntValue ?c)" "?c < 2 ^ 16" "?c \<noteq> 0"
        "stored ITEM_ATTRIBUTE_FLUIDTYPE it = None"
      using C F has charges stored_saved [OF save typed, of ITEM_ATTRIBUTE_CHARGES] by auto
    then have "getCharges it \<noteq> 0" using narrow_charges [OF c(2)] by (auto simp: getCharges_def)
    then have "y = setIntAttr ITEM_ATTRIBUTE_CHARGES ?c x"
      using charges x narrow_charges [OF c(2)]
      by (auto simp: y_def subtype_entries_def entry_simps setSubType_def getCharges_def Let_def)
    then show ?thesis
      using setsD [OF sets_setIntAttr [of ITEM_ATTRIBUTE_CHARGES ?c] _ x(1)] x c none [of ITEM_ATTRIBUTE_FLUIDTYPE]
        one has(3) charges by auto
  next
    case plain
    have c0: "stored ITEM_ATTRIBUTE_CHARGES it = None" "getCharges it = 0" "stored ITEM_ATTRIBUTE_FLUIDTYPE it = None"
      using C F has plain by (auto simp: getCharges_def)
    have "y = x" using plain c0 by (auto simp: y_def subtype_entries_def entry_simps Let_def)
    then show ?thesis using x c0 none one has(3) plain by auto
  qed
qed

lemma attr_entries_types:
  "distinct (map fst (attr_entries T now it))"
  "k \<in> set saved_types \<longleftrightarrow> k = ITEM_ATTRIBUTE_CHARGES \<or> k = ITEM_ATTRIBUTE_FLUIDTYPE
     \<or> k \<noteq> ITEM_ATTRIBUTE_IMBUEMENT_TYPE \<and> k \<in> fst ` set (attr_entries T now it)"
  by (auto simp: attr_entries_def saved_types_def)

section \<open>Saving and loading\<close>

lemma fresh_lacks:
  assumes "saveable T it" "item_typed it" "single_bit k" "stored k it = None"
  shows "stored k (new_item T (item_id it) 0) = None"
proof -
  have "hasAttribute ITEM_ATTRIBUTE_FLUIDTYPE it \<longleftrightarrow> type_fluid (T (item_id it)) \<or> type_splash (T (item_id it))"
    "hasAttribute ITEM_ATTRIBUTE_CHARGES it \<longleftrightarrow> \<not> (type_fluid (T (item_id it)) \<or> type_splash (T (item_id it)))
       \<and> \<not> type_stackable (T (item_id it)) \<and> type_charges (T (item_id it)) \<noteq> 0"
    "type_decayTime (T (item_id it)) * 1000 \<noteq> 0 \<longrightarrow> hasAttribute ITEM_ATTRIBUTE_DURATION it"
    using assms(1) by (auto simp: saveable_def Let_def)
  then show ?thesis using assms(2-4) by (intro new_item_stored(4)) (auto simp: hasAttribute_stored)
qed

lemma same_subtype:
  assumes "item_id x = item_id y" "item_count x = item_count y"
    "stored ITEM_ATTRIBUTE_FLUIDTYPE x = stored ITEM_ATTRIBUTE_FLUIDTYPE y"
    "stored ITEM_ATTRIBUTE_CHARGES x = stored ITEM_ATTRIBUTE_CHARGES y"
  shows "getSubType T x = getSubType T y"
proof -
  have "getFluidType x = getFluidType y" "getCharges x = getCharges y"
    using assms(3,4) by (simp_all only: getFluidType_def getCharges_def getIntAttr_stored [OF attr_type_kinds(13)]
          getIntAttr_stored [OF attr_type_kinds(12)])
  then show ?thesis unfolding getSubType_def Let_def assms(1,2) by simp
qed

text \<open>
  C9. An item that is written with \<^verbatim>\<open>serializeAttr\<close> and read with \<^verbatim>\<open>unserializeAttr\<close> into an item fresh from
  the constructor comes back: reading succeeds and consumes the stream, the count is the same and so is
  every attribute of the types that are written. The hypotheses say that the values fit the widths of
  the format, that the item is not decaying, and that its subtype is stored where its type reads it.
\<close>

theorem item_stream_roundtrip:
  assumes "saveable T it" and "item_typed it"
  shows "\<exists>it'. unserializeAttr T (new_item T (item_id it) 0, uniqueItems) (serializeAttr T now it []) =
      (True, (it', uniqueItems), [])
    \<and> item_id it' = item_id it \<and> item_count it' = item_count it \<and> getSubType T it' = getSubType T it
    \<and> (\<forall>t \<in> set saved_types. stored t it' = stored t it)"
proof -
  let ?x = "new_item T (item_id it) 0"
  let ?y = "fold entry_change (subtype_entries T it) ?x"
  let ?z = "fold entry_change (map snd (attr_entries T now it)) ?y"
  have reads: "unserializeAttr T (?x, uniqueItems) (serializeAttr T now it []) = (True, (?z, uniqueItems), [])"
    unfolding serializeAttr_entries
    by (subst unserialize_entries) (simp_all add: subtype_entries_read attr_entries_read [OF assms])
  have none: "stored k ?x = None" if "single_bit k" "stored k it = None" for k
    using fresh_lacks [OF assms] that .
  have y: "item_typed ?y" "item_id ?y = item_id it" "item_count ?y = item_count it"
    "\<And>k. single_bit k \<Longrightarrow> stored k ?y =
       (if k = ITEM_ATTRIBUTE_FLUIDTYPE \<or> k = ITEM_ATTRIBUTE_CHARGES then stored k it else stored k ?x)"
  proof -
    have "k = ITEM_ATTRIBUTE_FLUIDTYPE \<or> k = ITEM_ATTRIBUTE_CHARGES \<Longrightarrow> stored k it = None \<Longrightarrow> stored k ?x = None" for k
      using none [of k] by auto
    note Y = subtype_restored [OF assms new_item_stored(1,2) new_item_stored(3) this]
    show "item_typed ?y" "item_id ?y = item_id it" "item_count ?y = item_count it"
      "\<And>k. single_bit k \<Longrightarrow> stored k ?y =
         (if k = ITEM_ATTRIBUTE_FLUIDTYPE \<or> k = ITEM_ATTRIBUTE_CHARGES then stored k it else stored k ?x)"
      using Y by blast+
  qed
  have "stored ITEM_ATTRIBUTE_CUSTOM ?y = None"
    using y(4) [OF single_custom] new_item_stored(4) [OF single_custom] by simp
  then have z: "item_typed ?z" "item_id ?z = item_id it" "item_count ?z = item_count it"
    "\<And>k. single_bit k \<Longrightarrow> stored k ?z =
      (if k \<in> fst ` set (attr_entries T now it) \<and> stored k it \<noteq> None then stored k it else stored k ?y)"
    using fold_restores [OF attr_entries_types(1) attr_entries_restore [OF assms] y(1)] y(2,3) by auto
  have saved: "stored k ?z = stored k it" if "k \<in> set saved_types" for k
  proof -
    have "single_bit k" using that by (auto simp: saved_types_def)
    then show ?thesis
      using that z(4) [of k] y(4) [of k] none [of k] attr_entries_types(2) [of k T now it] by auto
  qed
  have "getSubType T ?z = getSubType T it"
    by (rule same_subtype [OF z(2,3)]) (rule saved, simp add: saved_types_def)+
  then show ?thesis using reads z(2,3) saved by blast
qed

definition sample_type :: ItemType where
  "sample_type = \<lparr>type_stackable = False, type_fluid = False, type_splash = False, type_charges = 0, type_moveable = True,
     type_pickupable = True, type_weight = 500, type_decayTime = 0, type_decayTo = -1, type_stopTime = False,
     type_quiver = False, type_ammo = False, type_abilities = None\<rparr>"

definition sample_ops :: "attr_op list" where
  "sample_ops = [SetInt ITEM_ATTRIBUTE_ATTACK (-3), SetStr ITEM_ATTRIBUTE_NAME ''old sword'', SetInt ITEM_ATTRIBUTE_ACTIONID 2000,
     SetCustom ''Owner'' (VString ''Ann''), SetCustom ''level'' (VInt 7), Remove ITEM_ATTRIBUTE_NAME]"

definition sample_item :: Item where
  "sample_item = \<lparr>item_id = 2400, item_count = 1, item_attributes = Some (fold run_attr_op sample_ops empty_attributes)\<rparr>"

lemma sample_item_attrs:
  "sample_item = \<lparr>item_id = 2400, item_count = 1, item_attributes = Some
     \<lparr>attr_list = [(ITEM_ATTRIBUTE_ATTACK, IntValue (-3)),
        (ITEM_ATTRIBUTE_CUSTOM, CustomValue [(''owner'', VString ''Ann''), (''level'', VInt 7)]),
        (ITEM_ATTRIBUTE_ACTIONID, IntValue 2000)],
      attributeBits = ITEM_ATTRIBUTE_ATTACK OR ITEM_ATTRIBUTE_CUSTOM OR ITEM_ATTRIBUTE_ACTIONID\<rparr>\<rparr>"
  by code_simp

theorem item_stream_roundtrip_witness:
  "\<exists>it'. unserializeAttr (\<lambda>_. sample_type) (new_item (\<lambda>_. sample_type) 2400 0, [])
      (serializeAttr (\<lambda>_. sample_type) 0 sample_item []) = (True, (it', []), [])
    \<and> stored ITEM_ATTRIBUTE_ATTACK it' = Some (IntValue (-3))
    \<and> stored ITEM_ATTRIBUTE_CUSTOM it' = Some (CustomValue [(''owner'', VString ''Ann''), (''level'', VInt 7)])"
proof -
  have "item_typed sample_item"
  proof -
    have "list_all (\<lambda>p. single_bit (attr_op_type p)) sample_ops" by (simp add: sample_ops_def)
    from run_attr_ops_typed [OF empty_typed this] show ?thesis by (simp add: item_typed_def sample_item_def)
  qed
  moreover have "saveable (\<lambda>_. sample_type) sample_item"
    by (simp add: saveable_def sample_item_attrs sample_type_def hasAttribute_def attrs_has_def custom_saved_def)
  ultimately obtain it' where
    "unserializeAttr (\<lambda>_. sample_type) (new_item (\<lambda>_. sample_type) (item_id sample_item) 0, [])
      (serializeAttr (\<lambda>_. sample_type) 0 sample_item []) = (True, (it', []), [])"
    "\<forall>t \<in> set saved_types. stored t it' = stored t sample_item"
    using item_stream_roundtrip [of "\<lambda>_. sample_type" sample_item "[]" 0] by blast
  moreover have "item_id sample_item = 2400" "stored ITEM_ATTRIBUTE_ATTACK sample_item = Some (IntValue (-3))"
    "stored ITEM_ATTRIBUTE_CUSTOM sample_item = Some (CustomValue [(''owner'', VString ''Ann''), (''level'', VInt 7)])"
    "ITEM_ATTRIBUTE_ATTACK \<in> set saved_types" "ITEM_ATTRIBUTE_CUSTOM \<in> set saved_types"
    by code_simp+
  ultimately show ?thesis by metis
qed

end
