(* ===== verification/Decay.thy ===== *)
theory Decay
  imports ItemStream Scheduling
begin

text \<open>
  Decay of items (\<^verbatim>\<open>items/decay/decay.cpp\<close>, \<^verbatim>\<open>Item::canDecay\<close>): items that wait for their time are kept in
  a map from due times to lists, one scheduler event is armed for the first of them. Items are
  references into a heap. What the game does with a due item, \<^verbatim>\<open>transformItem\<close> or \<^verbatim>\<open>internalRemoveItem\<close>,
  is recorded in the order of the calls. Times are milliseconds and far below the range of \<^verbatim>\<open>int64_t\<close>.
\<close>

section \<open>State\<close>

datatype decay_effect =
    TransformItem nat int
  | RemoveItem nat
  | SetVarSkill nat nat int
  | SetVarStats nat nat int
  | SendSkills nat
  | SendStats nat

record Decay =
  decay_items :: "nat \<Rightarrow> Item"
  removed :: "nat \<Rightarrow> bool"
  holdingPlayer :: "nat \<Rightarrow> nat option"
  referenceCounter :: "nat \<Rightarrow> nat"
  toRelease :: "nat list"
  decayMap :: "(int \<times> nat list) list"
  decay_eventId :: u32
  decay_world :: world
  effects :: "decay_effect list"

definition SCHEDULER_MINTICKS :: int where "SCHEDULER_MINTICKS = 50"

text \<open>The number that stands for \<^verbatim>\<open>Decay::checkDecay\<close> among the functions of tasks.\<close>

definition CHECK_DECAY :: nat where "CHECK_DECAY = 1"

definition decay_now :: "Decay \<Rightarrow> int" where "decay_now s = clock (decay_world s)"

definition change_item :: "nat \<Rightarrow> (Item \<Rightarrow> Item) \<Rightarrow> Decay \<Rightarrow> Decay" where
  "change_item r f s = s\<lparr>decay_items := (decay_items s)(r := f (decay_items s r))\<rparr>"

definition ReleaseItem :: "nat \<Rightarrow> Decay \<Rightarrow> Decay" where
  "ReleaseItem r s = s\<lparr>toRelease := toRelease s @ [r]\<rparr>"

definition canDecay :: "ItemTypes \<Rightarrow> Decay \<Rightarrow> nat \<Rightarrow> bool" where
  "canDecay T s r =
     (let it = decay_items s r; t = T (item_id it) in
      if removed s r then False
      else if type_decayTo t < 0 \<or> type_decayTime t = 0 then False
      else if hasAttribute ITEM_ATTRIBUTE_UNIQUEID it then False
      else True)"

text \<open>\<open>decay_now\<close> as \<^verbatim>\<open>int64_t\<close>, for the accessors of items.\<close>

definition duration_left :: "Decay \<Rightarrow> nat \<Rightarrow> u32" where
  "duration_left s r = getDuration (word_of_int (decay_now s)) (decay_items s r)"

text \<open>\<^verbatim>\<open>decayMap[timestamp].push_back(item)\<close>\<close>

fun map_push :: "int \<Rightarrow> nat \<Rightarrow> (int \<times> nat list) list \<Rightarrow> (int \<times> nat list) list" where
  "map_push k r [] = [(k, [r])]"
| "map_push k r ((j, rs) # m) =
     (if k < j then (k, [r]) # (j, rs) # m
      else if k = j then (j, rs @ [r]) # m
      else (j, rs) # map_push k r m)"

definition map_put :: "int \<Rightarrow> nat list \<Rightarrow> (int \<times> nat list) list \<Rightarrow> (int \<times> nat list) list" where
  "map_put k rs m = map (\<lambda>e. if fst e = k then (k, rs) else e) m"

definition map_erase :: "int \<Rightarrow> (int \<times> nat list) list \<Rightarrow> (int \<times> nat list) list" where
  "map_erase k m = filter (\<lambda>e. fst e \<noteq> k) m"

section \<open>Operations\<close>

definition arm :: "int \<Rightarrow> Decay \<Rightarrow> Decay" where
  "arm delay s =
     (let d = max SCHEDULER_MINTICKS (sint (word_of_int delay :: u32));
          (i, w) = addEvent (createSchedulerTask (decay_now s) (word_of_int d) CHECK_DECAY) (decay_world s) in
      s\<lparr>decay_eventId := i, decay_world := w\<rparr>)"

text \<open>The change of the item when \<^verbatim>\<open>stopDecay\<close> finds it in the list of its time.\<close>

definition drop_item :: "nat \<Rightarrow> Decay \<Rightarrow> Decay" where
  "drop_item r s =
     (let s = (if hasAttribute ITEM_ATTRIBUTE_DURATION (decay_items s r)
               then change_item r (setDuration (duration_left s r)) s else s) in
      ReleaseItem r (change_item r (removeAttribute ITEM_ATTRIBUTE_DECAYSTATE) s))"

fun position :: "nat \<Rightarrow> nat list \<Rightarrow> nat option" where
  "position r [] = None"
| "position r (x # xs) = (if x = r then Some 0 else map_option Suc (position r xs))"

definition stopDecay :: "nat \<Rightarrow> Decay \<Rightarrow> Decay" where
  "stopDecay r s =
     (let it = decay_items s r in
      if \<not> hasAttribute ITEM_ATTRIBUTE_DECAYSTATE it then s
      else if hasAttribute ITEM_ATTRIBUTE_DURATION_TIMESTAMP it then
        let timestamp = sint (getIntAttr ITEM_ATTRIBUTE_DURATION_TIMESTAMP it);
            forget = change_item r (removeAttribute ITEM_ATTRIBUTE_DURATION_TIMESTAMP) in
        case map_of (decayMap s) timestamp of
          None \<Rightarrow> forget s
        | Some rs \<Rightarrow>
            if length rs = 1 then
              if rs ! 0 = r then (drop_item r s)\<lparr>decayMap := map_erase timestamp (decayMap s)\<rparr> else s
            else
              case position r rs of
                Some i \<Rightarrow> (drop_item r s)\<lparr>decayMap := map_put timestamp (butlast (rs[i := last rs])) (decayMap s)\<rparr>
              | None \<Rightarrow> forget s
      else change_item r (removeAttribute ITEM_ATTRIBUTE_DECAYSTATE) s)"

text \<open>
  A player who holds the item loses what it gave. \<open>percent player stat p\<close> is the value of
  \<^verbatim>\<open>static_cast<int32_t>(player->getDefaultStats(stat) * ((p - 100) / 100.f))\<close>.
\<close>

type_synonym percent_of = "nat \<Rightarrow> nat \<Rightarrow> int \<Rightarrow> int"

definition player_effects :: "percent_of \<Rightarrow> nat \<Rightarrow> Abilities option \<Rightarrow> decay_effect list" where
  "player_effects percent p abilities =
     (case abilities of
        None \<Rightarrow> []
      | Some a \<Rightarrow>
          let sk = filter (\<lambda>i. ability_skills a i \<noteq> 0) [0..<13];
              st = [0..<5] in
          map (\<lambda>i. SetVarSkill p i (- ability_skills a i)) sk
          @ (if sk \<noteq> [] then [SendSkills p] else [])
          @ concat (map (\<lambda>i.
              (if ability_stats a i \<noteq> 0 then [SetVarStats p i (- ability_stats a i)] else [])
              @ (if ability_statsPercent a i \<noteq> 0 then [SetVarStats p i (- percent p i (ability_statsPercent a i))] else [])) st)
          @ (if \<exists>i \<in> set st. ability_stats a i \<noteq> 0 \<or> ability_statsPercent a i \<noteq> 0 then [SendStats p] else [])
          @ (if sk \<noteq> [] \<or> (\<exists>i \<in> set st. ability_stats a i \<noteq> 0) then [SendSkills p] else []))"

definition internalDecayItem :: "percent_of \<Rightarrow> ItemTypes \<Rightarrow> nat \<Rightarrow> Decay \<Rightarrow> Decay" where
  "internalDecayItem P T r s =
     (let t = T (item_id (decay_items s r)) in
      s\<lparr>effects := effects s @
         (if type_decayTo t \<noteq> 0 then
            (case holdingPlayer s r of Some p \<Rightarrow> player_effects P p (type_abilities t) | None \<Rightarrow> [])
            @ [TransformItem r (type_decayTo t)]
          else [RemoveItem r])\<rparr>)"

definition startDecay :: "percent_of \<Rightarrow> ItemTypes \<Rightarrow> nat \<Rightarrow> Decay \<Rightarrow> Decay" where
  "startDecay P T r s =
     (let it = decay_items s r; decayState = getDecaying it in
      if decayState = decay_value DECAYING_STOPPING \<or> \<not> canDecay T s r \<and> decayState = decay_value DECAYING_TRUE then
        stopDecay r s
      else if \<not> canDecay T s r \<or> decayState = decay_value DECAYING_TRUE then s
      else
        let duration = sint (getIntAttr ITEM_ATTRIBUTE_DURATION it) in
        if duration \<le> 0 \<and> hasAttribute ITEM_ATTRIBUTE_DURATION it then internalDecayItem P T r s
        else if duration > 0 then
          let s = (if hasAttribute ITEM_ATTRIBUTE_DURATION_TIMESTAMP it then stopDecay r s else s);
              timestamp = decay_now s + duration;
              s = (case decayMap s of
                     [] \<Rightarrow> arm duration s
                   | (k, _) # _ \<Rightarrow>
                       if timestamp < k then
                         arm duration (s\<lparr>decay_world := snd (stopEvent (decay_eventId s) (decay_world s))\<rparr>)
                       else s);
              s = s\<lparr>referenceCounter := (referenceCounter s)(r := referenceCounter s r + 1)\<rparr>;
              s = change_item r (setDurationTimestamp (word_of_int timestamp) \<circ> setDecaying DECAYING_TRUE) s in
          s\<lparr>decayMap := map_push timestamp r (decayMap s)\<rparr>
        else s)"

text \<open>The loop of \<^verbatim>\<open>checkDecay\<close> over the items whose time has come.\<close>

definition check_item :: "percent_of \<Rightarrow> ItemTypes \<Rightarrow> nat \<Rightarrow> Decay \<Rightarrow> Decay" where
  "check_item P T r s =
     ReleaseItem r
       (if \<not> canDecay T s r then
          change_item r (setDecaying DECAYING_FALSE \<circ> setDuration (duration_left s r)) s
        else internalDecayItem P T r (change_item r (setDecaying DECAYING_FALSE) s))"

definition checkDecay :: "percent_of \<Rightarrow> ItemTypes \<Rightarrow> Decay \<Rightarrow> Decay" where
  "checkDecay P T s =
     (let timestamp = decay_now s;
          due = takeWhile (\<lambda>e. fst e \<le> timestamp) (decayMap s);
          rest = dropWhile (\<lambda>e. fst e \<le> timestamp) (decayMap s);
          s = fold (check_item P T) (concat (map snd due)) (s\<lparr>decayMap := rest\<rparr>) in
      case rest of
        [] \<Rightarrow> s
      | (k, _) # _ \<Rightarrow> arm (k - timestamp) s)"

section \<open>Items in the heap stay typed\<close>

lemma stored_timestamp: "item_typed it \<Longrightarrow> stored ITEM_ATTRIBUTE_DURATION_TIMESTAMP it = None"
proof (rule ccontr)
  assume it: "item_typed it" and "stored ITEM_ATTRIBUTE_DURATION_TIMESTAMP it \<noteq> None"
  then obtain v where "stored ITEM_ATTRIBUTE_DURATION_TIMESTAMP it = Some v" by blast
  from stored_fits [OF it _ this] show False
    by (cases v) (auto simp: isIntAttrType_def isStrAttrType_def int_attr_types_def str_attr_types_def)
qed

lemma no_timestamp: "item_typed it \<Longrightarrow> \<not> hasAttribute ITEM_ATTRIBUTE_DURATION_TIMESTAMP it"
  by (simp add: hasAttribute_stored stored_timestamp)

lemma setIntAttr_other: "\<not> isIntAttrType t \<Longrightarrow> setIntAttr t v it = change_attributes id it"
  by (simp add: setIntAttr_def attrs_setInt_def [abs_def] id_def)

lemma change_id:
  "item_typed it \<Longrightarrow> item_typed (change_attributes id it)" "item_id (change_attributes id it) = item_id it"
  "stored k (change_attributes id it) = stored k it"
  by (auto simp: change_attributes_def item_typed_def stored_def empty_typed split: option.splits)
    (simp add: empty_attributes_def getExistingAttr_def)

lemma removeAttribute_stored:
  assumes "item_typed it" "single_bit t"
  shows "item_typed (removeAttribute t it)" "item_id (removeAttribute t it) = item_id it"
    "single_bit k \<Longrightarrow> stored k (removeAttribute t it) = (if k = t then None else stored k it)"
  using assms attrs_remove_typed attrs.find_remove
  by (auto simp: removeAttribute_def item_typed_def stored_def attrs_typed_def split: option.splits)

lemma setDuration_typed:
  assumes "item_typed it"
  shows "item_typed (setDuration d it)" "item_id (setDuration d it) = item_id it"
    "single_bit k \<Longrightarrow> k \<noteq> ITEM_ATTRIBUTE_DURATION \<Longrightarrow> stored k (setDuration d it) = stored k it"
proof -
  obtain n where "sets ITEM_ATTRIBUTE_DURATION (IntValue n) (setDuration d)"
    using sets_setIntAttr [of ITEM_ATTRIBUTE_DURATION] unfolding setDuration_def by auto
  from setsD [OF this _ assms] show "item_typed (setDuration d it)" "item_id (setDuration d it) = item_id it"
    "single_bit k \<Longrightarrow> k \<noteq> ITEM_ATTRIBUTE_DURATION \<Longrightarrow> stored k (setDuration d it) = stored k it"
    by simp_all
qed

lemma setDecaying_typed:
  assumes "item_typed it"
  shows "item_typed (setDecaying st it)" "item_id (setDecaying st it) = item_id it"
    "single_bit k \<Longrightarrow> stored k (setDecaying st it) =
       (if k = ITEM_ATTRIBUTE_DECAYSTATE then Some (IntValue (ucast (decay_value st))) else stored k it)"
proof -
  let ?y = "setIntAttr ITEM_ATTRIBUTE_DECAYSTATE (ucast (decay_value st)) it"
  have s: "sets ITEM_ATTRIBUTE_DECAYSTATE (IntValue (ucast (decay_value st))) (setIntAttr ITEM_ATTRIBUTE_DECAYSTATE (ucast (decay_value st)))"
    by (simp add: sets_setIntAttr)
  note y = setsD [OF this _ assms, simplified]
  show "item_typed (setDecaying st it)" "item_id (setDecaying st it) = item_id it"
    "single_bit k \<Longrightarrow> stored k (setDecaying st it) =
       (if k = ITEM_ATTRIBUTE_DECAYSTATE then Some (IntValue (ucast (decay_value st))) else stored k it)"
    using y removeAttribute_stored [OF y(1), of ITEM_ATTRIBUTE_DURATION_TIMESTAMP] stored_timestamp [OF assms]
    by (auto simp: setDecaying_def Let_def)
qed

lemma setDurationTimestamp_typed:
  assumes "item_typed it"
  shows "item_typed (setDurationTimestamp n it)" "item_id (setDurationTimestamp n it) = item_id it"
    "stored k (setDurationTimestamp n it) = stored k it"
  using assms by (simp_all add: setDurationTimestamp_def setIntAttr_other change_id)

definition heap_typed :: "Decay \<Rightarrow> bool" where
  "heap_typed s \<longleftrightarrow> (\<forall>r. item_typed (decay_items s r))"

lemma stopDecay_typed:
  assumes "item_typed (decay_items s r)"
  shows "stopDecay r s =
    (if hasAttribute ITEM_ATTRIBUTE_DECAYSTATE (decay_items s r)
     then change_item r (removeAttribute ITEM_ATTRIBUTE_DECAYSTATE) s else s)"
  using no_timestamp [OF assms] by (simp add: stopDecay_def)

lemma change_item_simps [simp]:
  "decayMap (change_item r f s) = decayMap s" "decay_world (change_item r f s) = decay_world s"
  "decay_eventId (change_item r f s) = decay_eventId s" "removed (change_item r f s) = removed s" "holdingPlayer (change_item r f s) = holdingPlayer s"
  "effects (change_item r f s) = effects s" "toRelease (change_item r f s) = toRelease s"
  "decay_now (change_item r f s) = decay_now s"
  "decay_items (change_item r f s) = (decay_items s)(r := f (decay_items s r))"
  by (simp_all add: change_item_def decay_now_def)

lemma ReleaseItem_simps [simp]:
  "decayMap (ReleaseItem r s) = decayMap s" "decay_world (ReleaseItem r s) = decay_world s"
  "decay_eventId (ReleaseItem r s) = decay_eventId s" "removed (ReleaseItem r s) = removed s" "holdingPlayer (ReleaseItem r s) = holdingPlayer s"
  "effects (ReleaseItem r s) = effects s" "decay_items (ReleaseItem r s) = decay_items s" "decay_now (ReleaseItem r s) = decay_now s"
  by (simp_all add: ReleaseItem_def decay_now_def)

lemma internalDecayItem_simps [simp]:
  "decayMap (internalDecayItem P T r s) = decayMap s" "decay_world (internalDecayItem P T r s) = decay_world s"
  "decay_eventId (internalDecayItem P T r s) = decay_eventId s" "removed (internalDecayItem P T r s) = removed s" "holdingPlayer (internalDecayItem P T r s) = holdingPlayer s"
  "decay_items (internalDecayItem P T r s) = decay_items s" "decay_now (internalDecayItem P T r s) = decay_now s"
  by (simp_all add: internalDecayItem_def decay_now_def Let_def)

lemma change_item_typed: "heap_typed s \<Longrightarrow> item_typed (f (decay_items s r)) \<Longrightarrow> heap_typed (change_item r f s)"
  by (simp add: heap_typed_def)

lemma check_item_keeps:
  assumes "heap_typed s"
  shows "heap_typed (check_item P T r s)" "decayMap (check_item P T r s) = decayMap s"
    "decay_world (check_item P T r s) = decay_world s" "decay_eventId (check_item P T r s) = decay_eventId s"
    "canDecay T (check_item P T r s) x = canDecay T s x"
    "item_id (decay_items (check_item P T r s) x) = item_id (decay_items s x)"
    "holdingPlayer (check_item P T r s) = holdingPlayer s"
proof -
  note r = assms [unfolded heap_typed_def, rule_format, of r] and x = assms [unfolded heap_typed_def, rule_format, of x]
  note d = setDuration_typed [OF r] and f = setDecaying_typed [OF r] and df = setDecaying_typed [OF setDuration_typed(1) [OF r]]
  have "hasAttribute ITEM_ATTRIBUTE_UNIQUEID (setDecaying DECAYING_FALSE (decay_items s r)) =
      hasAttribute ITEM_ATTRIBUTE_UNIQUEID (decay_items s r)"
    "hasAttribute ITEM_ATTRIBUTE_UNIQUEID (setDecaying DECAYING_FALSE (setDuration n (decay_items s r))) =
      hasAttribute ITEM_ATTRIBUTE_UNIQUEID (decay_items s r)" for n
    using r d f df single_bit_power [of 1] by (simp_all add: hasAttribute_stored)
  then show "canDecay T (check_item P T r s) x = canDecay T s x"
    "item_id (decay_items (check_item P T r s) x) = item_id (decay_items s x)"
    using d f df by (auto simp: check_item_def canDecay_def Let_def)
  show "heap_typed (check_item P T r s)"
    using assms d f df by (auto simp: check_item_def heap_typed_def)
qed (simp_all add: check_item_def)

lemma check_items_keep:
  assumes "heap_typed s"
  shows "heap_typed (fold (check_item P T) rs s) \<and> decayMap (fold (check_item P T) rs s) = decayMap s \<and>
    decay_world (fold (check_item P T) rs s) = decay_world s \<and> decay_eventId (fold (check_item P T) rs s) = decay_eventId s"
  using assms by (induction rs arbitrary: s) (simp_all add: check_item_keeps)

section \<open>One event is armed for the first due time\<close>

definition armed :: "Decay \<Rightarrow> bool" where
  "armed s \<longleftrightarrow> (decayMap s \<noteq> [] \<longrightarrow>
     (\<exists>t \<in> set (eventList (decay_world s)).
        eventId t = decay_eventId s \<and> eventId t \<in> eventIds (decay_world s) \<and> task_func t = CHECK_DECAY \<and>
        expiration t \<le> max (fst (hd (decayMap s))) (decay_now s + SCHEDULER_MINTICKS)))"

definition decay_ok :: "Decay \<Rightarrow> bool" where
  "decay_ok s \<longleftrightarrow> heap_typed s \<and> sorted_wrt (<) (map fst (decayMap s)) \<and> list_all (\<lambda>e. snd e \<noteq> []) (decayMap s) \<and>
     scheduler_state (decay_world s) = THREAD_STATE_RUNNING \<and> armed s"

lemma truncated_delay:
  assumes "0 \<le> delay"
  shows "max SCHEDULER_MINTICKS (sint (word_of_int delay :: u32)) \<le> max SCHEDULER_MINTICKS delay"
    "uint (word_of_int (max SCHEDULER_MINTICKS (sint (word_of_int delay :: u32))) :: u32) =
      max SCHEDULER_MINTICKS (sint (word_of_int delay :: u32))"
proof -
  let ?w = "word_of_int delay :: u32"
  have u: "uint ?w \<le> delay" using assms zmod_le_nonneg_dividend by (simp add: uint_word_of_int)
  have "sint ?w < 2 ^ 31" using sint_lt [of ?w] by simp
  moreover have "sint ?w \<le> uint ?w"
    using signed_take_bit_int_less_eq_self_iff [of 31 "uint ?w"] uint_ge_0 [of ?w] by (simp add: sint_uint del: uint_ge_0)
  ultimately have "sint ?w \<le> uint ?w" "sint ?w < 2 ^ 31" by simp_all
  then show "max SCHEDULER_MINTICKS (sint ?w) \<le> max SCHEDULER_MINTICKS delay" using u by linarith
  have "0 \<le> max SCHEDULER_MINTICKS (sint ?w)" "max SCHEDULER_MINTICKS (sint ?w) < 2 ^ 32"
    using \<open>sint ?w < 2 ^ 31\<close> by (simp_all add: SCHEDULER_MINTICKS_def)
  then show "uint (word_of_int (max SCHEDULER_MINTICKS (sint ?w)) :: u32) = max SCHEDULER_MINTICKS (sint ?w)"
    by (simp add: uint_word_of_int take_bit_int_eq_self)
qed

lemma arm_simps [simp]:
  "decayMap (arm d s) = decayMap s" "decay_items (arm d s) = decay_items s" "effects (arm d s) = effects s"
  "removed (arm d s) = removed s" "referenceCounter (arm d s) = referenceCounter s"
  by (simp_all add: arm_def split: prod.split)

lemma arm_world:
  "clock (decay_world (arm d s)) = clock (decay_world s)"
  "scheduler_state (decay_world (arm d s)) = scheduler_state (decay_world s)"
  by (simp_all add: arm_def addEvent_def Let_def)

lemma arm_event:
  assumes "scheduler_state (decay_world s) = THREAD_STATE_RUNNING" "0 \<le> delay"
  shows "\<exists>t \<in> set (eventList (decay_world (arm delay s))).
    eventId t = decay_eventId (arm delay s) \<and> eventId t \<in> eventIds (decay_world (arm delay s)) \<and>
    task_func t = CHECK_DECAY \<and> expiration t \<le> max (decay_now s + delay) (decay_now s + SCHEDULER_MINTICKS)"
proof -
  let ?d = "max SCHEDULER_MINTICKS (sint (word_of_int delay :: u32))"
  let ?w = "decay_world s" and ?id = "next_id (lastEventId (decay_world s))"
  let ?t = "\<lparr>expiration = decay_now s + ?d, eventId = ?id, task_func = CHECK_DECAY\<rparr>"
  have "?t \<in> set (eventList (decay_world (arm delay s)))" "decay_eventId (arm delay s) = ?id"
    "?id \<in> eventIds (decay_world (arm delay s))"
    using assms(1) truncated_delay(2) [OF assms(2)]
    by (simp_all add: arm_def addEvent_def createSchedulerTask_def createTask_expiring_def Let_def)
  then show ?thesis using truncated_delay(1) [OF assms(2)] by (intro bexI [of _ ?t]) auto
qed

lemma map_push_hd: "m \<noteq> [] \<Longrightarrow> fst (hd (map_push k r m)) = min k (fst (hd m))"
  by (cases m rule: list.exhaust) auto

lemma map_push_ne [simp]: "map_push k r m \<noteq> []"
  by (induction k r m rule: map_push.induct) auto

lemma map_push_keys: "fst ` set (map_push k r m) = insert k (fst ` set m)"
  by (induction k r m rule: map_push.induct) auto

lemma map_push_sorted: "sorted_wrt (<) (map fst m) \<Longrightarrow> sorted_wrt (<) (map fst (map_push k r m))"
proof (induction k r m rule: map_push.induct)
  case (2 k r j rs m)
  then have "k > j \<Longrightarrow> \<forall>x \<in> fst ` set (map_push k r m). j < x" by (auto simp: map_push_keys)
  with 2 show ?case by auto
qed simp

lemma map_push_full: "list_all (\<lambda>e. snd e \<noteq> []) m \<Longrightarrow> list_all (\<lambda>e. snd e \<noteq> []) (map_push k r m)"
  by (induction k r m rule: map_push.induct) auto

lemma stopDecay_ok: "decay_ok s \<Longrightarrow> decay_ok (stopDecay r s)"
  by (auto simp: decay_ok_def stopDecay_typed heap_typed_def armed_def removeAttribute_stored)

text \<open>The last part of \<^verbatim>\<open>startDecay\<close>: from the event to the entry in the map.\<close>

definition rearm :: "int \<Rightarrow> Decay \<Rightarrow> Decay" where
  "rearm duration s =
     (case decayMap s of
        [] \<Rightarrow> arm duration s
      | (k, _) # _ \<Rightarrow>
          if decay_now s + duration < k then
            arm duration (s\<lparr>decay_world := snd (stopEvent (decay_eventId s) (decay_world s))\<rparr>)
          else s)"

definition enqueue :: "nat \<Rightarrow> int \<Rightarrow> Decay \<Rightarrow> Decay" where
  "enqueue r duration s =
     (let timestamp = decay_now s + duration;
          s = rearm duration s;
          s = s\<lparr>referenceCounter := (referenceCounter s)(r := referenceCounter s r + 1)\<rparr>;
          s = change_item r (setDurationTimestamp (word_of_int timestamp) \<circ> setDecaying DECAYING_TRUE) s in
      s\<lparr>decayMap := map_push timestamp r (decayMap s)\<rparr>)"

lemma startDecay_typed:
  assumes "item_typed (decay_items s r)"
  shows "startDecay P T r s =
    (let it = decay_items s r; decayState = getDecaying it; duration = sint (getIntAttr ITEM_ATTRIBUTE_DURATION it) in
     if decayState = 3 \<or> \<not> canDecay T s r \<and> decayState = 1 then stopDecay r s
     else if \<not> canDecay T s r \<or> decayState = 1 then s
     else if duration \<le> 0 \<and> hasAttribute ITEM_ATTRIBUTE_DURATION it then internalDecayItem P T r s
     else if duration > 0 then enqueue r duration s
     else s)"
  using no_timestamp [OF assms] by (simp add: startDecay_def enqueue_def rearm_def Let_def)

lemma rearm_simps [simp]:
  "decayMap (rearm d s) = decayMap s" "decay_items (rearm d s) = decay_items s" "effects (rearm d s) = effects s"
  "removed (rearm d s) = removed s"
  "clock (decay_world (rearm d s)) = clock (decay_world s)"
  "scheduler_state (decay_world (rearm d s)) = scheduler_state (decay_world s)"
  by (auto simp: rearm_def arm_world stopEvent_def split: list.split)

lemma rearm_event:
  assumes "decay_ok s" "0 < d"
  shows "\<exists>t \<in> set (eventList (decay_world (rearm d s))).
    eventId t = decay_eventId (rearm d s) \<and> eventId t \<in> eventIds (decay_world (rearm d s)) \<and> task_func t = CHECK_DECAY \<and>
    expiration t \<le> max (if decayMap s = [] then decay_now s + d else min (decay_now s + d) (fst (hd (decayMap s))))
      (decay_now s + SCHEDULER_MINTICKS)"
proof (cases "decayMap s")
  case Nil
  then show ?thesis using arm_event [of s d] assms by (auto simp: rearm_def decay_ok_def)
next
  case (Cons e m)
  show ?thesis
  proof (cases "decay_now s + d < fst e")
    case True
    let ?s = "s\<lparr>decay_world := snd (stopEvent (decay_eventId s) (decay_world s))\<rparr>"
    have "scheduler_state (decay_world ?s) = THREAD_STATE_RUNNING" "decay_now ?s = decay_now s"
      using assms by (auto simp: stopEvent_def decay_ok_def decay_now_def)
    moreover have "rearm d s = arm d ?s" using True Cons by (cases e) (simp add: rearm_def)
    ultimately show ?thesis using arm_event [of ?s d] True Cons assms by (auto simp: min_def)
  next
    case False
    then show ?thesis using Cons assms by (auto simp: rearm_def decay_ok_def armed_def split: prod.splits)
  qed
qed

lemma enqueue_ok:
  assumes "decay_ok s" "0 < d"
  shows "decay_ok (enqueue r d s)"
proof -
  let ?s = "enqueue r d s"
  have it: "item_typed (decay_items s r)" using assms by (auto simp: decay_ok_def heap_typed_def)
  have m: "decayMap ?s = map_push (decay_now s + d) r (decayMap s)"
    and w: "decay_world ?s = decay_world (rearm d s)" "decay_eventId ?s = decay_eventId (rearm d s)"
    and i: "decay_items ?s = (decay_items s)(r := setDurationTimestamp (word_of_int (decay_now s + d))
        (setDecaying DECAYING_TRUE (decay_items s r)))"
    by (simp_all add: enqueue_def Let_def)
  have n: "decay_now ?s = decay_now s" by (simp add: decay_now_def w)
  have hd: "fst (hd (decayMap ?s)) = (if decayMap s = [] then decay_now s + d else min (decay_now s + d) (fst (hd (decayMap s))))"
    by (simp add: m map_push_hd)
  have "heap_typed ?s"
    using assms it by (auto simp: heap_typed_def decay_ok_def i setDecaying_typed setDurationTimestamp_typed)
  moreover have "armed ?s" using rearm_event [OF assms] unfolding armed_def hd n w by blast
  ultimately show ?thesis using assms by (simp add: decay_ok_def m w map_push_sorted map_push_full)
qed

lemma startDecay_ok:
  assumes "decay_ok s"
  shows "decay_ok (startDecay P T r s)"
proof -
  have it: "item_typed (decay_items s r)" using assms by (simp add: decay_ok_def heap_typed_def)
  have "decay_ok (internalDecayItem P T r s)" using assms by (simp add: decay_ok_def heap_typed_def armed_def)
  then show ?thesis using assms stopDecay_ok enqueue_ok by (simp add: startDecay_typed [OF it] Let_def)
qed

lemma sorted_rest:
  "sorted_wrt (<) (map fst m) \<Longrightarrow> sorted_wrt (<) (map fst (dropWhile p m))"
  "list_all q m \<Longrightarrow> list_all q (dropWhile p m)"
  by (induction m) auto

lemma checkDecay_ok:
  assumes "decay_ok s"
  shows "decay_ok (checkDecay P T s)"
proof -
  let ?rest = "dropWhile (\<lambda>e. fst e \<le> decay_now s) (decayMap s)"
  let ?due = "concat (map snd (takeWhile (\<lambda>e. fst e \<le> decay_now s) (decayMap s)))"
  define u where "u = fold (check_item P T) ?due (s\<lparr>decayMap := ?rest\<rparr>)"
  have u: "heap_typed u" "decayMap u = ?rest" "decay_world u = decay_world s"
    using check_items_keep [of "s\<lparr>decayMap := ?rest\<rparr>" P T ?due] assms by (simp_all add: u_def decay_ok_def heap_typed_def)
  have rest: "sorted_wrt (<) (map fst ?rest)" "list_all (\<lambda>e. snd e \<noteq> []) ?rest"
    using assms sorted_rest by (auto simp: decay_ok_def)
  show ?thesis
  proof (cases ?rest)
    case Nil
    then have "checkDecay P T s = u" unfolding checkDecay_def Let_def u_def by (simp only: list.case)
    then show ?thesis using u(1,3) assms rest Nil [unfolded u(2) [symmetric]] by (simp add: decay_ok_def armed_def)
  next
    case (Cons e m)
    then have k: "decay_now s < fst e" using hd_dropWhile [of "\<lambda>e. fst e \<le> decay_now s" "decayMap s"] by simp
    have c: "checkDecay P T s = arm (fst e - decay_now s) u"
      using Cons unfolding checkDecay_def Let_def u_def by (simp split: prod.split)
    have "decay_now u = decay_now s" by (simp add: decay_now_def u)
    then have "armed (checkDecay P T s)"
      using arm_event [of u "fst e - decay_now s"] u k assms Cons
      by (auto simp: c armed_def decay_ok_def decay_now_def arm_world)
    then show ?thesis using u rest assms by (simp add: decay_ok_def c arm_world heap_typed_def)
  qed
qed

datatype decay_op = Start nat | Stop nat | Check | Wait nat

fun decay_step :: "percent_of \<Rightarrow> ItemTypes \<Rightarrow> Decay \<Rightarrow> decay_op \<Rightarrow> Decay" where
  "decay_step P T s (Start r) = startDecay P T r s"
| "decay_step P T s (Stop r) = stopDecay r s"
| "decay_step P T s Check = checkDecay P T s"
| "decay_step P T s (Wait d) = s\<lparr>decay_world := (decay_world s)\<lparr>clock := clock (decay_world s) + int d\<rparr>\<rparr>"

interpretation decay: kept_invariant "decay_step P T" decay_ok for P T
proof
  fix s e
  assume "decay_ok s"
  then show "decay_ok (decay_step P T s e)"
  proof (cases e)
    case (Wait d)
    with \<open>decay_ok s\<close> show ?thesis by (fastforce simp: decay_ok_def armed_def heap_typed_def decay_now_def)
  qed (simp_all add: startDecay_ok stopDecay_ok checkDecay_ok)
qed

definition new_decay :: "(nat \<Rightarrow> Item) \<Rightarrow> (nat \<Rightarrow> bool) \<Rightarrow> int \<Rightarrow> Decay" where
  "new_decay items gone t = \<lparr>decay_items = items, removed = gone, holdingPlayer = (\<lambda>_. None), referenceCounter = (\<lambda>_. 1), toRelease = [], decayMap = [],
     decay_eventId = 0, decay_world = start_world t, effects = []\<rparr>"

lemma new_decay_ok: "(\<forall>r. item_typed (items r)) \<Longrightarrow> decay_ok (new_decay items gone t)"
  by (simp add: decay_ok_def new_decay_def heap_typed_def armed_def start_world_def)

lemma due_taken:
  "sorted_wrt (<) (map fst m) \<Longrightarrow> (k :: int, rs) \<in> set m \<Longrightarrow> k \<le> n \<Longrightarrow> (k, rs) \<in> set (takeWhile (\<lambda>e. fst e \<le> n) m)"
proof (induction m)
  case (Cons a m)
  show ?case
  proof (cases "(k, rs) = a")
    case True
    then show ?thesis using Cons.prems(3) by (auto simp: True [symmetric])
  next
    case False
    then have "(k, rs) \<in> set m" using Cons.prems(2) by simp
    moreover from this have "k \<in> set (map fst m)" by force
    then have "fst a < k" using Cons.prems(1) by auto
    then have "fst a \<le> n" using Cons.prems(3) by linarith
    ultimately show ?thesis using Cons by simp
  qed
qed simp

lemma in_lists: "(k, rs) \<in> set m \<Longrightarrow> r \<in> set rs \<Longrightarrow> r \<in> set (concat (map snd m))"
  by force

definition decay_effect_of :: "percent_of \<Rightarrow> ItemTypes \<Rightarrow> Decay \<Rightarrow> nat \<Rightarrow> decay_effect list" where
  "decay_effect_of P T s r =
     (let t = T (item_id (decay_items s r)) in
      if type_decayTo t \<noteq> 0 then
        (case holdingPlayer s r of Some p \<Rightarrow> player_effects P p (type_abilities t) | None \<Rightarrow> [])
        @ [TransformItem r (type_decayTo t)]
      else [RemoveItem r])"

lemma check_item_effects:
  "heap_typed s \<Longrightarrow> effects (check_item P T r s) = effects s @ (if canDecay T s r then decay_effect_of P T s r else [])"
  by (simp add: check_item_def internalDecayItem_def decay_effect_of_def Let_def setDecaying_typed heap_typed_def)

lemma check_items_effects:
  "heap_typed s \<Longrightarrow>
    effects (fold (check_item P T) rs s) = effects s @ concat (map (decay_effect_of P T s) (filter (canDecay T s) rs))"
proof (induction rs arbitrary: s)
  case (Cons r rs)
  have "decay_effect_of P T (check_item P T r s) = decay_effect_of P T s"
    using check_item_keeps(6,7) [OF Cons.prems] by (simp add: decay_effect_of_def fun_eq_iff Let_def)
  then show ?case
    using Cons.IH [OF check_item_keeps(1) [OF Cons.prems]] Cons.prems check_item_effects check_item_keeps(5) [OF Cons.prems]
    by (simp cong: filter_cong)
qed simp

lemma checkDecay_effects:
  assumes "heap_typed s"
  shows "effects (checkDecay P T s) = effects s @ concat (map (decay_effect_of P T s)
    (filter (canDecay T s) (concat (map snd (takeWhile (\<lambda>e. fst e \<le> decay_now s) (decayMap s))))))"
proof -
  let ?rest = "dropWhile (\<lambda>e. fst e \<le> decay_now s) (decayMap s)"
  let ?s = "s\<lparr>decayMap := ?rest\<rparr>"
  have "heap_typed ?s" "canDecay T ?s = canDecay T s" "decay_effect_of P T ?s = decay_effect_of P T s"
    using assms by (simp_all add: heap_typed_def canDecay_def decay_effect_of_def fun_eq_iff Let_def)
  then show ?thesis
    using check_items_effects [of ?s P T] unfolding checkDecay_def Let_def by (auto split: list.split)
qed

text \<open>An item that decays after a minute, for the witnesses.\<close>

definition torch_type :: ItemType where
  "torch_type = sample_type\<lparr>type_decayTime := 60, type_decayTo := 0\<rparr>"

definition torch_start :: Decay where
  "torch_start = new_decay (\<lambda>_. new_item (\<lambda>_. torch_type) 2050 0) (\<lambda>_. False) 1000"

lemma torches_typed: "\<forall>r. item_typed ((\<lambda>_ :: nat. new_item (\<lambda>_. torch_type) 2050 0) r)"
  by (simp add: new_item_stored)

lemma torch_ok: "decay_ok (run (decay_step (\<lambda>_ _ _. 0) (\<lambda>_. torch_type)) torch_start ops)"
  unfolding torch_start_def by (rule decay.run_keeps [OF new_decay_ok [OF torches_typed]])

section \<open>Properties\<close>



text \<open>
  C16. An item that waits for its time and is stopped stays in the map: when its time comes it is
  decayed all the same. \<^verbatim>\<open>stopDecay\<close> looks for the time in the attribute
  \<^verbatim>\<open>ITEM_ATTRIBUTE_DURATION_TIMESTAMP\<close>, which no item ever has, because \<^verbatim>\<open>isIntAttrType\<close> does not list it.
\<close>

theorem stopped_item_decays:
  assumes "decay_ok s" and "(k, rs) \<in> set (decayMap s)" and "r \<in> set rs" and "canDecay T s r" and "k \<le> decay_now s + int d"
  shows "let s' = run (decay_step P T) s [Stop r, Wait d, Check]; to = type_decayTo (T (item_id (decay_items s r))) in
    (if to \<noteq> 0 then TransformItem r to else RemoveItem r) \<in> set (effects s')"
proof -
  let ?s1 = "stopDecay r s"
  let ?s2 = "?s1\<lparr>decay_world := (decay_world ?s1)\<lparr>clock := clock (decay_world ?s1) + int d\<rparr>\<rparr>"
  have typed: "heap_typed s" "item_typed (decay_items s r)" using assms(1) by (auto simp: decay_ok_def heap_typed_def)
  have stop: "decayMap ?s1 = decayMap s" "decay_now ?s1 = decay_now s" "removed ?s1 = removed s"
    "item_id (decay_items ?s1 r) = item_id (decay_items s r)" "heap_typed ?s1"
    using typed by (auto simp: stopDecay_typed removeAttribute_stored heap_typed_def)
  have unique: "hasAttribute ITEM_ATTRIBUTE_UNIQUEID (decay_items ?s1 r) = hasAttribute ITEM_ATTRIBUTE_UNIQUEID (decay_items s r)"
    using typed single_bit_power [of 1] by (simp add: stopDecay_typed hasAttribute_stored removeAttribute_stored)
  have s2: "heap_typed ?s2" "canDecay T ?s2 r" "decay_now ?s2 = decay_now s + int d" "decay_items ?s2 = decay_items ?s1"
    "decayMap ?s2 = decayMap s"
    using stop unique assms(4) by (auto simp: heap_typed_def canDecay_def decay_now_def Let_def split: if_splits)
  have due: "(k, rs) \<in> set (takeWhile (\<lambda>e. fst e \<le> decay_now ?s2) (decayMap ?s2))"
    unfolding s2 using assms(1,2,5) by (intro due_taken) (auto simp: decay_ok_def)
  have "set (decay_effect_of P T ?s2 r) \<subseteq> set (effects (checkDecay P T ?s2))"
  proof -
    from due assms(3) have "r \<in> set (concat (map snd (takeWhile (\<lambda>e. fst e \<le> decay_now ?s2) (decayMap ?s2))))"
      by (rule in_lists)
    then have "r \<in> set (filter (canDecay T ?s2) (concat (map snd (takeWhile (\<lambda>e. fst e \<le> decay_now ?s2) (decayMap ?s2)))))"
      using s2(2) by (simp only: set_filter mem_Collect_eq)
    then show ?thesis unfolding checkDecay_effects [OF s2(1)] set_append set_concat set_map by blast
  qed
  then show ?thesis unfolding decay_effect_of_def s2(4) stop(4) Let_def by (simp split: if_splits)
qed

theorem stopped_item_decays_witness:
  "RemoveItem 7 \<in> set (effects (run (decay_step (\<lambda>_ _ _. 0) (\<lambda>_. torch_type))
     (run (decay_step (\<lambda>_ _ _. 0) (\<lambda>_. torch_type)) torch_start [Start 7]) [Stop 7, Wait 60000, Check]))"
proof -
  let ?s = "run (decay_step (\<lambda>_ _ _. 0) (\<lambda>_. torch_type)) torch_start [Start 7]"
  have "(61000, [7]) \<in> set (decayMap ?s)" "canDecay (\<lambda>_. torch_type) ?s 7" "decay_now ?s = 1000" by code_simp+
  from stopped_item_decays [OF torch_ok this(1) _ this(2), of 60000] this(3) show ?thesis
    by (simp add: torch_type_def Let_def del: run.simps)
qed

text \<open>
  The remaining duration that a decaying item reports, which is also what is saved with it, does not
  depend on the item at all, only on the clock. The time that was stored when it started is lost.
\<close>

theorem decaying_duration_lost:
  assumes "decay_ok s" and "getDecaying (decay_items s r) = 1"
  shows "duration_left s r = (let d = word_of_int (- decay_now s) :: u32 in if sint d < 0 then 0 else d)"
proof -
  have "getIntAttr ITEM_ATTRIBUTE_DURATION_TIMESTAMP (decay_items s r) = 0"
    by (simp add: getIntAttr_def attrs_getInt_def split: option.split)
  moreover have "(ucast (- (word_of_int (decay_now s) :: u64)) :: u32) = word_of_int (- decay_now s)"
    by (simp add: word_uint_eq_iff unsigned_ucast_eq uint_word_of_int uint_word_ariths take_bit_int_def mod_minus_eq mod_mod_cancel)
  ultimately show ?thesis
    using assms(2) by (simp add: duration_left_def getDuration_def)
qed

theorem decaying_duration_lost_witness:
  "duration_left (run (decay_step (\<lambda>_ _ _. 0) (\<lambda>_. torch_type)) torch_start [Start 7, Wait 500]) 7 = 0"
proof -
  let ?s = "run (decay_step (\<lambda>_ _ _. 0) (\<lambda>_. torch_type)) torch_start [Start 7, Wait 500]"
  have "getDecaying (decay_items ?s 7) = 1" "decay_now ?s = 1500" by code_simp+
  from decaying_duration_lost [OF torch_ok this(1)] this(2) show ?thesis by (simp add: Let_def)
qed

end
