(* ===== verification/Containers.thy ===== *)
theory Containers
  imports Items "HOL-Library.Monad_Syntax"
begin

text \<open>
  Containers (\<^verbatim>\<open>items/containers/\<close>: \<^verbatim>\<open>container.cpp\<close>, inbox, depot and reward boxes, and \<^verbatim>\<open>Item::getTopParent\<close>):
  items are references into a store; an item that is a container has a box with the list of its items
  and the cached sum of their weights. Cylinders that are not containers, players and tiles, appear as
  parents only. Inboxes, depot chests and rewards hide the boxes they stand in: their \<^verbatim>\<open>getParent\<close> skips one
  or two levels. Walks along parents and the iterator over all items of a container are loops that end
  only if no container is inside itself; they are partial functions in the option monad, where \<open>None\<close>
  is a walk that does not end or the use of a null pointer, and the theorems of \<open>ContainerTree\<close> show
  that they return in every reachable store.
\<close>

section \<open>State\<close>

datatype Cyl = Box nat | Person nat | Ground nat | VirtualCylinder

datatype box_kind = PlainBox | InboxBox | DepotChestBox | DepotLockerBox | RewardBox | RewardChestBox

text \<open>\<open>limit_items\<close> is \<^verbatim>\<open>maxDepotItems\<close> of a depot chest and \<^verbatim>\<open>maxInboxItems\<close> of an inbox.\<close>

record Container =
  kind :: box_kind
  itemlist :: "nat list"
  maxSize :: u32
  totalWeight :: u32
  unlocked :: bool
  pagination :: bool
  limit_items :: u32

datatype client_note =
    AddContainerItem nat nat
  | UpdateContainerItem nat nat nat nat
  | RemoveContainerItem nat nat nat

record Store =
  things :: "nat \<Rightarrow> Item"
  boxes :: "nat \<Rightarrow> Container option"
  item_parent :: "nat \<Rightarrow> Cyl option"
  person_tile :: "nat \<Rightarrow> nat option"
  client_notes :: "client_note list"

text \<open>The constructors; \<open>maxItems\<close> is that of the item's type.\<close>

definition ITEM_GOLD_POUCH :: u16 where "ITEM_GOLD_POUCH = 23721"

definition new_container :: "u16 \<Rightarrow> u16 \<Rightarrow> Container" where
  "new_container i maxItems =
     \<lparr>kind = PlainBox, itemlist = [], maxSize = ucast maxItems, totalWeight = 0, unlocked = True,
      pagination = (i = ITEM_GOLD_POUCH), limit_items = 0\<rparr>"

definition new_inbox :: Container where
  "new_inbox =
     \<lparr>kind = InboxBox, itemlist = [], maxSize = 30, totalWeight = 0, unlocked = False,
      pagination = True, limit_items = 65535\<rparr>"

definition new_depot_chest :: "u16 \<Rightarrow> u16 \<Rightarrow> Container" where
  "new_depot_chest i maxItems =
     (new_container i maxItems)\<lparr>kind := DepotChestBox, limit_items := 2000, maxSize := 32, pagination := True\<rparr>"

definition new_depot_locker :: Container where
  "new_depot_locker =
     \<lparr>kind = DepotLockerBox, itemlist = [], maxSize = 4, totalWeight = 0, unlocked = True,
      pagination = False, limit_items = 0\<rparr>"

definition new_reward :: "u16 \<Rightarrow> u16 \<Rightarrow> Container" where
  "new_reward i maxItems =
     (new_container i maxItems)\<lparr>kind := RewardBox, maxSize := 32, unlocked := False, pagination := True\<rparr>"

definition new_reward_chest :: "u16 \<Rightarrow> u16 \<Rightarrow> Container" where
  "new_reward_chest i maxItems =
     (new_container i maxItems)\<lparr>kind := RewardChestBox, maxSize := 32, unlocked := False, pagination := True\<rparr>"

definition getContainer :: "Cyl \<Rightarrow> nat option" where
  "getContainer y = (case y of Box c \<Rightarrow> Some c | _ \<Rightarrow> None)"

definition items_of :: "Store \<Rightarrow> nat \<Rightarrow> nat list" where
  "items_of s c = (case boxes s c of Some b \<Rightarrow> itemlist b | None \<Rightarrow> [])"

definition has_kind :: "box_kind set \<Rightarrow> Store \<Rightarrow> nat \<Rightarrow> bool" where
  "has_kind K s c = (case boxes s c of Some b \<Rightarrow> kind b \<in> K | None \<Rightarrow> False)"

definition change_box :: "nat \<Rightarrow> (Container \<Rightarrow> Container) \<Rightarrow> Store \<Rightarrow> Store" where
  "change_box c f s = s\<lparr>boxes := (boxes s)(c := map_option f (boxes s c))\<rparr>"

definition change_thing :: "nat \<Rightarrow> (Item \<Rightarrow> Item) \<Rightarrow> Store \<Rightarrow> Store" where
  "change_thing r f s = s\<lparr>things := (things s)(r := f (things s r))\<rparr>"

definition setParent :: "nat \<Rightarrow> Cyl option \<Rightarrow> Store \<Rightarrow> Store" where
  "setParent r y s = s\<lparr>item_parent := (item_parent s)(r := y)\<rparr>"

definition add_note :: "client_note \<Rightarrow> Store \<Rightarrow> Store" where
  "add_note n s = s\<lparr>client_notes := client_notes s @ [n]\<rparr>"

text \<open>\<^verbatim>\<open>getWeight\<close>, which containers override.\<close>

definition getWeight :: "ItemTypes \<Rightarrow> Store \<Rightarrow> nat \<Rightarrow> u32" where
  "getWeight T s r =
     item_weight T (things s r) + (case boxes s r of Some b \<Rightarrow> totalWeight b | None \<Rightarrow> 0)"

section \<open>Walks along parents\<close>

text \<open>\<^verbatim>\<open>getParent\<close>: an inbox and a reward skip one box, a depot chest skips two.\<close>

partial_function (option) getParent :: "Store \<Rightarrow> Cyl \<Rightarrow> Cyl option option" where
  "getParent s y =
     (case y of
        Box c \<Rightarrow>
          if has_kind {InboxBox, RewardBox} s c then
            (case item_parent s c of None \<Rightarrow> Some None | Some p \<Rightarrow> getParent s p)
          else if has_kind {DepotChestBox} s c then
            (case item_parent s c of
               None \<Rightarrow> Some None
             | Some p \<Rightarrow> do {
                 q \<leftarrow> getParent s p;
                 (case q of None \<Rightarrow> Some None | Some z \<Rightarrow> getParent s z)
               })
          else Some (item_parent s c)
      | Person p \<Rightarrow> Some (map_option Ground (person_tile s p))
      | _ \<Rightarrow> Some None)"

definition getParentContainer :: "Store \<Rightarrow> nat \<Rightarrow> nat option option" where
  "getParentContainer s c = do {
     thing \<leftarrow> getParent s (Box c);
     Some (case thing of Some y \<Rightarrow> getContainer y | None \<Rightarrow> None)
   }"

partial_function (option) top_container_loop :: "Store \<Rightarrow> Cyl \<Rightarrow> Cyl \<Rightarrow> Cyl option" where
  "top_container_loop s prevThing thing = do {
     up \<leftarrow> getParent s thing;
     (case up of
        Some (Box c) \<Rightarrow> top_container_loop s thing (Box c)
      | _ \<Rightarrow> Some prevThing)
   }"

definition getTopParentContainer :: "Store \<Rightarrow> nat \<Rightarrow> nat option option" where
  "getTopParentContainer s c = do {
     thing \<leftarrow> getParent s (Box c);
     (case thing of
        None \<Rightarrow> Some (Some c)
      | Some y \<Rightarrow> do { prevThing \<leftarrow> top_container_loop s (Box c) y; Some (getContainer prevThing) })
   }"

text \<open>
  \<^verbatim>\<open>Item::getTopParent\<close>; the first \<open>prevaux\<close> is null for an item that is not a container.
\<close>

partial_function (option) top_loop :: "Store \<Rightarrow> Cyl option \<Rightarrow> Cyl \<Rightarrow> Cyl option" where
  "top_loop s prevaux aux = do {
     up \<leftarrow> getParent s aux;
     (case up of
        Some y \<Rightarrow> top_loop s (Some aux) y
      | None \<Rightarrow> Some (case prevaux of Some y \<Rightarrow> y | None \<Rightarrow> aux))
   }"

definition getTopParent :: "Store \<Rightarrow> nat \<Rightarrow> Cyl option option" where
  "getTopParent s r = do {
     let prevaux = (if boxes s r \<noteq> None then Some (Box r) else None);
     aux \<leftarrow> getParent s (Box r);
     (case aux of
        None \<Rightarrow> Some prevaux
      | Some y \<Rightarrow> do { top \<leftarrow> top_loop s prevaux y; Some (Some top) })
   }"

partial_function (option) updateItemWeight :: "nat \<Rightarrow> u32 \<Rightarrow> Store \<Rightarrow> Store option" where
  "updateItemWeight c diff s = do {
     let s = change_box c (\<lambda>b. b\<lparr>totalWeight := totalWeight b + diff\<rparr>) s;
     parentContainer \<leftarrow> getParentContainer s c;
     (case parentContainer of
        Some p \<Rightarrow> updateItemWeight p diff s
      | None \<Rightarrow> Some s)
   }"

section \<open>The iterator\<close>

record ContainerIterator =
  over :: "nat list"
  cur :: nat

definition iterator :: "Store \<Rightarrow> nat \<Rightarrow> ContainerIterator" where
  "iterator s c =
     (if items_of s c \<noteq> [] then \<lparr>over = [c], cur = 0\<rparr> else \<lparr>over = [], cur = 0\<rparr>)"

definition hasNext :: "ContainerIterator \<Rightarrow> bool" where
  "hasNext it \<longleftrightarrow> over it \<noteq> []"

definition deref :: "Store \<Rightarrow> ContainerIterator \<Rightarrow> nat" where
  "deref s it = items_of s (hd (over it)) ! cur it"

definition advance_it :: "Store \<Rightarrow> ContainerIterator \<Rightarrow> ContainerIterator" where
  "advance_it s it =
     (let i = deref s it;
          it = (if boxes s i \<noteq> None \<and> items_of s i \<noteq> [] then it\<lparr>over := over it @ [i]\<rparr> else it);
          it = it\<lparr>cur := cur it + 1\<rparr> in
      if cur it = length (items_of s (hd (over it))) then \<lparr>over = tl (over it), cur = 0\<rparr>
      else it)"

text \<open>The items that a loop over the iterator sees.\<close>

partial_function (option) visit :: "Store \<Rightarrow> ContainerIterator \<Rightarrow> nat list option" where
  "visit s it =
     (if hasNext it then do {
        rest \<leftarrow> visit s (advance_it s it);
        Some (deref s it # rest)
      } else Some [])"

definition all_items :: "Store \<Rightarrow> nat \<Rightarrow> nat list option" where
  "all_items s c = visit s (iterator s c)"

definition getItemHoldingCount :: "Store \<Rightarrow> nat \<Rightarrow> u32 option" where
  "getItemHoldingCount s c = map_option (\<lambda>xs. of_nat (length xs)) (all_items s c)"

definition getContainerHoldingCount :: "Store \<Rightarrow> nat \<Rightarrow> u32 option" where
  "getContainerHoldingCount s c =
     map_option (\<lambda>xs. of_nat (length (filter (\<lambda>r. boxes s r \<noteq> None) xs))) (all_items s c)"

definition isHoldingItem :: "Store \<Rightarrow> nat \<Rightarrow> nat \<Rightarrow> bool option" where
  "isHoldingItem s c r = map_option (\<lambda>xs. r \<in> set xs) (all_items s c)"

definition own_free_slots :: "Container \<Rightarrow> u16" where
  "own_free_slots b = ucast (maxSize b - of_nat (length (itemlist b)))"

text \<open>\<^verbatim>\<open>getFreeSlots\<close>: the loop over the items calls itself on the boxes among them.\<close>

partial_function (option) free_slots_loop :: "Store \<Rightarrow> nat list \<Rightarrow> u16 \<Rightarrow> u16 option" where
  "free_slots_loop s rs counter =
     (case rs of
        [] \<Rightarrow> Some counter
      | r # rs' \<Rightarrow>
          (case boxes s r of
             None \<Rightarrow> free_slots_loop s rs' counter
           | Some b \<Rightarrow> do {
               n \<leftarrow> free_slots_loop s (itemlist b) (max 0 (own_free_slots b));
               free_slots_loop s rs' (counter + max 0 n)
             }))"

definition getFreeSlots :: "Store \<Rightarrow> nat \<Rightarrow> u16 option" where
  "getFreeSlots s c =
     (case boxes s c of
        None \<Rightarrow> None
      | Some b \<Rightarrow> free_slots_loop s (itemlist b) (max 0 (own_free_slots b)))"

definition getItemByIndex :: "Store \<Rightarrow> nat \<Rightarrow> nat \<Rightarrow> nat option" where
  "getItemByIndex s c index = (if index \<ge> length (items_of s c) then None else Some (items_of s c ! index))"

fun thing_index :: "nat \<Rightarrow> nat list \<Rightarrow> nat option" where
  "thing_index r [] = None"
| "thing_index r (x # xs) = (if x = r then Some 0 else map_option Suc (thing_index r xs))"

definition getThingIndex :: "Store \<Rightarrow> nat \<Rightarrow> nat \<Rightarrow> nat option" where
  "getThingIndex s c r = thing_index r (items_of s c)"

definition countByType :: "ItemTypes \<Rightarrow> Item \<Rightarrow> int \<Rightarrow> u32" where
  "countByType T it subType =
     (if subType = -1 \<or> subType = uint (getSubType T it) then ucast (item_count it) else 0)"

definition getItemTypeCount :: "ItemTypes \<Rightarrow> Store \<Rightarrow> nat \<Rightarrow> u16 \<Rightarrow> int \<Rightarrow> u32" where
  "getItemTypeCount T s c itemId subType =
     fold (\<lambda>r n. if item_id (things s r) = itemId then n + countByType T (things s r) subType else n)
       (items_of s c) 0"

definition getAllItemTypeCount :: "Store \<Rightarrow> nat \<Rightarrow> (u32 \<Rightarrow> u32 option) \<Rightarrow> (u32 \<Rightarrow> u32 option)" where
  "getAllItemTypeCount s c countMap =
     fold (\<lambda>r m. let k = ucast (item_id (things s r)) in
             m(k \<mapsto> (case m k of Some n \<Rightarrow> n | None \<Rightarrow> 0) + ucast (item_count (things s r))))
       (items_of s c) countMap"

section \<open>Queries\<close>

definition FLAG_NOLIMIT :: u32 where "FLAG_NOLIMIT = 1"
definition FLAG_CHILDISOWNER :: u32 where "FLAG_CHILDISOWNER = 8"
definition FLAG_IGNORENOTMOVEABLE :: u32 where "FLAG_IGNORENOTMOVEABLE = 64"
definition FLAG_IGNOREAUTOSTACK :: u32 where "FLAG_IGNOREAUTOSTACK = 128"
definition INDEX_WHEREEVER :: int where "INDEX_WHEREEVER = -1"

definition hasBitSet :: "u32 \<Rightarrow> u32 \<Rightarrow> bool" where
  "hasBitSet flag flags \<longleftrightarrow> flags AND flag \<noteq> 0"

text \<open>
  What lies outside: the configured limits, and the answers of the players and tiles that carry a
  container; \<open>house_queryRemove\<close> is \<open>None\<close> where the cylinder is not a house tile.
\<close>

record carriers =
  MAX_ITEM :: u32
  MAX_CONTAINER :: u32
  carrier_queryAdd :: "Cyl \<Rightarrow> nat \<Rightarrow> u32 \<Rightarrow> u32 \<Rightarrow> nat option \<Rightarrow> ReturnValue"
  house_queryRemove :: "Cyl \<Rightarrow> nat \<Rightarrow> u32 \<Rightarrow> u32 \<Rightarrow> nat option \<Rightarrow> ReturnValue option"

definition is_inbox :: "Store \<Rightarrow> Cyl \<Rightarrow> bool" where
  "is_inbox s y = (case y of Box c \<Rightarrow> has_kind {InboxBox} s c | _ \<Rightarrow> False)"

text \<open>The loops of \<^verbatim>\<open>queryAdd\<close> over the cylinders above; \<open>limit\<close> is false with \<^verbatim>\<open>FLAG_NOLIMIT\<close>.\<close>

partial_function (option) above_loop :: "Store \<Rightarrow> bool \<Rightarrow> nat \<Rightarrow> Cyl \<Rightarrow> ReturnValue option" where
  "above_loop s limit r y =
     (if y = Box r then Some RETURNVALUE_THISISIMPOSSIBLE
      else if limit \<and> is_inbox s y then Some RETURNVALUE_CONTAINERNOTENOUGHROOM
      else do {
        up \<leftarrow> getParent s y;
        (case up of None \<Rightarrow> Some RETURNVALUE_NOERROR | Some z \<Rightarrow> above_loop s limit r z)
      })"

definition query_above :: "Store \<Rightarrow> bool \<Rightarrow> nat \<Rightarrow> Cyl option \<Rightarrow> ReturnValue option" where
  "query_above s limit r cylinder =
     (case cylinder of None \<Rightarrow> Some RETURNVALUE_NOERROR | Some y \<Rightarrow> above_loop s limit r y)"

definition query_limits :: "carriers \<Rightarrow> Store \<Rightarrow> nat \<Rightarrow> nat \<Rightarrow> ReturnValue option" where
  "query_limits E s c r = do {
     top \<leftarrow> getTopParentContainer s c;
     (case top of
        None \<Rightarrow> Some RETURNVALUE_NOERROR
      | Some t \<Rightarrow> do {
          topContainers \<leftarrow> getContainerHoldingCount s t;
          topItems \<leftarrow> getItemHoldingCount s t;
          refused \<leftarrow> (if boxes s r \<noteq> None then do {
              addContainers \<leftarrow> getContainerHoldingCount s r;
              addItems \<leftarrow> getItemHoldingCount s r;
              Some (addContainers + 1 + topContainers > MAX_CONTAINER E \<or> addItems + 1 + topItems > MAX_ITEM E)
            } else Some False);
          Some (if refused \<or> topItems + 1 > MAX_ITEM E then RETURNVALUE_NOTPOSSIBLE else RETURNVALUE_NOERROR)
        })
   }"

text \<open>
  \<^verbatim>\<open>Container::queryAdd\<close>; \<open>ask\<close> is the virtual call on the cylinder at the top, which passes the thing, the
  count and the actor on and the index \<^verbatim>\<open>INDEX_WHEREEVER\<close>. Everything that is added here is an item.
\<close>

definition Container_queryAdd ::
  "(Cyl \<Rightarrow> u32 \<Rightarrow> ReturnValue option) \<Rightarrow> carriers \<Rightarrow> ItemTypes \<Rightarrow> Store \<Rightarrow> nat \<Rightarrow> Container \<Rightarrow> int \<Rightarrow> nat \<Rightarrow>
     u32 \<Rightarrow> ReturnValue option" where
  "Container_queryAdd ask E T s c b addIndex r flags =
     (let type = T (item_id (things s r)); limit = (\<not> hasBitSet FLAG_NOLIMIT flags) in
      if hasBitSet FLAG_CHILDISOWNER flags then Some RETURNVALUE_NOERROR
      else if \<not> unlocked b then Some RETURNVALUE_NOTPOSSIBLE
      else if \<not> type_pickupable type then Some RETURNVALUE_CANNOTPICKUP
      else if r = c then Some RETURNVALUE_THISISIMPOSSIBLE
      else do {
        cylinder \<leftarrow> getParent s (Box c);
        above \<leftarrow> query_above s limit r cylinder;
        if above \<noteq> RETURNVALUE_NOERROR then Some above
        else if limit \<and> addIndex = INDEX_WHEREEVER \<and> length (itemlist b) \<ge> unat (maxSize b) \<and> \<not> pagination b
        then Some RETURNVALUE_CONTAINERNOTENOUGHROOM
        else do {
          limits \<leftarrow> query_limits E s c r;
          if limits \<noteq> RETURNVALUE_NOERROR then Some limits
          else if type_quiver (T (item_id (things s c))) \<and> \<not> type_ammo type
          then Some RETURNVALUE_ONLYAMMOINQUIVER
          else do {
            topParent \<leftarrow> getTopParent s c;
            (case topParent of
               None \<Rightarrow> None
             | Some y \<Rightarrow>
                 if y \<noteq> Box c then ask y (flags OR FLAG_CHILDISOWNER) else Some RETURNVALUE_NOERROR)
          }
        }
      })"

definition added_count :: "Store \<Rightarrow> nat \<Rightarrow> nat \<Rightarrow> u32 \<Rightarrow> u32 option" where
  "added_count s c r otherwise = do {
     top \<leftarrow> getTopParent s r;
     if top = Some (Box c) then Some otherwise
     else if boxes s r \<noteq> None then do { n \<leftarrow> getItemHoldingCount s r; Some (n + 1) }
     else Some 1
   }"

definition Inbox_queryAdd :: "ItemTypes \<Rightarrow> Store \<Rightarrow> nat \<Rightarrow> Container \<Rightarrow> nat \<Rightarrow> u32 \<Rightarrow> ReturnValue option" where
  "Inbox_queryAdd T s c b r flags =
     (if \<not> hasBitSet FLAG_NOLIMIT flags then Some RETURNVALUE_CONTAINERNOTENOUGHROOM
      else if r = c then Some RETURNVALUE_THISISIMPOSSIBLE
      else if \<not> type_pickupable (T (item_id (things s r))) then Some RETURNVALUE_CANNOTPICKUP
      else do {
        addCount \<leftarrow> added_count s c r 0;
        n \<leftarrow> getItemHoldingCount s c;
        Some (if n + addCount > limit_items b then RETURNVALUE_DEPOTISFULL else RETURNVALUE_NOERROR)
      })"

definition depot_full :: "ItemTypes \<Rightarrow> Store \<Rightarrow> nat \<Rightarrow> Container \<Rightarrow> nat \<Rightarrow> u32 \<Rightarrow> u32 \<Rightarrow> bool option" where
  "depot_full T s c b r n_add flags =
     (if hasBitSet FLAG_NOLIMIT flags then Some False
      else do {
        let it = things s r;
        addCount \<leftarrow> added_count s c r
          (if type_stackable (T (item_id it)) \<and> ucast (item_count it) \<noteq> n_add then 1 else 0);
        n \<leftarrow> (case item_parent s c of
                Some y \<Rightarrow> (case getContainer y of Some p \<Rightarrow> getItemHoldingCount s p | None \<Rightarrow> None)
              | None \<Rightarrow> getItemHoldingCount s c);
        Some (n + addCount > limit_items b)
      })"

definition Reward_queryAdd :: "ItemTypes \<Rightarrow> Store \<Rightarrow> nat \<Rightarrow> nat \<Rightarrow> nat option \<Rightarrow> ReturnValue" where
  "Reward_queryAdd T s c r actor =
     (if actor \<noteq> None then RETURNVALUE_NOTPOSSIBLE
      else if r = c then RETURNVALUE_THISISIMPOSSIBLE
      else if \<not> type_pickupable (T (item_id (things s r))) then RETURNVALUE_CANNOTPICKUP
      else RETURNVALUE_NOERROR)"

definition RewardChest_queryAdd :: "nat option \<Rightarrow> ReturnValue" where
  "RewardChest_queryAdd actor = (if actor \<noteq> None then RETURNVALUE_NOTPOSSIBLE else RETURNVALUE_NOERROR)"

text \<open>The virtual call: what the classes of a cylinder answer.\<close>

definition dispatch_queryAdd ::
  "(Cyl \<Rightarrow> u32 \<Rightarrow> ReturnValue option) \<Rightarrow> carriers \<Rightarrow> ItemTypes \<Rightarrow> Store \<Rightarrow> nat option \<Rightarrow> int \<Rightarrow> nat \<Rightarrow> u32 \<Rightarrow>
     Cyl \<Rightarrow> u32 \<Rightarrow> ReturnValue option" where
  "dispatch_queryAdd ask E T s actor index r n_add y flags =
     (case y of
        Box c \<Rightarrow>
          (case boxes s c of
             None \<Rightarrow> None
           | Some b \<Rightarrow>
               (case kind b of
                  PlainBox \<Rightarrow> Container_queryAdd ask E T s c b index r flags
                | InboxBox \<Rightarrow> Inbox_queryAdd T s c b r flags
                | DepotChestBox \<Rightarrow> do {
                    full \<leftarrow> depot_full T s c b r n_add flags;
                    if full then Some RETURNVALUE_DEPOTISFULL
                    else Container_queryAdd ask E T s c b index r flags
                  }
                | DepotLockerBox \<Rightarrow> Some RETURNVALUE_NOTENOUGHROOM
                | RewardBox \<Rightarrow> Some (Reward_queryAdd T s c r actor)
                | RewardChestBox \<Rightarrow> Some (RewardChest_queryAdd actor)))
      | VirtualCylinder \<Rightarrow> Some RETURNVALUE_NOTPOSSIBLE
      | _ \<Rightarrow> Some (carrier_queryAdd E y r n_add flags actor))"

text \<open>
  A container asks the cylinder at the top at most once: that question carries \<^verbatim>\<open>FLAG_CHILDISOWNER\<close>, and a
  container that sees the flag asks nobody.
\<close>

definition queryAdd ::
  "carriers \<Rightarrow> ItemTypes \<Rightarrow> Store \<Rightarrow> nat option \<Rightarrow> int \<Rightarrow> nat \<Rightarrow> u32 \<Rightarrow> Cyl \<Rightarrow> u32 \<Rightarrow> ReturnValue option" where
  "queryAdd E T s actor index r n_add =
     dispatch_queryAdd (dispatch_queryAdd (\<lambda>_ _. None) E T s actor INDEX_WHEREEVER r n_add)
       E T s actor index r n_add"

text \<open>
  \<^verbatim>\<open>queryMaxCount\<close>: the count that fits and the answer. \<^verbatim>\<open>slotIndex\<close> counts only the stacks that have room.
\<close>

definition stack_room :: "Store \<Rightarrow> nat \<Rightarrow> nat \<Rightarrow> bool" where
  "stack_room s r x \<longleftrightarrow> x \<noteq> r \<and> item_equals (things s x) (things s r) \<and> item_count (things s x) < 100"

fun stack_rooms ::
  "(int \<Rightarrow> u32 \<Rightarrow> ReturnValue option) \<Rightarrow> Store \<Rightarrow> nat \<Rightarrow> nat list \<Rightarrow> nat \<Rightarrow> u32 \<Rightarrow> u32 option" where
  "stack_rooms query s r [] slotIndex n = Some n"
| "stack_rooms query s r (x # xs) slotIndex n =
     (if stack_room s r x then do {
        let remainder = 100 - ucast (item_count (things s x));
        ret \<leftarrow> query (int slotIndex) remainder;
        stack_rooms query s r xs (slotIndex + 1) (if ret = RETURNVALUE_NOERROR then n + remainder else n)
      } else stack_rooms query s r xs slotIndex n)"

definition free_capacity :: "Container \<Rightarrow> u32" where
  "free_capacity b =
     (let d = maxSize b - of_nat (length (itemlist b)) in if sint d < 0 then 0 else d)"

definition getItemAt :: "Store \<Rightarrow> nat \<Rightarrow> int \<Rightarrow> nat option" where
  "getItemAt s c index = (if index < 0 then None else getItemByIndex s c (nat index))"

definition queryMaxCount ::
  "carriers \<Rightarrow> ItemTypes \<Rightarrow> Store \<Rightarrow> nat \<Rightarrow> int \<Rightarrow> nat \<Rightarrow> u32 \<Rightarrow> u32 \<Rightarrow> (u32 \<times> ReturnValue) option" where
  "queryMaxCount E T s c index r n_add flags =
     (case boxes s c of
        None \<Rightarrow> None
      | Some b \<Rightarrow>
          if hasBitSet FLAG_NOLIMIT flags \<or> pagination b then Some (max 1 n_add, RETURNVALUE_NOERROR)
          else if type_stackable (T (item_id (things s r))) then do {
            n \<leftarrow> (if index = INDEX_WHEREEVER
                  then stack_rooms (\<lambda>i m. queryAdd E T s None i r m (Box c) flags) s r (itemlist b) 0 0
                  else Some (case getItemAt s c index of
                               Some x \<Rightarrow>
                                 if item_equals (things s r) (things s x) \<and> item_count (things s x) < 100
                                 then 100 - ucast (item_count (things s x)) else 0
                             | None \<Rightarrow> 0));
            let maxQueryCount = free_capacity b * 100 + n;
            Some (maxQueryCount,
                  if maxQueryCount < n_add then RETURNVALUE_CONTAINERNOTENOUGHROOM else RETURNVALUE_NOERROR)
          }
          else Some (free_capacity b,
                     if free_capacity b = 0 then RETURNVALUE_CONTAINERNOTENOUGHROOM else RETURNVALUE_NOERROR))"

definition queryRemove ::
  "carriers \<Rightarrow> ItemTypes \<Rightarrow> Store \<Rightarrow> nat option \<Rightarrow> nat \<Rightarrow> nat \<Rightarrow> u32 \<Rightarrow> u32 \<Rightarrow> ReturnValue option" where
  "queryRemove E T s actor c r n flags =
     (let it = things s r in
      if getThingIndex s c r = None then Some RETURNVALUE_NOTPOSSIBLE
      else if n = 0 \<or> type_stackable (T (item_id it)) \<and> n > ucast (item_count it) then Some RETURNVALUE_NOTPOSSIBLE
      else if \<not> type_moveable (T (item_id it)) \<and> \<not> hasBitSet FLAG_IGNORENOTMOVEABLE flags
      then Some RETURNVALUE_NOTMOVEABLE
      else do {
        top \<leftarrow> getTopParent s c;
        Some (case top of
                None \<Rightarrow> RETURNVALUE_NOERROR
              | Some y \<Rightarrow>
                  (case house_queryRemove E y r n flags actor of Some v \<Rightarrow> v | None \<Rightarrow> RETURNVALUE_NOERROR))
      })"

text \<open>
  \<^verbatim>\<open>queryDestination\<close>: the cylinder, the index and the item there; \<open>destItem\<close> comes in as the caller set it.
\<close>

fun find_stack :: "Store \<Rightarrow> nat \<Rightarrow> nat \<Rightarrow> nat list \<Rightarrow> (nat \<times> nat) option" where
  "find_stack s r n [] = None"
| "find_stack s r n (x # xs) = (if stack_room s r x then Some (n, x) else find_stack s r (n + 1) xs)"

definition stack_destination ::
  "ItemTypes \<Rightarrow> Store \<Rightarrow> nat \<Rightarrow> int \<Rightarrow> nat \<Rightarrow> nat option \<Rightarrow> u32 \<Rightarrow> (Cyl \<times> int \<times> nat option) option" where
  "stack_destination T s c index r destItem flags = do {
     up \<leftarrow> getParent s (Box r);
     Some (if \<not> hasBitSet FLAG_IGNOREAUTOSTACK flags \<and> type_stackable (T (item_id (things s r))) \<and> up \<noteq> Some (Box c) then
             if (case destItem of
                   Some x \<Rightarrow> item_equals (things s x) (things s r) \<and> item_count (things s x) < 100
                 | None \<Rightarrow> False)
             then (Box c, index, destItem)
             else (case find_stack s r 0 (items_of s c) of
                     Some (n, x) \<Rightarrow> (Box c, int n, Some x)
                   | None \<Rightarrow> (Box c, index, destItem))
           else (Box c, index, destItem))
   }"

definition queryDestination ::
  "ItemTypes \<Rightarrow> Store \<Rightarrow> nat \<Rightarrow> int \<Rightarrow> nat \<Rightarrow> nat option \<Rightarrow> u32 \<Rightarrow> (Cyl \<times> int \<times> nat option) option" where
  "queryDestination T s c index r destItem flags =
     (case boxes s c of
        None \<Rightarrow> None
      | Some b \<Rightarrow>
          if \<not> unlocked b then Some (Box c, index, None)
          else if index = 254 then do {
            up \<leftarrow> getParentContainer s c;
            Some (case up of Some p \<Rightarrow> Box p | None \<Rightarrow> Box c, INDEX_WHEREEVER, None)
          }
          else
            let wherever = (index = 255 \<or> index \<ge> sint (maxSize b) \<and> \<not> pagination b);
                index = (if wherever then INDEX_WHEREEVER else index);
                destItem = (if wherever then None else destItem) in
            if index \<noteq> INDEX_WHEREEVER then
              let destItem = (case getItemAt s c index of Some x \<Rightarrow> Some x | None \<Rightarrow> destItem) in
              (case destItem of
                 Some x \<Rightarrow>
                   if boxes s x \<noteq> None then Some (Box x, INDEX_WHEREEVER, None)
                   else stack_destination T s c index r destItem flags
               | None \<Rightarrow> stack_destination T s c index r destItem flags)
            else stack_destination T s c index r destItem flags)"

section \<open>Operations\<close>

definition addItem :: "nat \<Rightarrow> nat \<Rightarrow> Store \<Rightarrow> Store" where
  "addItem c r s = setParent r (Some (Box c)) (change_box c (\<lambda>b. b\<lparr>itemlist := itemlist b @ [r]\<rparr>) s)"

definition push_front :: "nat \<Rightarrow> nat \<Rightarrow> Store \<Rightarrow> Store" where
  "push_front c r s = change_box c (\<lambda>b. b\<lparr>itemlist := r # itemlist b\<rparr>) (setParent r (Some (Box c)) s)"

text \<open>The clients near a container that has a parent hear of a change; \<open>v\<close>: unless it is the virtual one.\<close>

definition tell :: "bool \<Rightarrow> nat \<Rightarrow> client_note \<Rightarrow> Store \<Rightarrow> Store option" where
  "tell v c n s = do {
     up \<leftarrow> getParent s (Box c);
     Some (if up = None \<or> v \<and> up = Some VirtualCylinder then s else add_note n s)
   }"

definition internalAddThing :: "ItemTypes \<Rightarrow> nat \<Rightarrow> nat \<Rightarrow> Store \<Rightarrow> Store option" where
  "internalAddThing T c r s =
     (let s = push_front c r s in updateItemWeight c (getWeight T s r) s)"

definition addThing :: "ItemTypes \<Rightarrow> nat \<Rightarrow> int \<Rightarrow> nat \<Rightarrow> Store \<Rightarrow> Store option" where
  "addThing T c index r s =
     (case boxes s c of
        None \<Rightarrow> None
      | Some b \<Rightarrow>
          if index \<ge> sint (maxSize b) then Some s
          else do {
            let s = push_front c r s;
            s \<leftarrow> updateItemWeight c (getWeight T s r) s;
            tell True c (AddContainerItem c r) s
          })"

definition addItemBack :: "ItemTypes \<Rightarrow> nat \<Rightarrow> nat \<Rightarrow> Store \<Rightarrow> Store option" where
  "addItemBack T c r s = do {
     let s = addItem c r s;
     s \<leftarrow> updateItemWeight c (getWeight T s r) s;
     tell True c (AddContainerItem c r) s
   }"

definition updateThing :: "ItemTypes \<Rightarrow> nat \<Rightarrow> nat \<Rightarrow> u16 \<Rightarrow> u32 \<Rightarrow> Store \<Rightarrow> Store option" where
  "updateThing T c r itemId n s =
     (case getThingIndex s c r of
        None \<Rightarrow> Some s
      | Some index \<Rightarrow> do {
          let oldWeight = getWeight T s r;
          let s = change_thing r (\<lambda>it. setSubType T (ucast n) (setID T itemId it)) s;
          s \<leftarrow> updateItemWeight c (getWeight T s r - oldWeight) s;
          tell False c (UpdateContainerItem c index r r) s
        })"

definition replaceThing :: "ItemTypes \<Rightarrow> nat \<Rightarrow> nat \<Rightarrow> nat \<Rightarrow> Store \<Rightarrow> Store option" where
  "replaceThing T c index r s =
     (case getItemByIndex s c index of
        None \<Rightarrow> Some s
      | Some replaced \<Rightarrow> do {
          let s = setParent r (Some (Box c)) (change_box c (\<lambda>b. b\<lparr>itemlist := (itemlist b)[index := r]\<rparr>) s);
          s \<leftarrow> updateItemWeight c (getWeight T s r - getWeight T s replaced) s;
          s \<leftarrow> tell False c (UpdateContainerItem c index replaced r) s;
          Some (setParent replaced None s)
        })"

text \<open>\<open>left_count\<close>: \<^verbatim>\<open>item->getItemCount() - count\<close> is unsigned and then read as \<^verbatim>\<open>int32_t\<close>.\<close>

definition left_count :: "u8 \<Rightarrow> u32 \<Rightarrow> u8" where
  "left_count m n = (let d = ucast m - n in if sint d < 0 then 0 else ucast d)"

definition removeThing :: "ItemTypes \<Rightarrow> nat \<Rightarrow> nat \<Rightarrow> u32 \<Rightarrow> Store \<Rightarrow> Store option" where
  "removeThing T c r n s =
     (case getThingIndex s c r of
        None \<Rightarrow> Some s
      | Some index \<Rightarrow>
          if type_stackable (T (item_id (things s r))) \<and> n \<noteq> ucast (item_count (things s r)) then do {
            let oldWeight = getWeight T s r;
            let s = change_thing r (\<lambda>it. it\<lparr>item_count := left_count (item_count it) n\<rparr>) s;
            s \<leftarrow> updateItemWeight c (getWeight T s r - oldWeight) s;
            tell False c (UpdateContainerItem c index r r) s
          }
          else do {
            s \<leftarrow> updateItemWeight c (- getWeight T s r) s;
            s \<leftarrow> tell False c (RemoveContainerItem c index r) s;
            let s = setParent r None s;
            Some (change_box c (\<lambda>b. b\<lparr>itemlist := take index (itemlist b) @ drop (Suc index) (itemlist b)\<rparr>) s)
          })"

definition removeInbox :: "nat \<Rightarrow> nat \<Rightarrow> Store \<Rightarrow> Store" where
  "removeInbox c inbox s = change_box c (\<lambda>b. b\<lparr>itemlist := remove1 inbox (itemlist b)\<rparr>) s"

text \<open>The cylinder that hears of an addition or a removal, and the link it hears it by.\<close>

datatype CylinderLink_t = LINK_OWNER | LINK_PARENT | LINK_TOPPARENT | LINK_NEAR

definition post_target :: "Store \<Rightarrow> nat \<Rightarrow> (Cyl \<times> CylinderLink_t) option option" where
  "post_target s c =
     (if has_kind {DepotLockerBox, RewardChestBox} s c then
        Some (map_option (\<lambda>y. (y, LINK_PARENT)) (item_parent s c))
      else if has_kind {InboxBox, DepotChestBox, RewardBox} s c then do {
        up \<leftarrow> getParent s (Box c);
        Some (map_option (\<lambda>y. (y, LINK_PARENT)) up)
      }
      else do {
        top \<leftarrow> getTopParent s c;
        (case top of
           None \<Rightarrow> None
         | Some (Person p) \<Rightarrow> Some (Some (Person p, LINK_TOPPARENT))
         | Some y \<Rightarrow>
             if y = Box c then do {
               up \<leftarrow> getParent s y;
               Some (map_option (\<lambda>z. (z, LINK_NEAR)) up)
             }
             else Some (Some (y, LINK_PARENT)))
      })"

text \<open>The loops run by their equations.\<close>

declare getParent.simps [code] top_container_loop.simps [code] top_loop.simps [code] updateItemWeight.simps [code]
  visit.simps [code] free_slots_loop.simps [code] above_loop.simps [code]

end
