(* ===== verification/ContainerTree.thy ===== *)
theory ContainerTree
  imports Containers
begin

text \<open>
  What keeps the store of containers sound: no container is inside itself, the list of a container and
  the parents of its items agree, and the cached weight of a container is the sum of the weights of its
  items. The theorems show that the operations of containers return and keep this, that a query that
  allows an addition rules out a cycle, and that the iterator sees every item below a container once.
\<close>

section \<open>The tree of containers\<close>

definition inside :: "Store \<Rightarrow> (nat \<times> nat) set" where
  "inside s = {(p, r). item_parent s r = Some (Box p)}"

definition hidden :: "Store \<Rightarrow> nat \<Rightarrow> bool" where
  "hidden s c = has_kind {InboxBox, RewardBox, DepotChestBox} s c"

definition rooted :: "Store \<Rightarrow> nat \<Rightarrow> bool" where
  "rooted s p \<longleftrightarrow> \<not> hidden s p \<and> (\<forall>q. item_parent s p \<noteq> Some (Box q))"

text \<open>
  Where the boxes that hide their parents stand: an inbox or a reward in a box that is in no other box, a
  depot chest in a box that is at most in such a box.
\<close>

definition secluded :: "Store \<Rightarrow> bool" where
  "secluded s \<longleftrightarrow>
     (\<forall>h p. item_parent s h = Some (Box p) \<longrightarrow>
        (has_kind {InboxBox, RewardBox} s h \<longrightarrow> rooted s p) \<and>
        (has_kind {DepotChestBox} s h \<longrightarrow>
           \<not> hidden s p \<and> (\<forall>q. item_parent s p = Some (Box q) \<longrightarrow> rooted s q)))"

definition counted :: "Store \<Rightarrow> nat \<Rightarrow> bool" where
  "counted s r \<longleftrightarrow> (\<forall>p. count_list (items_of s p) r = (if item_parent s r = Some (Box p) then 1 else 0))"

definition chests_stowed :: "Store \<Rightarrow> bool" where
  "chests_stowed s \<longleftrightarrow>
     (\<forall>c y. has_kind {DepotChestBox} s c \<longrightarrow> item_parent s c = Some y \<longrightarrow> (\<exists>p. y = Box p))"

definition tree_ok :: "Store \<Rightarrow> bool" where
  "tree_ok s \<longleftrightarrow>
     finite (dom (item_parent s)) \<and> acyclic (inside s) \<and> secluded s \<and> (\<forall>r. counted s r) \<and> chests_stowed s"

definition accounted :: "Store \<Rightarrow> nat \<Rightarrow> bool" where
  "accounted s q \<longleftrightarrow> (\<forall>r \<in> set (items_of s q). \<not> hidden s r)"

definition child_weight :: "ItemTypes \<Rightarrow> Store \<Rightarrow> nat \<Rightarrow> u32" where
  "child_weight T s q = sum_list (map (getWeight T s) (items_of s q))"

definition deficit :: "ItemTypes \<Rightarrow> Store \<Rightarrow> nat \<Rightarrow> u32" where
  "deficit T s q = (case boxes s q of None \<Rightarrow> 0 | Some b \<Rightarrow> totalWeight b - child_weight T s q)"

definition store_ok :: "ItemTypes \<Rightarrow> Store \<Rightarrow> bool" where
  "store_ok T s \<longleftrightarrow> tree_ok s \<and> (\<forall>q. accounted s q \<longrightarrow> deficit T s q = 0)"

lemmas store_updates = change_box_def change_thing_def setParent_def add_note_def

section \<open>Parents\<close>

lemma parent_Person [simp]: "getParent s (Person p) = Some (map_option Ground (person_tile s p))"
  by (subst getParent.simps) simp

lemma parent_Ground [simp]: "getParent s (Ground g) = Some None"
  by (subst getParent.simps) simp

lemma parent_Virtual [simp]: "getParent s VirtualCylinder = Some None"
  by (subst getParent.simps) simp

lemma parent_plain: "\<not> hidden s c \<Longrightarrow> getParent s (Box c) = Some (item_parent s c)"
  by (subst getParent.simps) (auto simp: hidden_def has_kind_def split: option.splits)

definition outside :: "Cyl option \<Rightarrow> bool" where
  "outside z \<longleftrightarrow> (\<forall>p. z \<noteq> Some (Box p))"

lemma parent_outside: "(\<forall>c. y \<noteq> Box c) \<Longrightarrow> \<exists>z. getParent s y = Some z \<and> outside z"
  by (cases y) (auto simp: outside_def)

lemma parent_skip:
  "has_kind {InboxBox, RewardBox} s c \<Longrightarrow>
     getParent s (Box c) = (case item_parent s c of None \<Rightarrow> Some None | Some p \<Rightarrow> getParent s p)"
  by (subst getParent.simps) simp

lemma parent_skip2:
  assumes "has_kind {DepotChestBox} s c"
  shows "getParent s (Box c) =
    (case item_parent s c of
       None \<Rightarrow> Some None
     | Some p \<Rightarrow> Option.bind (getParent s p) (\<lambda>q. case q of None \<Rightarrow> Some None | Some z \<Rightarrow> getParent s z))"
  using assms by (subst getParent.simps) (auto simp: has_kind_def split: option.splits)

lemma parent_rooted: "rooted s p \<Longrightarrow> \<exists>z. getParent s (Box p) = Some z \<and> outside z"
  by (auto simp: rooted_def parent_plain outside_def)

lemma parent_hidden:
  assumes "secluded s" "hidden s h"
  shows "\<exists>z. getParent s (Box h) = Some z \<and> outside z"
proof (cases "item_parent s h")
  case None
  then show ?thesis using assms(2)
    by (auto simp: hidden_def has_kind_def parent_skip parent_skip2 outside_def split: option.splits)
next
  case (Some y)
  show ?thesis
  proof (cases "has_kind {DepotChestBox} s h")
    case False
    then have k: "has_kind {InboxBox, RewardBox} s h"
      using assms(2) by (auto simp: hidden_def has_kind_def split: option.splits)
    show ?thesis
    proof (cases "\<exists>p. y = Box p")
      case True
      then obtain p where "y = Box p" by blast
      then show ?thesis using k Some assms(1) parent_rooted [of s p] by (auto simp: secluded_def parent_skip)
    next
      case False
      then show ?thesis using k Some parent_outside [of y s] by (simp add: parent_skip)
    qed
  next
    case k: True
    have up: "\<exists>z. getParent s y = Some z \<and> (\<forall>w. z = Some w \<longrightarrow> (\<exists>v. getParent s w = Some v \<and> outside v))"
    proof (cases "\<exists>p. y = Box p")
      case True
      then obtain p where y: "y = Box p" by blast
      have p: "\<not> hidden s p" "\<And>q. item_parent s p = Some (Box q) \<Longrightarrow> rooted s q"
        using k Some y assms(1) by (auto simp: secluded_def)
      have "\<exists>v. getParent s w = Some v \<and> outside v" if "item_parent s p = Some w" for w
        using that p(2) parent_rooted parent_outside by (cases "\<exists>q. w = Box q") auto
      then show ?thesis using p(1) y by (simp add: parent_plain)
    next
      case False
      then show ?thesis by (cases y) (auto simp: outside_def)
    qed
    then show ?thesis using k Some by (auto simp: parent_skip2 outside_def split: option.splits)
  qed
qed

lemma parent_container:
  assumes "secluded s"
  shows "getParentContainer s c =
    Some (if hidden s c then None else case item_parent s c of Some y \<Rightarrow> getContainer y | None \<Rightarrow> None)"
proof (cases "hidden s c")
  case True
  then obtain z where "getParent s (Box c) = Some z" "outside z" using parent_hidden assms by blast
  then show ?thesis using True
    by (auto simp: getParentContainer_def outside_def getContainer_def split: option.splits Cyl.splits)
next
  case False
  then show ?thesis by (simp add: getParentContainer_def parent_plain)
qed

section \<open>Weights\<close>

definition above :: "Store \<Rightarrow> nat \<Rightarrow> nat set" where
  "above s c = {q. (q, c) \<in> (inside s)\<^sup>*}"

text \<open>\<open>s'\<close> is \<open>s\<close> with other cached weights at boxes of \<open>A\<close>.\<close>

definition reweighed :: "nat set \<Rightarrow> Store \<Rightarrow> Store \<Rightarrow> bool" where
  "reweighed A s s' \<longleftrightarrow>
     s' = s\<lparr>boxes := boxes s'\<rparr> \<and>
     (\<forall>q. boxes s' q = boxes s q \<or>
        q \<in> A \<and> (\<exists>w. boxes s' q = map_option (\<lambda>b. b\<lparr>totalWeight := w\<rparr>) (boxes s q)))"

lemma reweighed_fields:
  assumes "reweighed A s s'"
  shows "item_parent s' = item_parent s" "things s' = things s" "person_tile s' = person_tile s"
    "has_kind K s' = has_kind K s" "items_of s' = items_of s" "boxes s' c = None \<longleftrightarrow> boxes s c = None"
    "q \<notin> A \<Longrightarrow> boxes s' q = boxes s q"
proof -
  have s': "s' = s\<lparr>boxes := boxes s'\<rparr>" and b: "\<And>q. boxes s' q = boxes s q \<or>
        q \<in> A \<and> (\<exists>w. boxes s' q = map_option (\<lambda>b. b\<lparr>totalWeight := w\<rparr>) (boxes s q))"
    using assms by (auto simp: reweighed_def)
  show "item_parent s' = item_parent s" "things s' = things s" "person_tile s' = person_tile s"
    by (subst s', simp)+
  show "has_kind K s' = has_kind K s"
  proof
    fix q show "has_kind K s' q = has_kind K s q" using b [of q] by (auto simp: has_kind_def split: option.splits)
  qed
  show "items_of s' = items_of s"
  proof
    fix q show "items_of s' q = items_of s q" using b [of q] by (auto simp: items_of_def split: option.splits)
  qed
  show "boxes s' c = None \<longleftrightarrow> boxes s c = None" using b [of c] by auto
  show "q \<notin> A \<Longrightarrow> boxes s' q = boxes s q" using b [of q] by auto
qed

lemma reweighed_tree:
  assumes "reweighed A s s'"
  shows "inside s' = inside s" "hidden s' = hidden s" "rooted s' = rooted s" "secluded s' = secluded s"
    "counted s' = counted s" "accounted s' = accounted s" "chests_stowed s' = chests_stowed s" "tree_ok s' = tree_ok s"
proof -
  note f = reweighed_fields [OF assms]
  show i: "inside s' = inside s" and h: "hidden s' = hidden s" and c: "counted s' = counted s"
    and st: "chests_stowed s' = chests_stowed s"
    by (auto simp: inside_def hidden_def counted_def chests_stowed_def f fun_eq_iff)
  show r: "rooted s' = rooted s" by (auto simp: rooted_def h f fun_eq_iff)
  show se: "secluded s' = secluded s" by (simp add: secluded_def h r f)
  show "accounted s' = accounted s" by (auto simp: accounted_def h f fun_eq_iff)
  show "tree_ok s' = tree_ok s" by (simp add: tree_ok_def i c st se f)
qed

lemma reweighed_trans: "reweighed A s s' \<Longrightarrow> reweighed B s' s'' \<Longrightarrow> reweighed (A \<union> B) s s''"
  unfolding reweighed_def
proof (elim conjE, intro conjI allI)
  assume h: "s' = s\<lparr>boxes := boxes s'\<rparr>" "s'' = s'\<lparr>boxes := boxes s''\<rparr>"
  show "s'' = s\<lparr>boxes := boxes s''\<rparr>" by (subst h(2), subst h(1)) simp
next
  fix q
  assume h: "\<forall>q. boxes s' q = boxes s q \<or>
      q \<in> A \<and> (\<exists>w. boxes s' q = map_option (\<lambda>b. b\<lparr>totalWeight := w\<rparr>) (boxes s q))"
    "\<forall>q. boxes s'' q = boxes s' q \<or>
      q \<in> B \<and> (\<exists>w. boxes s'' q = map_option (\<lambda>b. b\<lparr>totalWeight := w\<rparr>) (boxes s' q))"
  show "boxes s'' q = boxes s q \<or>
      q \<in> A \<union> B \<and> (\<exists>w. boxes s'' q = map_option (\<lambda>b. b\<lparr>totalWeight := w\<rparr>) (boxes s q))"
    using h(1) [rule_format, of q] h(2) [rule_format, of q]
    by (cases "boxes s q") auto
qed

lemma reweighed_mono: "reweighed A s s' \<Longrightarrow> A \<subseteq> B \<Longrightarrow> reweighed B s s'"
  unfolding reweighed_def by blast

lemma sum_list_change:
  fixes f g :: "nat \<Rightarrow> 'a::len word"
  assumes "\<And>r. r \<noteq> x \<Longrightarrow> g r = f r"
  shows "sum_list (map g rs) = sum_list (map f rs) + of_nat (count_list rs x) * (g x - f x)"
proof (induction rs)
  case (Cons r rs)
  then show ?case using assms [of r] by (cases "r = x") (simp_all add: algebra_simps)
qed simp

lemma counted_box: "counted s r \<Longrightarrow> item_parent s r = Some (Box q) \<Longrightarrow> boxes s q \<noteq> None"
  by (cases "boxes s q") (auto simp: counted_def items_of_def dest: spec [of _ q])

definition bump :: "nat \<Rightarrow> u32 \<Rightarrow> Store \<Rightarrow> Store" where
  "bump c d s = change_box c (\<lambda>b. b\<lparr>totalWeight := totalWeight b + d\<rparr>) s"

lemma bump_reweighed: "reweighed {c} s (bump c d s)"
  by (auto simp: reweighed_def bump_def change_box_def map_option_case split: option.splits)

lemma bump_deficit:
  assumes "boxes s c = Some b" "counted s c" "(c, c) \<notin> inside s"
  shows "deficit T (bump c d s) q =
    deficit T s q + (if q = c then d else 0) - (if item_parent s c = Some (Box q) then d else 0)"
proof -
  have w: "getWeight T (bump c d s) r = getWeight T s r + (if r = c then d else 0)" for r
    using assms(1) by (simp add: getWeight_def bump_def change_box_def)
  have items: "items_of (bump c d s) = items_of s" using reweighed_fields(5) [OF bump_reweighed] .
  have cw: "child_weight T (bump c d s) q =
      child_weight T s q + (if item_parent s c = Some (Box q) then d else 0)"
    using assms(2) sum_list_change [of c "getWeight T (bump c d s)" "getWeight T s" "items_of s q"] w
    by (simp add: child_weight_def items counted_def)
  show ?thesis
  proof (cases "boxes s q")
    case None
    then have "q \<noteq> c" "item_parent s c \<noteq> Some (Box q)"
      using assms(1) counted_box [OF assms(2), of q] by auto
    then show ?thesis using None by (simp add: deficit_def bump_def change_box_def)
  next
    case (Some a)
    then have "boxes (bump c d s) q = Some (if q = c then a\<lparr>totalWeight := totalWeight a + d\<rparr> else a)"
      by (auto simp: bump_def change_box_def)
    then show ?thesis using Some cw by (simp add: deficit_def)
  qed
qed

lemma updateItemWeight_unfold:
  "secluded s \<Longrightarrow> updateItemWeight c d s =
     (case (if hidden s c then None else case item_parent s c of Some y \<Rightarrow> getContainer y | None \<Rightarrow> None) of
        Some p \<Rightarrow> updateItemWeight p d (bump c d s)
      | None \<Rightarrow> Some (bump c d s))"
  using reweighed_tree [OF bump_reweighed [of c s d]] reweighed_fields [OF bump_reweighed [of c s d]]
  by (subst updateItemWeight.simps) (simp add: bump_def [symmetric] parent_container Let_def)

lemma update_weight:
  assumes "wf (inside s)" "secluded s" "\<forall>q \<in> above s c. counted s q" "boxes s c \<noteq> None"
  shows "\<exists>s'. updateItemWeight c d s = Some s' \<and> reweighed (above s c) s s' \<and>
    (\<forall>q. accounted s q \<longrightarrow> deficit T s' q = deficit T s q + (if q = c then d else 0))"
proof -
  define R where "R = inside s"
  have "wf R" "inside s = R" using assms(1) R_def by auto
  then show ?thesis using assms(2-)
  proof (induction c arbitrary: s rule: wf_induct_rule)
    case (less c)
    let ?s = "bump c d s"
    note rw = bump_reweighed [of c s d]
    note tree = reweighed_tree [OF rw] and fields = reweighed_fields [OF rw]
    obtain b where b: "boxes s c = Some b" using less.prems by auto
    have c_above: "c \<in> above s c" by (simp add: above_def)
    have nc: "(c, c) \<notin> inside s" using \<open>wf R\<close> less.prems(1) by (auto dest: wf_not_refl)
    have def1: "deficit T ?s q = deficit T s q + (if q = c then d else 0) -
        (if item_parent s c = Some (Box q) then d else 0)" for q
      using bump_deficit [OF b _ nc] less.prems(3) c_above by blast
    have sub1: "reweighed (above s c) s ?s" by (rule reweighed_mono [OF rw]) (simp add: above_def)
    consider (stop) "(if hidden s c then None else case item_parent s c of Some y \<Rightarrow> getContainer y | None \<Rightarrow> None) = None"
      | (up) p where "\<not> hidden s c" "item_parent s c = Some (Box p)"
      by (cases "hidden s c"; cases "item_parent s c"; cases "the (item_parent s c)") (auto simp: getContainer_def)
    then show ?case
    proof cases
      case stop
      have "deficit T ?s q = deficit T s q + (if q = c then d else 0)" if "accounted s q" for q
      proof -
        have "item_parent s c \<noteq> Some (Box q)"
        proof
          assume p: "item_parent s c = Some (Box q)"
          then have "hidden s c" using stop by (auto simp: getContainer_def split: if_splits)
          moreover have "count_list (items_of s q) c = 1" using p less.prems(3) c_above by (simp add: counted_def)
          ultimately show False using that unfolding accounted_def
            by (metis count_list_0_iff zero_neq_one)
        qed
        then show ?thesis by (simp add: def1)
      qed
      then show ?thesis using stop sub1 less.prems(2) by (simp add: updateItemWeight_unfold)
    next
      case (up p)
      have pc: "(p, c) \<in> R" using up less.prems(1) by (auto simp: inside_def)
      have "boxes s p \<noteq> None" using counted_box up(2) less.prems(3) c_above by blast
      then have box: "boxes ?s p \<noteq> None" using fields(6) [of p] by simp
      have ab: "above ?s p \<subseteq> above s c"
        using pc less.prems(1) tree(1) by (auto simp: above_def intro: rtrancl_into_rtrancl)
      have cnt: "\<forall>q \<in> above ?s p. counted ?s q" using ab less.prems(3) tree(5) by auto
      obtain s' where s': "updateItemWeight p d ?s = Some s'" "reweighed (above ?s p) ?s s'"
        "\<forall>q. accounted ?s q \<longrightarrow> deficit T s' q = deficit T ?s q + (if q = p then d else 0)"
        using less.IH [OF pc, of ?s] less.prems(1,2) box cnt tree(1,4) by metis
      have "reweighed (above s c) s s'"
        by (rule reweighed_mono [OF reweighed_trans [OF rw s'(2)]]) (use ab in \<open>auto simp: above_def\<close>)
      moreover have "deficit T s' q = deficit T s q + (if q = c then d else 0)" if "accounted s q" for q
        using s'(3) that tree(6) up(2) by (auto simp: def1)
      ultimately show ?thesis using s'(1) up less.prems(2)
        by (simp add: updateItemWeight_unfold getContainer_def)
    qed
  qed
qed

section \<open>Moving an item\<close>

definition relist :: "nat \<Rightarrow> nat list \<Rightarrow> Store \<Rightarrow> Store" where
  "relist c xs s = change_box c (\<lambda>b. b\<lparr>itemlist := xs\<rparr>) s"

lemma relist_fields [simp]:
  "item_parent (relist c xs s) = item_parent s" "things (relist c xs s) = things s"
  "has_kind K (relist c xs s) = has_kind K s" "boxes (relist c xs s) q = None \<longleftrightarrow> boxes s q = None"
  "getWeight T (relist c xs s) = getWeight T s"
  "items_of (relist c xs s) q = (if q = c \<and> boxes s c \<noteq> None then xs else items_of s q)"
  by (auto simp: relist_def change_box_def has_kind_def getWeight_def items_of_def fun_eq_iff split: option.splits)

lemma setParent_fields [simp]:
  "item_parent (setParent r y s) = (item_parent s)(r := y)" "things (setParent r y s) = things s"
  "has_kind K (setParent r y s) = has_kind K s" "boxes (setParent r y s) = boxes s"
  "getWeight T (setParent r y s) = getWeight T s" "items_of (setParent r y s) = items_of s"
  by (auto simp: setParent_def has_kind_def getWeight_def items_of_def fun_eq_iff)

lemma hidden_fields [simp]: "hidden (relist c xs s) = hidden s" "hidden (setParent r y s) = hidden s"
  by (auto simp: hidden_def fun_eq_iff)

lemma inside_relist [simp]: "inside (relist c xs s) = inside s"
  by (simp add: inside_def)

lemma secluded_relist [simp]: "secluded (relist c xs s) = secluded s"
  by (simp add: secluded_def rooted_def)

lemma chests_relist [simp]: "chests_stowed (relist c xs s) = chests_stowed s"
  by (simp add: chests_stowed_def)

lemma addItem_relist:
  "addItem c r s = setParent r (Some (Box c)) (relist c (items_of s c @ [r]) s)"
  "push_front c r s = setParent r (Some (Box c)) (relist c (r # items_of s c) s)"
  by (auto simp: addItem_def push_front_def relist_def change_box_def items_of_def setParent_def split: option.splits)

definition clean :: "Store \<Rightarrow> nat \<Rightarrow> bool" where
  "clean s r \<longleftrightarrow> (\<forall>h. (r, h) \<in> (inside s)\<^sup>* \<longrightarrow> \<not> hidden s h)"

lemma inside_enter: "inside (setParent r (Some (Box c)) s) \<subseteq> insert (c, r) (inside s)"
  by (auto simp: inside_def)

lemma inside_leave: "outside y \<Longrightarrow> inside (setParent r y s) \<subseteq> inside s"
  by (auto simp: inside_def outside_def split: if_splits)

lemma acyclic_enter:
  "acyclic (inside s) \<Longrightarrow> (r, c) \<notin> (inside s)\<^sup>* \<Longrightarrow> acyclic (inside (setParent r (Some (Box c)) s))"
  by (rule acyclic_subset [OF _ inside_enter]) (simp add: acyclic_insert)

lemma acyclic_leave: "acyclic (inside s) \<Longrightarrow> outside y \<Longrightarrow> acyclic (inside (setParent r y s))"
  by (rule acyclic_subset [OF _ inside_leave])

lemma clean_self: "clean s r \<Longrightarrow> \<not> hidden s r"
  by (simp add: clean_def)

lemma clean_below: "clean s r \<Longrightarrow> item_parent s h = Some (Box r) \<Longrightarrow> \<not> hidden s h"
  unfolding clean_def inside_def by blast

lemma clean_below2:
  "clean s r \<Longrightarrow> item_parent s p = Some (Box r) \<Longrightarrow> item_parent s h = Some (Box p) \<Longrightarrow> \<not> hidden s h"
  unfolding clean_def inside_def
  by (metis (mono_tags, lifting) case_prodI mem_Collect_eq r_into_rtrancl rtrancl.rtrancl_into_rtrancl)

lemma kinds_hidden:
  "has_kind {InboxBox, RewardBox} s h \<Longrightarrow> hidden s h" "has_kind {DepotChestBox} s h \<Longrightarrow> hidden s h"
  by (auto simp: hidden_def has_kind_def split: option.splits)

lemma secluded_enter:
  assumes "secluded s" "clean s r"
  shows "secluded (setParent r (Some (Box c)) s)"
proof -
  have old: "\<And>h p. item_parent s h = Some (Box p) \<Longrightarrow>
      (has_kind {InboxBox, RewardBox} s h \<longrightarrow> rooted s p) \<and>
      (has_kind {DepotChestBox} s h \<longrightarrow> \<not> hidden s p \<and> (\<forall>q. item_parent s p = Some (Box q) \<longrightarrow> rooted s q))"
    using assms(1) by (simp add: secluded_def)
  have root: "rooted (setParent r (Some (Box c)) s) p" if "rooted s p" "p \<noteq> r" for p
    using that by (simp add: rooted_def)
  show ?thesis
    unfolding secluded_def
  proof (intro allI impI)
    fix h p
    assume "item_parent (setParent r (Some (Box c)) s) h = Some (Box p)"
    then consider "h = r" | "h \<noteq> r" "item_parent s h = Some (Box p)" by (auto split: if_splits)
    then show "(has_kind {InboxBox, RewardBox} (setParent r (Some (Box c)) s) h \<longrightarrow> rooted (setParent r (Some (Box c)) s) p) \<and>
      (has_kind {DepotChestBox} (setParent r (Some (Box c)) s) h \<longrightarrow> \<not> hidden (setParent r (Some (Box c)) s) p \<and>
        (\<forall>q. item_parent (setParent r (Some (Box c)) s) p = Some (Box q) \<longrightarrow> rooted (setParent r (Some (Box c)) s) q))"
    proof cases
      case 1
      then show ?thesis using clean_self [OF assms(2)] kinds_hidden by auto
    next
      case 2
      have "p \<noteq> r" if "hidden s h" using 2 clean_below [OF assms(2)] that by blast
      moreover have "q \<noteq> r" if "hidden s h" "item_parent s p = Some (Box q)" for q
        using 2 clean_below2 [OF assms(2)] that by blast
      ultimately show ?thesis using old [OF 2(2)] root kinds_hidden by auto
    qed
  qed
qed

lemma secluded_leave:
  assumes "secluded s" "outside y"
  shows "secluded (setParent r y s)"
proof -
  have "rooted (setParent r y s) p" if "rooted s p" for p
    using that assms(2) by (simp add: rooted_def outside_def)
  then show ?thesis using assms unfolding secluded_def outside_def by (auto split: if_splits)
qed

lemma count_list_mset: "count_list xs x = count (mset xs) x"
  by (induction xs) auto

lemma sum_list_mset: "sum_list (map f xs) = (\<Sum>x \<in># mset xs. f x)" for f :: "nat \<Rightarrow> 'a::len word"
  by (induction xs) auto

lemma setParent_relist: "setParent r y (relist c xs s) = relist c xs (setParent r y s)"
  by (simp add: setParent_def relist_def change_box_def)

lemma tree_enter:
  assumes "tree_ok s" "boxes s c \<noteq> None" "item_parent s r = None" "(r, c) \<notin> (inside s)\<^sup>*" "secluded (setParent r (Some (Box c)) s)"
    "mset xs = add_mset r (mset (items_of s c))"
  shows "tree_ok (setParent r (Some (Box c)) (relist c xs s))"
proof -
  let ?s = "setParent r (Some (Box c)) (relist c xs s)"
  have cnt: "\<And>x p. count_list (items_of s p) x = (if item_parent s x = Some (Box p) then 1 else 0)"
    using assms(1) by (simp add: tree_ok_def counted_def)
  have "counted ?s x" for x
    unfolding counted_def
  proof
    fix p
    have "count_list (items_of ?s p) x = count_list (items_of s p) x + (if p = c \<and> x = r then 1 else 0)"
      using assms(2,6) by (simp add: count_list_mset)
    then show "count_list (items_of ?s p) x = (if item_parent ?s x = Some (Box p) then 1 else 0)"
      using assms(3) cnt [of p x] by simp
  qed
  moreover have "acyclic (inside ?s)" using assms(1,4) by (auto simp: tree_ok_def intro: acyclic_enter)
  moreover have "secluded ?s" using assms(5) by (simp add: setParent_relist)
  moreover have "chests_stowed ?s" using assms(1) by (auto simp: tree_ok_def chests_stowed_def)
  moreover have "finite (dom (item_parent ?s))" using assms(1) by (simp add: tree_ok_def)
  ultimately show ?thesis by (simp add: tree_ok_def)
qed

lemma tree_leave:
  assumes "tree_ok s" "boxes s c \<noteq> None" "mset (items_of s c) = add_mset r (mset xs)"
  shows "tree_ok (setParent r None (relist c xs s))"
proof -
  let ?s = "setParent r None (relist c xs s)"
  have cnt: "\<And>x p. count_list (items_of s p) x = (if item_parent s x = Some (Box p) then 1 else 0)"
    using assms(1) by (simp add: tree_ok_def counted_def)
  have pr: "item_parent s r = Some (Box c)" using cnt [of c r] assms(3) by (auto simp: count_list_mset split: if_splits)
  have "counted ?s x" for x
    unfolding counted_def
  proof
    fix p show "count_list (items_of ?s p) x = (if item_parent ?s x = Some (Box p) then 1 else 0)"
      using assms(2,3) cnt [of c x] cnt [of p x] pr by (auto simp: count_list_mset split: if_splits)
  qed
  moreover have "acyclic (inside ?s)"
    using assms(1) by (auto simp: tree_ok_def outside_def intro: acyclic_leave)
  moreover have "secluded ?s" using assms(1) by (auto simp: tree_ok_def outside_def intro: secluded_leave)
  moreover have "chests_stowed ?s" using assms(1) by (auto simp: tree_ok_def chests_stowed_def)
  moreover have "finite (dom (item_parent ?s))" using assms(1) by (auto simp: tree_ok_def)
  ultimately show ?thesis by (simp add: tree_ok_def)
qed

lemma relist_deficit:
  "boxes s c \<noteq> None \<Longrightarrow>
   deficit T (setParent r y (relist c xs s)) q =
     deficit T s q + (if q = c then child_weight T s c - sum_list (map (getWeight T s) xs) else 0)"
  by (auto simp: deficit_def child_weight_def relist_def change_box_def items_of_def getWeight_def
      map_option_case comp_def split: option.splits if_splits intro!: arg_cong [where f = sum_list])

section \<open>The operations keep the store sound\<close>

lemma tree_wf:
  assumes "finite (dom (item_parent s))" "acyclic (inside s)"
  shows "wf (inside s)" "finite (inside s)"
proof -
  have "inside s \<subseteq> (\<lambda>r. (case the (item_parent s r) of Box p \<Rightarrow> p | _ \<Rightarrow> 0, r)) ` dom (item_parent s)"
    by (force simp: inside_def)
  then show "finite (inside s)" using assms(1) finite_surj by blast
  then show "wf (inside s)" using assms(2) by (rule finite_acyclic_wf)
qed

lemma tree_okD:
  assumes "tree_ok s"
  shows "wf (inside s)" "finite (inside s)" "secluded s" "\<And>r. counted s r" "acyclic (inside s)" "chests_stowed s"
    "finite (dom (item_parent s))"
  using assms tree_wf unfolding tree_ok_def by auto

lemma parent_total: "secluded s \<Longrightarrow> \<exists>z. getParent s y = Some z"
proof (cases y)
  case (Box c)
  assume "secluded s"
  then show ?thesis using Box parent_hidden [of s c] parent_plain [of s c] by blast
qed auto

lemma add_note_fields [simp]:
  "item_parent (add_note n s) = item_parent s" "boxes (add_note n s) = boxes s" "things (add_note n s) = things s"
  by (simp_all add: add_note_def)

lemma tree_ok_cong:
  assumes "item_parent s' = item_parent s" "boxes s' = boxes s"
  shows "tree_ok s' = tree_ok s" "inside s' = inside s" "secluded s' = secluded s" "counted s' = counted s"
    "accounted s' = accounted s" "items_of s' = items_of s" "hidden s' = hidden s"
proof -
  show i: "items_of s' = items_of s" and h: "hidden s' = hidden s" and n: "inside s' = inside s"
    and st: "counted s' = counted s"
    using assms by (auto simp: items_of_def hidden_def has_kind_def inside_def counted_def fun_eq_iff)
  show se: "secluded s' = secluded s" using assms by (simp add: secluded_def rooted_def hidden_def has_kind_def)
  show "accounted s' = accounted s" by (auto simp: accounted_def i h fun_eq_iff)
  show "tree_ok s' = tree_ok s" using assms by (simp add: tree_ok_def n se st chests_stowed_def has_kind_def)
qed

lemma weights_cong:
  assumes "item_parent s' = item_parent s" "boxes s' = boxes s" "things s' = things s"
  shows "getWeight T s' = getWeight T s" "child_weight T s' = child_weight T s" "deficit T s' = deficit T s"
proof -
  show w: "getWeight T s' = getWeight T s" using assms by (simp add: getWeight_def fun_eq_iff)
  show c: "child_weight T s' = child_weight T s"
    by (intro ext) (simp add: child_weight_def w tree_ok_cong(6) [OF assms(1,2)])
  show "deficit T s' = deficit T s" by (intro ext) (simp add: deficit_def assms c split: option.split)
qed

lemma store_ok_cong:
  assumes "item_parent s' = item_parent s" "boxes s' = boxes s" "things s' = things s"
  shows "store_ok T s' = store_ok T s"
  by (simp add: store_ok_def tree_ok_cong [OF assms(1,2)] weights_cong [OF assms])

lemma tell_returns:
  assumes "secluded s"
  shows "\<exists>s'. tell v c n s = Some s' \<and> (s' = s \<or> s' = add_note n s)"
  using parent_total [OF assms, of "Box c"] by (auto simp: tell_def)

lemma tell_ok: "store_ok T s \<Longrightarrow> \<exists>s'. tell v c n s = Some s' \<and> store_ok T s'"
  using tell_returns [of s v c n] store_ok_cong [of "add_note n s" s T] tree_okD(3)
  by (fastforce simp: store_ok_def)

lemma update_returns_ok:
  assumes "tree_ok s" "boxes s c \<noteq> None" "\<And>q. accounted s q \<Longrightarrow> deficit T s q = (if q = c then - d else 0)"
  shows "\<exists>s'. updateItemWeight c d s = Some s' \<and> store_ok T s'"
proof -
  obtain s' where s': "updateItemWeight c d s = Some s'" "reweighed (above s c) s s'"
      "\<forall>q. accounted s q \<longrightarrow> deficit T s' q = deficit T s q + (if q = c then d else 0)"
    using update_weight [of s c d T] tree_okD [OF assms(1)] assms(2) by blast
  then show ?thesis using assms(1,3) reweighed_tree [OF s'(2)] by (auto simp: store_ok_def)
qed

lemma enter_ok:
  assumes "store_ok T s" "boxes s c \<noteq> None" "item_parent s r = None" "(r, c) \<notin> (inside s)\<^sup>*" "secluded (setParent r (Some (Box c)) s)"
    "mset xs = add_mset r (mset (items_of s c))"
  defines "s1 \<equiv> setParent r (Some (Box c)) (relist c xs s)"
  shows "\<exists>s'. updateItemWeight c (getWeight T s1 r) s1 = Some s' \<and> store_ok T s'"
proof (rule update_returns_ok)
  show "tree_ok s1" unfolding s1_def using assms tree_enter by (auto simp: store_ok_def)
  show "boxes s1 c \<noteq> None" using assms(2) by (simp add: s1_def)
  fix q assume q: "accounted s1 q"
  have "set xs = insert r (set (items_of s c))" using assms(6) by (metis set_mset_add_mset_insert set_mset_mset)
  then have "accounted s q" using q assms(2) by (auto simp: accounted_def s1_def split: if_splits)
  then show "deficit T s1 q = (if q = c then - getWeight T s1 r else 0)"
    using assms(1,2,6) by (simp add: store_ok_def s1_def relist_deficit child_weight_def sum_list_mset)
qed

lemma thing_index_mset:
  "thing_index r xs = Some i \<Longrightarrow> mset xs = add_mset r (mset (take i xs @ drop (Suc i) xs)) \<and> i < length xs \<and> xs ! i = r"
  by (induction xs arbitrary: i) (auto split: if_splits)

lemma index_child:
  assumes "tree_ok s" "getThingIndex s c r = Some i"
  shows "boxes s c \<noteq> None" "item_parent s r = Some (Box c)" "r \<in> set (items_of s c)" "(c, r) \<in> inside s"
proof -
  have "mset (items_of s c) = add_mset r (mset (take i (items_of s c) @ drop (Suc i) (items_of s c)))"
    using thing_index_mset assms(2) by (auto simp: getThingIndex_def)
  then show r: "r \<in> set (items_of s c)" by (metis set_mset_mset union_single_eq_member)
  then show "boxes s c \<noteq> None" by (cases "boxes s c") (auto simp: items_of_def)
  show "item_parent s r = Some (Box c)"
    using tree_okD(4) [OF assms(1), of r] r unfolding counted_def by (metis count_list_0_iff)
  then show "(c, r) \<in> inside s" by (simp add: inside_def)
qed

lemma change_thing_deficit:
  assumes "counted s r"
  shows "deficit T (change_thing r f s) q =
    deficit T s q - (if item_parent s r = Some (Box q) then getWeight T (change_thing r f s) r - getWeight T s r else 0)"
proof -
  have "getWeight T (change_thing r f s) x = getWeight T s x" if "x \<noteq> r" for x
    using that by (simp add: getWeight_def change_thing_def)
  then have "child_weight T (change_thing r f s) q = child_weight T s q +
      (if item_parent s r = Some (Box q) then getWeight T (change_thing r f s) r - getWeight T s r else 0)"
    using sum_list_change [of r "getWeight T (change_thing r f s)" "getWeight T s" "items_of s q"] assms
    by (simp add: child_weight_def counted_def items_of_def change_thing_def)
  then show ?thesis
    using counted_box [OF assms, of q] by (cases "boxes s q") (auto simp: deficit_def change_thing_def)
qed

lemma reweigh_item_ok:
  fixes f :: "Item \<Rightarrow> Item"
  assumes "store_ok T s" "getThingIndex s c r = Some i"
  defines "s1 \<equiv> change_thing r f s"
  shows "\<exists>s'. updateItemWeight c (getWeight T s1 r - getWeight T s r) s1 = Some s' \<and> store_ok T s'"
proof (rule update_returns_ok)
  have same: "item_parent s1 = item_parent s" "boxes s1 = boxes s" by (simp_all add: s1_def change_thing_def)
  have ok: "tree_ok s" using assms(1) by (simp add: store_ok_def)
  then show "tree_ok s1" using tree_ok_cong [OF same] by simp
  show "boxes s1 c \<noteq> None" using index_child [OF ok assms(2)] same by simp
  fix q assume "accounted s1 q"
  then have "deficit T s q = 0" using assms(1) tree_ok_cong [OF same] by (simp add: store_ok_def)
  then show "deficit T s1 q = (if q = c then - (getWeight T s1 r - getWeight T s r) else 0)"
    using change_thing_deficit [OF tree_okD(4) [OF ok], of T r f q] index_child(2) [OF ok assms(2)]
    by (auto simp: s1_def)
qed

lemma addThing_ok:
  assumes "store_ok T s" "boxes s c \<noteq> None" "item_parent s r = None" "(r, c) \<notin> (inside s)\<^sup>*" "secluded (setParent r (Some (Box c)) s)"
  shows "\<exists>s'. addThing T c index r s = Some s' \<and> store_ok T s'"
    and "\<exists>s'. internalAddThing T c r s = Some s' \<and> store_ok T s'"
    and "\<exists>s'. addItemBack T c r s = Some s' \<and> store_ok T s'"
proof -
  obtain b where b: "boxes s c = Some b" using assms(2) by blast
  obtain s1 where s1: "updateItemWeight c (getWeight T (push_front c r s) r) (push_front c r s) = Some s1" "store_ok T s1"
    using enter_ok [OF assms, of "r # items_of s c"] by (auto simp: addItem_relist)
  obtain s2 where s2: "updateItemWeight c (getWeight T (addItem c r s) r) (addItem c r s) = Some s2" "store_ok T s2"
    using enter_ok [OF assms, of "items_of s c @ [r]"] by (auto simp: addItem_relist)
  show "\<exists>s'. addThing T c index r s = Some s' \<and> store_ok T s'"
    using s1 b assms(1) tell_ok [OF s1(2)] by (simp add: addThing_def Let_def)
  show "\<exists>s'. internalAddThing T c r s = Some s' \<and> store_ok T s'"
    using s1 by (simp add: internalAddThing_def Let_def)
  show "\<exists>s'. addItemBack T c r s = Some s' \<and> store_ok T s'"
    using s2 tell_ok [OF s2(2)] by (simp add: addItemBack_def Let_def)
qed

lemma updateThing_ok:
  assumes "store_ok T s"
  shows "\<exists>s'. updateThing T c r itemId n s = Some s' \<and> store_ok T s'"
proof (cases "getThingIndex s c r")
  case (Some i)
  then show ?thesis
    using reweigh_item_ok [OF assms Some, of "\<lambda>it. setSubType T (ucast n) (setID T itemId it)"] tell_ok
    by (fastforce simp: updateThing_def Let_def)
qed (simp add: updateThing_def assms)

lemma item_not_above: "wf (inside s) \<Longrightarrow> (c, r) \<in> inside s \<Longrightarrow> r \<notin> above s c"
  unfolding above_def by (metis mem_Collect_eq rtrancl_into_trancl2 wf_acyclic acyclic_def rtrancl_into_trancl1)

text \<open>The end of a removal: a store in which \<open>r\<close> is still listed but its weight is off the books.\<close>

lemma leave_ok:
  assumes "tree_ok s" "\<not> hidden s r" "mset (items_of s c) = add_mset r (mset xs)" "boxes s c \<noteq> None"
    "\<And>q. accounted s q \<Longrightarrow> deficit T s q = (if q = c then - getWeight T s r else 0)"
  shows "store_ok T (setParent r None (relist c xs s))"
proof -
  let ?s = "setParent r None (relist c xs s)"
  have set: "set (items_of s c) = insert r (set xs)" using assms(3) by (metis set_mset_add_mset_insert set_mset_mset)
  have "deficit T ?s q = 0" if "accounted ?s q" for q
  proof -
    have "accounted s q" using that assms(2,4) set by (auto simp: accounted_def split: if_splits)
    then show ?thesis
      using assms(3-5) by (auto simp: relist_deficit child_weight_def sum_list_mset)
  qed
  then show ?thesis using tree_leave [OF assms(1,4,3)] by (simp add: store_ok_def)
qed

lemma removeThing_whole_ok:
  assumes "store_ok T s" "getThingIndex s c r = Some i" "\<not> hidden s r"
  shows "\<exists>s1 s2. updateItemWeight c (- getWeight T s r) s = Some s1 \<and>
    tell False c (RemoveContainerItem c i r) s1 = Some s2 \<and>
    store_ok T (change_box c (\<lambda>b. b\<lparr>itemlist := take i (itemlist b) @ drop (Suc i) (itemlist b)\<rparr>) (setParent r None s2))"
proof -
  have ok: "tree_ok s" using assms(1) by (simp add: store_ok_def)
  note ch = index_child [OF ok assms(2)] and D = tree_okD [OF ok]
  obtain s1 where s1: "updateItemWeight c (- getWeight T s r) s = Some s1" "reweighed (above s c) s s1"
      "\<forall>q. accounted s q \<longrightarrow> deficit T s1 q = deficit T s q + (if q = c then - getWeight T s r else 0)"
    using update_weight [OF D(1,3) _ ch(1)] D(4) by blast
  note f = reweighed_fields [OF s1(2)] and t = reweighed_tree [OF s1(2)]
  have w: "getWeight T s1 r = getWeight T s r"
    using f(7) [of r] item_not_above [OF D(1) ch(4)] by (simp add: getWeight_def f(2))
  obtain s2 where s2: "tell False c (RemoveContainerItem c i r) s1 = Some s2"
      and eq: "item_parent s2 = item_parent s1" "boxes s2 = boxes s1" "things s2 = things s1"
    using tell_returns [of s1 False c "RemoveContainerItem c i r"] t(4) D(3) by auto
  note e = tree_ok_cong [OF eq(1,2)] and we = weights_cong [OF eq]
  let ?xs = "take i (items_of s c) @ drop (Suc i) (items_of s c)"
  have m: "mset (items_of s2 c) = add_mset r (mset ?xs)"
    using thing_index_mset assms(2) by (simp add: getThingIndex_def e f)
  have "store_ok T (setParent r None (relist c ?xs s2))"
  proof (rule leave_ok [OF _ _ m])
    show "tree_ok s2" "\<not> hidden s2 r" "boxes s2 c \<noteq> None" using ok assms(3) ch(1) e t f(6) eq by auto
    show "deficit T s2 q = (if q = c then - getWeight T s2 r else 0)" if "accounted s2 q" for q
      using that s1(3) assms(1) w by (simp add: e t we store_ok_def)
  qed
  moreover have "change_box c (\<lambda>b. b\<lparr>itemlist := take i (itemlist b) @ drop (Suc i) (itemlist b)\<rparr>) (setParent r None s2) =
      setParent r None (relist c ?xs s2)"
    unfolding f(5) [symmetric] e(6) [symmetric]
    by (auto simp: relist_def change_box_def setParent_def items_of_def split: option.splits)
  ultimately show ?thesis using s1(1) s2 by auto
qed

lemma removeThing_ok:
  assumes "store_ok T s" "\<not> hidden s r"
  shows "\<exists>s'. removeThing T c r n s = Some s' \<and> store_ok T s'"
proof (cases "getThingIndex s c r")
  case (Some i)
  show ?thesis
  proof (cases "type_stackable (T (item_id (things s r))) \<and> n \<noteq> ucast (item_count (things s r))")
    case True
    then show ?thesis
      using Some reweigh_item_ok [OF assms(1) Some, of "\<lambda>it. it\<lparr>item_count := left_count (item_count it) n\<rparr>"] tell_ok
      by (fastforce simp: removeThing_def Let_def)
  next
    case False
    then show ?thesis
      using Some removeThing_whole_ok [OF assms(1) Some assms(2)] by (fastforce simp: removeThing_def Let_def)
  qed
qed (simp add: removeThing_def assms)

lemma reweighed_setParent: "reweighed A s s' \<Longrightarrow> reweighed A (setParent x y s) (setParent x y s')"
  unfolding reweighed_def setParent_def
proof (elim conjE, intro conjI)
  assume h: "s' = s\<lparr>boxes := boxes s'\<rparr>"
  show "s'\<lparr>item_parent := (item_parent s')(x := y)\<rparr> =
      s\<lparr>item_parent := (item_parent s)(x := y)\<rparr>\<lparr>boxes := boxes (s'\<lparr>item_parent := (item_parent s')(x := y)\<rparr>)\<rparr>"
    by (subst (1 2) h) simp
qed simp

lemma deficit_setParent: "deficit T (setParent x y s) = deficit T s"
  by (auto simp: deficit_def child_weight_def fun_eq_iff split: option.split)

lemma mset_exchange:
  "i < length xs \<Longrightarrow> mset (xs[i := r]) = add_mset r (mset (take i xs @ drop (Suc i) xs))"
  by (simp add: upd_conv_take_nth_drop)

lemma mset_take_out:
  "i < length xs \<Longrightarrow> mset xs = add_mset (xs ! i) (mset (take i xs @ drop (Suc i) xs))"
  using mset_exchange [of i xs "xs ! i"] by simp

text \<open>The exchange of \<open>x\<close> for \<open>r\<close>, seen after \<open>x\<close> has lost its parent.\<close>

lemma setParent_swap: "x \<noteq> r \<Longrightarrow> setParent r y (setParent x z s) = setParent x z (setParent r y s)"
  by (simp add: setParent_def fun_upd_twist)

lemma tree_exchange:
  assumes "tree_ok s" "boxes s c \<noteq> None" "item_parent s r = None" "(r, c) \<notin> (inside s)\<^sup>*" "secluded (setParent r (Some (Box c)) s)"
    "i < length (items_of s c)"
  shows "tree_ok (setParent (items_of s c ! i) None (setParent r (Some (Box c)) (relist c ((items_of s c)[i := r]) s)))"
proof -
  let ?xs = "items_of s c" let ?x = "?xs ! i" let ?ys = "take i ?xs @ drop (Suc i) ?xs"
  let ?t = "setParent ?x None (relist c ?ys s)"
  have "item_parent s ?x = Some (Box c)"
    using tree_okD(4) [OF assms(1), of ?x] assms(6) unfolding counted_def by (metis count_list_0_iff nth_mem)
  then have neq: "?x \<noteq> r" using assms(3) by auto
  have t: "tree_ok ?t" by (rule tree_leave [OF assms(1,2) mset_take_out [OF assms(6)]])
  have sub: "inside ?t \<subseteq> inside s" using inside_leave [of None ?x "relist c ?ys s"] by (simp add: outside_def)
  have "tree_ok (setParent r (Some (Box c)) (relist c (?xs[i := r]) ?t))"
  proof (rule tree_enter [OF t])
    show "boxes ?t c \<noteq> None" using assms(2) by simp
    show "item_parent ?t r = None" using assms(3) by simp
    show "(r, c) \<notin> (inside ?t)\<^sup>*" using assms(4) rtrancl_mono [OF sub] by blast
    have "secluded (setParent ?x None (setParent r (Some (Box c)) s))"
      using secluded_leave [OF assms(5), of None] by (simp add: outside_def)
    then show "secluded (setParent r (Some (Box c)) ?t)" using neq by (simp add: setParent_relist setParent_swap)
    show "mset (?xs[i := r]) = add_mset r (mset (items_of ?t c))" using assms(2) mset_exchange [OF assms(6)] by simp
  qed
  also have "setParent r (Some (Box c)) (relist c (?xs[i := r]) ?t) =
      setParent ?x None (setParent r (Some (Box c)) (relist c (?xs[i := r]) s))"
    using neq by (auto simp: setParent_def relist_def change_box_def fun_upd_twist map_option_case split: option.split)
  finally show ?thesis .
qed

lemma replaceThing_ok:
  assumes "store_ok T s" "boxes s c \<noteq> None" "item_parent s r = None" "(r, c) \<notin> (inside s)\<^sup>*" "secluded (setParent r (Some (Box c)) s)"
    "\<forall>x. getItemByIndex s c i = Some x \<longrightarrow> \<not> hidden s x"
  shows "\<exists>s'. replaceThing T c i r s = Some s' \<and> store_ok T s'"
proof (cases "i < length (items_of s c)")
  case False
  then show ?thesis using assms(1) by (simp add: replaceThing_def getItemByIndex_def)
next
  case i: True
  let ?xs = "items_of s c" let ?x = "?xs ! i"
  let ?s1 = "setParent r (Some (Box c)) (relist c (?xs[i := r]) s)"
  have ok: "tree_ok s" using assms(1) by (simp add: store_ok_def)
  note D = tree_okD [OF ok]
  have get: "getItemByIndex s c i = Some ?x" using i by (simp add: getItemByIndex_def)
  have px: "item_parent s ?x = Some (Box c)"
    using D(4) [of ?x] i unfolding counted_def by (metis count_list_0_iff nth_mem)
  have tf: "tree_ok (setParent ?x None ?s1)" by (rule tree_exchange [OF ok assms(2-5) i])
  have ac: "acyclic (inside ?s1)" using D(5) assms(4) by (auto intro: acyclic_enter)
  have wf1: "wf (inside ?s1)" using tree_wf(1) [OF _ ac] D(7) by simp
  have se: "secluded ?s1" using assms(5) by (simp add: setParent_relist)
  have cx: "(c, ?x) \<in> inside ?s1" using px assms(3) by (auto simp: inside_def)
  have cnt: "counted ?s1 q" if "q \<in> above ?s1 c" for q
    using tree_okD(4) [OF tf, of q] that item_not_above [OF wf1 cx] by (auto simp: counted_def split: if_splits)
  let ?d = "getWeight T ?s1 r - getWeight T ?s1 ?x"
  obtain s2 where s2: "updateItemWeight c ?d ?s1 = Some s2" "reweighed (above ?s1 c) ?s1 s2"
      "\<forall>q. accounted ?s1 q \<longrightarrow> deficit T s2 q = deficit T ?s1 q + (if q = c then ?d else 0)"
    using update_weight [OF wf1 se, of c ?d T] cnt assms(2) by auto
  obtain s3 where s3: "tell False c (UpdateContainerItem c i ?x r) s2 = Some s3"
      and eq: "item_parent s3 = item_parent s2" "boxes s3 = boxes s2" "things s3 = things s2"
    using tell_returns [of s2 False c "UpdateContainerItem c i ?x r"] reweighed_tree(4) [OF s2(2)] se by auto
  have "tree_ok (setParent ?x None s2)" using tf reweighed_tree(8) [OF reweighed_setParent [OF s2(2)]] by blast
  then have "tree_ok (setParent ?x None s3)"
    using tree_ok_cong(1) [of "setParent ?x None s3" "setParent ?x None s2"] eq by simp
  moreover have "deficit T (setParent ?x None s3) q = 0" if "accounted (setParent ?x None s3) q" for q
  proof -
    have "accounted s3 q" using that by (simp add: accounted_def)
    then have a1: "accounted ?s1 q" using tree_ok_cong(5) [OF eq(1,2)] reweighed_tree(6) [OF s2(2)] by simp
    have "set ?xs \<subseteq> insert ?x (set (?xs[i := r]))"
      using mset_take_out [OF i] mset_exchange [OF i, of r] by (metis insert_subset insertI1 set_mset_add_mset_insert set_mset_mset subset_insertI subset_insertI2 insert_mono subset_refl)
    then have "accounted s q" using a1 assms(2,6) get by (auto simp: accounted_def split: if_splits)
    then have "deficit T s q = 0" using assms(1) by (simp add: store_ok_def)
    then have "deficit T s2 q = 0"
      using s2(3) a1 assms(2) mset_take_out [OF i] mset_exchange [OF i, of r]
      by (simp add: relist_deficit child_weight_def sum_list_mset)
    then show ?thesis by (simp add: deficit_setParent weights_cong(3) [OF eq])
  qed
  ultimately have "store_ok T (setParent ?x None s3)" by (simp add: store_ok_def)
  moreover have "setParent r (Some (Box c)) (change_box c (\<lambda>b. b\<lparr>itemlist := (itemlist b)[i := r]\<rparr>) s) = ?s1"
    by (auto simp: relist_def change_box_def setParent_def items_of_def split: option.splits)
  ultimately show ?thesis using s2(1) s3 by (simp add: replaceThing_def get Let_def)
qed

section \<open>The iterator sees every item below a container once\<close>

definition below :: "Store \<Rightarrow> nat \<Rightarrow> nat set" where
  "below s x = {y. (x, y) \<in> (inside s)\<^sup>*}"

definition subtree :: "Store \<Rightarrow> nat \<Rightarrow> nat multiset" where
  "subtree s x = mset_set (below s x)"

lemma finite_below: "tree_ok s \<Longrightarrow> finite (below s x)"
  by (rule finite_subset [of _ "insert x (Range (inside s))"])
    (auto simp: below_def finite_Range tree_okD(2) elim: rtranclE)

lemma tree_items:
  assumes "tree_ok s"
  shows "distinct (items_of s x)" "r \<in> set (items_of s x) \<longleftrightarrow> (x, r) \<in> inside s"
proof -
  have c: "count_list (items_of s x) r = (if item_parent s r = Some (Box x) then 1 else 0)" for r
    using tree_okD(4) [OF assms, of r] by (simp add: counted_def)
  then show i: "r \<in> set (items_of s x) \<longleftrightarrow> (x, r) \<in> inside s" for r
    using count_list_0_iff [of "items_of s x" r] by (simp add: inside_def split: if_splits)
  show "distinct (items_of s x)"
    unfolding distinct_count_atmost_1
  proof
    fix r show "count (mset (items_of s x)) r = (if r \<in> set (items_of s x) then 1 else 0)"
      using c [of r] i [of r] by (simp add: count_list_mset inside_def)
  qed
qed

lemma inside_unique: "(p, r) \<in> inside s \<Longrightarrow> (q, r) \<in> inside s \<Longrightarrow> p = q"
  by (simp add: inside_def)

lemma inside_last: "(k, y) \<in> (inside s)\<^sup>* \<Longrightarrow> (x, y) \<in> inside s \<Longrightarrow> k \<noteq> y \<Longrightarrow> (k, x) \<in> (inside s)\<^sup>*"
  by (erule rtranclE) (auto dest: inside_unique)

lemma inside_comparable:
  "(k, y) \<in> (inside s)\<^sup>* \<Longrightarrow> (l, y) \<in> (inside s)\<^sup>* \<Longrightarrow> (k, l) \<in> (inside s)\<^sup>* \<or> (l, k) \<in> (inside s)\<^sup>*"
proof (induction rule: rtrancl_induct)
  case (step y z)
  show ?case
  proof (cases "l = z")
    case True
    then show ?thesis using step(1,2) by (meson rtrancl.rtrancl_into_rtrancl)
  next
    case False
    then have "(l, y) \<in> (inside s)\<^sup>*" using step inside_last by blast
    then show ?thesis using step.IH by blast
  qed
qed auto

lemma siblings_apart:
  assumes "acyclic (inside s)" "(x, k) \<in> inside s" "(x, l) \<in> inside s" "k \<noteq> l"
  shows "below s k \<inter> below s l = {}"
proof -
  have no: "(a, b) \<notin> (inside s)\<^sup>*" if "(x, a) \<in> inside s" "(x, b) \<in> inside s" "a \<noteq> b" for a b
  proof
    assume "(a, b) \<in> (inside s)\<^sup>*"
    then have "(a, x) \<in> (inside s)\<^sup>*" using inside_last that by blast
    then have "(x, x) \<in> (inside s)\<^sup>+" using that(1) by (meson rtrancl_into_trancl2)
    then show False using assms(1) by (simp add: acyclic_def)
  qed
  show ?thesis using inside_comparable no [OF assms(2,3)] no [OF assms(3,2)] assms(4) by (fastforce simp: below_def)
qed

lemma below_unfold: "tree_ok s \<Longrightarrow> below s x = insert x (\<Union>k \<in> set (items_of s x). below s k)"
  by (auto simp: below_def tree_items elim: converse_rtranclE intro: converse_rtrancl_into_rtrancl)

lemma mset_set_Union:
  "distinct ks \<Longrightarrow> (\<And>k. k \<in> set ks \<Longrightarrow> finite (A k)) \<Longrightarrow>
   (\<And>k l. k \<in> set ks \<Longrightarrow> l \<in> set ks \<Longrightarrow> k \<noteq> l \<Longrightarrow> A k \<inter> A l = {}) \<Longrightarrow>
   mset_set (\<Union>k \<in> set ks. A k) = (\<Sum>k \<leftarrow> ks. mset_set (A k))"
proof (induction ks)
  case (Cons k ks)
  have "A k \<inter> (\<Union>l \<in> set ks. A l) = {}" using Cons.prems(1,3) by fastforce
  then have "mset_set (A k \<union> (\<Union>l \<in> set ks. A l)) = mset_set (A k) + mset_set (\<Union>l \<in> set ks. A l)"
    using Cons.prems(2) by (intro mset_set_Union) auto
  then show ?case using Cons by simp
qed simp

lemma mset_is_set:
  assumes "mset xs = mset_set A" "finite A"
  shows "distinct xs" "set xs = A"
proof -
  show "set xs = A" using assms by (metis finite_set_mset_mset_set set_mset_mset)
  then show "distinct xs" using assms by (auto simp: distinct_count_atmost_1)
qed

lemma subtree_unfold:
  assumes "tree_ok s"
  shows "subtree s x = add_mset x (\<Sum>k \<leftarrow> items_of s x. subtree s k)"
proof -
  note it = tree_items [OF assms] and D = tree_okD [OF assms]
  have "mset_set (\<Union>k \<in> set (items_of s x). below s k) = (\<Sum>k \<leftarrow> items_of s x. subtree s k)"
    unfolding subtree_def using it finite_below [OF assms] siblings_apart [OF D(5)] by (intro mset_set_Union) auto
  moreover have "x \<notin> (\<Union>k \<in> set (items_of s x). below s k)"
    using D(5) it(2) unfolding below_def acyclic_def by (blast intro: rtrancl_into_trancl2)
  ultimately show ?thesis
    using finite_below [OF assms] by (simp add: subtree_def below_unfold [OF assms, of x] add_mset_commute)
qed

text \<open>What the iterator still has to give out, in its order.\<close>

definition pending :: "Store \<Rightarrow> ContainerIterator \<Rightarrow> nat list" where
  "pending s it =
     (case over it of [] \<Rightarrow> [] | c # cs \<Rightarrow> drop (cur it) (items_of s c) @ concat (map (items_of s) cs))"

definition iterator_ok :: "Store \<Rightarrow> ContainerIterator \<Rightarrow> bool" where
  "iterator_ok s it \<longleftrightarrow>
     (\<forall>c \<in> set (over it). items_of s c \<noteq> []) \<and> (over it \<noteq> [] \<longrightarrow> cur it < length (items_of s (hd (over it))))"

lemma iterator_start: "iterator_ok s (iterator s c)" "pending s (iterator s c) = items_of s c"
  by (auto simp: iterator_ok_def iterator_def pending_def)

lemma advance_refines:
  assumes "iterator_ok s it" "hasNext it"
  shows "pending s it = deref s it # tl (pending s it)"
    and "pending s (advance_it s it) = tl (pending s it) @ items_of s (deref s it)"
    and "iterator_ok s (advance_it s it)"
proof -
  obtain c cs where o: "over it = c # cs" using assms(2) by (auto simp: hasNext_def neq_Nil_conv)
  let ?xs = "items_of s c" let ?i = "cur it" let ?x = "?xs ! ?i"
  have i: "?i < length ?xs" using assms(1) o by (simp add: iterator_ok_def)
  have d: "deref s it = ?x" by (simp add: deref_def o)
  have dr: "drop ?i ?xs = ?x # drop (Suc ?i) ?xs" using i by (simp add: Cons_nth_drop_Suc)
  show "pending s it = deref s it # tl (pending s it)" by (simp add: pending_def o d dr)
  define os where "os = (if items_of s ?x \<noteq> [] then cs @ [?x] else cs)"
  have adv: "advance_it s it =
      (if Suc ?i = length ?xs then \<lparr>over = os, cur = 0\<rparr> else \<lparr>over = c # os, cur = Suc ?i\<rparr>)"
    by (auto simp: advance_it_def d o os_def Let_def items_of_def intro!: ContainerIterator.equality)
  have os: "concat (map (items_of s) os) = concat (map (items_of s) cs) @ items_of s ?x"
    by (simp add: os_def)
  have os_ne: "\<forall>c \<in> set os. items_of s c \<noteq> []" using assms(1) o by (auto simp: iterator_ok_def os_def)
  show "pending s (advance_it s it) = tl (pending s it) @ items_of s (deref s it)"
    using os by (cases os) (auto simp: adv pending_def o d dr)
  show "iterator_ok s (advance_it s it)"
    using os_ne i assms(1) o by (cases os) (auto simp: adv iterator_ok_def)
qed

lemma visit_subtrees:
  assumes "tree_ok s" "iterator_ok s it"
  shows "\<exists>xs. visit s it = Some xs \<and> mset xs = (\<Sum>x \<leftarrow> pending s it. subtree s x)"
  using assms(2)
proof (induction "size (\<Sum>x \<leftarrow> pending s it. subtree s x)" arbitrary: it rule: less_induct)
  case less
  show ?case
  proof (cases "hasNext it")
    case False
    then show ?thesis by (subst visit.simps) (simp add: pending_def hasNext_def)
  next
    case True
    note a = advance_refines [OF less.prems True]
    have sum: "(\<Sum>x \<leftarrow> pending s it. subtree s x) =
        add_mset (deref s it) (\<Sum>x \<leftarrow> pending s (advance_it s it). subtree s x)"
      by (subst a(1), simp add: a(2) subtree_unfold [OF assms(1), of "deref s it"])
    then obtain xs where "visit s (advance_it s it) = Some xs"
        "mset xs = (\<Sum>x \<leftarrow> pending s (advance_it s it). subtree s x)"
      using less.hyps [OF _ a(3)] by auto
    then show ?thesis using True sum by (subst visit.simps) simp
  qed
qed

lemma all_items_subtree:
  assumes "tree_ok s"
  shows "\<exists>xs. all_items s c = Some xs \<and> add_mset c (mset xs) = subtree s c"
  using visit_subtrees [OF assms iterator_start(1), of c] subtree_unfold [OF assms, of c]
  by (auto simp: all_items_def iterator_start(2))

lemma all_items_below:
  assumes "tree_ok s"
  shows "\<exists>xs. all_items s c = Some xs \<and> distinct xs \<and> set xs = {r. (c, r) \<in> (inside s)\<^sup>+}"
proof -
  obtain xs where xs: "all_items s c = Some xs" "add_mset c (mset xs) = subtree s c"
    using all_items_subtree [OF assms] by blast
  have "mset (c # xs) = mset_set (below s c)" using xs(2) by (simp add: subtree_def)
  then have d: "distinct (c # xs)" and m: "set (c # xs) = below s c"
    using mset_is_set finite_below [OF assms] by blast+
  have "c \<notin> {r. (c, r) \<in> (inside s)\<^sup>+}" using tree_okD(5) [OF assms] by (simp add: acyclic_def)
  then have "set xs = {r. (c, r) \<in> (inside s)\<^sup>+}" using d m by (auto simp: below_def rtrancl_eq_or_trancl)
  then show ?thesis using xs(1) d by auto
qed

section \<open>The weight of everything below\<close>

lemma items_of_None: "boxes s x = None \<Longrightarrow> items_of s x = []"
  by (simp add: items_of_def)

lemma items_of_Some [simp]: "boxes s x = Some b \<Longrightarrow> items_of s x = itemlist b"
  by (simp add: items_of_def)

lemma sum_subtrees:
  fixes f :: "nat \<Rightarrow> u32"
  assumes "\<And>k. k \<in> set ks \<Longrightarrow> w k = (\<Sum>y \<in># subtree s k. f y)"
  shows "sum_list (map w ks) = (\<Sum>y \<in># (\<Sum>k \<leftarrow> ks. subtree s k). f y)"
  using assms by (induction ks) auto

lemma balanced_sum:
  "store_ok T s \<Longrightarrow> boxes s x = Some b \<Longrightarrow> accounted s x \<Longrightarrow> totalWeight b = sum_list (map (getWeight T s) (itemlist b))"
  by (auto simp: store_ok_def deficit_def child_weight_def dest: spec [of _ x])

lemma weight_subtree:
  assumes "store_ok T s" "clean s x"
  shows "getWeight T s x = (\<Sum>y \<in># subtree s x. item_weight T (things s y))"
proof -
  have ok: "tree_ok s" using assms(1) by (simp add: store_ok_def)
  have "wf ((inside s)\<inverse>)" using tree_okD [OF ok] by (simp add: finite_acyclic_wf_converse)
  then show ?thesis using assms(2)
  proof (induction x rule: wf_induct_rule)
    case (less x)
    have kid: "(x, k) \<in> inside s \<and> clean s k" if "k \<in> set (items_of s x)" for k
      using that less.prems by (auto simp: tree_items [OF ok] clean_def intro: converse_rtrancl_into_rtrancl)
    then have acc: "accounted s x" by (auto simp: accounted_def dest: clean_self)
    have "sum_list (map (getWeight T s) (items_of s x)) =
        (\<Sum>y \<in># (\<Sum>k \<leftarrow> items_of s x. subtree s k). item_weight T (things s y))"
      by (rule sum_subtrees) (use less.IH kid in auto)
    then show ?case
      using balanced_sum [OF assms(1) _ acc]
      by (cases "boxes s x") (auto simp: getWeight_def subtree_unfold [OF ok, of x] items_of_None)
  qed
qed

lemma weight_below:
  assumes "store_ok T s" "boxes s c = Some b" "\<And>h. (c, h) \<in> (inside s)\<^sup>+ \<Longrightarrow> \<not> hidden s h" "all_items s c = Some xs"
  shows "totalWeight b = (\<Sum>r \<leftarrow> xs. item_weight T (things s r))"
proof -
  have ok: "tree_ok s" using assms(1) by (simp add: store_ok_def)
  have kid: "\<not> hidden s k \<and> clean s k" if "k \<in> set (itemlist b)" for k
    using that assms(2,3) tree_items(2) [OF ok, of k c] by (auto simp: clean_def dest: rtrancl_into_trancl2)
  then have "accounted s c" using assms(2) by (simp add: accounted_def)
  then have "totalWeight b = sum_list (map (getWeight T s) (itemlist b))" using assms(1,2) balanced_sum by blast
  also have "\<dots> = (\<Sum>y \<in># (\<Sum>k \<leftarrow> itemlist b. subtree s k). item_weight T (things s y))"
    by (rule sum_subtrees) (use kid weight_subtree [OF assms(1)] in auto)
  also have "(\<Sum>k \<leftarrow> itemlist b. subtree s k) = mset xs"
    using all_items_subtree [OF ok, of c] subtree_unfold [OF ok, of c] assms(2,4) by auto
  finally show ?thesis by (simp add: sum_list_mset)
qed

section \<open>Walks along parents return\<close>

lemma parent_box:
  assumes "tree_ok s" "getParent s y = Some (Some (Box p))"
  obtains c where "y = Box c" "\<not> hidden s c" "item_parent s c = Some (Box p)" "boxes s p \<noteq> None"
proof (cases y)
  case (Box c)
  have "\<not> hidden s c" using parent_hidden [OF tree_okD(3) [OF assms(1)], of c] assms(2) Box by (auto simp: outside_def)
  then show ?thesis using that Box assms parent_plain counted_box tree_okD(4) by (metis option.inject)
qed (use assms(2) in auto)

lemma climb_induct [consumes 1, case_names climb]:
  assumes ok: "tree_ok s" and climb: "\<And>y. (\<And>z. getParent s y = Some (Some z) \<Longrightarrow> P z) \<Longrightarrow> P y"
  shows "P y"
proof -
  have ground: "P (Ground g)" "P VirtualCylinder" for g by (rule climb, simp)+
  have "P (Person p)" for p by (rule climb) (auto intro: ground)
  then have out: "P y" if "\<And>c. y \<noteq> Box c" for y using that ground by (cases y) auto
  have "P (Box c)" for c
    using tree_okD(1) [OF ok]
  proof (induction c rule: wf_induct_rule)
    case (less c)
    show ?case
    proof (rule climb)
      fix z assume z: "getParent s (Box c) = Some (Some z)"
      show "P z"
      proof (cases "\<exists>p. z = Box p")
        case True
        then obtain p where p: "z = Box p" by blast
        then have "item_parent s c = Some (Box p)" using parent_box [OF ok, of "Box c" p] z by auto
        then show ?thesis using less p by (simp add: inside_def)
      qed (use out in blast)
    qed
  qed
  then show ?thesis using out by (cases "\<exists>c. y = Box c") auto
qed

lemma top_container_returns:
  assumes ok: "tree_ok s"
  shows "\<exists>z. top_container_loop s x y = Some z"
  using ok
proof (induction y arbitrary: x rule: climb_induct)
  case (climb y)
  obtain z where "getParent s y = Some z" using parent_total tree_okD(3) ok by blast
  then show ?case using climb by (subst top_container_loop.simps) (auto split: option.splits Cyl.splits)
qed

definition valid_cyl :: "Store \<Rightarrow> Cyl \<Rightarrow> bool" where
  "valid_cyl s y \<longleftrightarrow> (\<forall>c. y = Box c \<longrightarrow> boxes s c \<noteq> None)"

lemma top_loop_returns:
  assumes ok: "tree_ok s"
  shows "valid_cyl s y \<Longrightarrow> (\<forall>z. x = Some z \<longrightarrow> valid_cyl s z) \<Longrightarrow> \<exists>z. top_loop s x y = Some z \<and> valid_cyl s z"
  using ok
proof (induction y arbitrary: x rule: climb_induct)
  case (climb y)
  obtain z where z: "getParent s y = Some z" using parent_total tree_okD(3) ok by blast
  show ?case
  proof (cases z)
    case None
    then show ?thesis using z climb.prems by (subst top_loop.simps) (auto split: option.splits)
  next
    case (Some w)
    then have "valid_cyl s w" using z parent_box [OF ok, of y] by (auto simp: valid_cyl_def)
    then show ?thesis using z Some climb by (subst top_loop.simps) auto
  qed
qed

lemma top_parent_returns:
  assumes "tree_ok s"
  shows "\<exists>t. getTopParent s r = Some t \<and> (boxes s r \<noteq> None \<longrightarrow> (\<exists>y. t = Some y \<and> valid_cyl s y))"
proof -
  obtain z where z: "getParent s (Box r) = Some z" using parent_total tree_okD(3) assms by blast
  define x where "x = (if boxes s r \<noteq> None then Some (Box r) else None)"
  have x: "\<forall>y. x = Some y \<longrightarrow> valid_cyl s y" "boxes s r \<noteq> None \<longrightarrow> x = Some (Box r)"
    by (auto simp: x_def valid_cyl_def)
  have get: "getTopParent s r =
      (case z of None \<Rightarrow> Some x | Some y \<Rightarrow> Option.bind (top_loop s x y) (\<lambda>top. Some (Some top)))"
    unfolding getTopParent_def z x_def [symmetric] Let_def by simp
  show ?thesis
  proof (cases z)
    case None
    then show ?thesis using get x by auto
  next
    case (Some w)
    then have "valid_cyl s w" using z parent_box [OF assms, of "Box r"] by (auto simp: valid_cyl_def)
    then obtain t where "top_loop s x w = Some t" "valid_cyl s t" using top_loop_returns [OF assms] x(1) by blast
    then show ?thesis using get Some by simp
  qed
qed

lemma climb_step:
  assumes "clean s r" "(r, c) \<in> (inside s)\<^sup>*" "r \<noteq> c" "getParent s (Box c) = Some z"
  shows "\<exists>p. z = Some (Box p) \<and> (r, p) \<in> (inside s)\<^sup>*"
proof -
  obtain p where p: "(r, p) \<in> (inside s)\<^sup>*" "(p, c) \<in> inside s" using assms(2,3) by (meson rtranclE)
  have "\<not> hidden s c" using assms(1,2) by (simp add: clean_def)
  then have "z = Some (Box p)" using p(2) assms(4) by (simp add: inside_def parent_plain)
  then show ?thesis using p(1) by blast
qed

lemma above_loop_safe:
  assumes ok: "tree_ok s"
  shows "\<exists>v. above_loop s limit r y = Some v \<and>
     (v = RETURNVALUE_NOERROR \<longrightarrow> clean s r \<longrightarrow> (\<forall>c. y = Box c \<longrightarrow> (r, c) \<notin> (inside s)\<^sup>*))"
  using ok
proof (induction y rule: climb_induct)
  case (climb y)
  obtain z where z: "getParent s y = Some z" using parent_total tree_okD(3) ok by blast
  have up: "\<exists>p. z = Some (Box p) \<and> (r, p) \<in> (inside s)\<^sup>*"
    if "clean s r" "y = Box c" "(r, c) \<in> (inside s)\<^sup>*" "r \<noteq> c" for c
    using climb_step that z by blast
  consider (self) "y = Box r" | (box) "y \<noteq> Box r" "limit \<and> is_inbox s y"
    | (top) "y \<noteq> Box r" "\<not> (limit \<and> is_inbox s y)" "z = None"
    | (higher) w where "y \<noteq> Box r" "\<not> (limit \<and> is_inbox s y)" "z = Some w"
    by (cases z) auto
  then show ?case
  proof cases
    case self
    then show ?thesis by (subst above_loop.simps) simp
  next
    case box
    then show ?thesis by (subst above_loop.simps) simp
  next
    case top
    then have "above_loop s limit r y = Some RETURNVALUE_NOERROR" using z by (subst above_loop.simps) auto
    then show ?thesis using up top by blast
  next
    case (higher w)
    have "above_loop s limit r y = above_loop s limit r w"
      using z higher by (subst above_loop.simps) auto
    moreover obtain v where "above_loop s limit r w = Some v"
        "v = RETURNVALUE_NOERROR \<longrightarrow> clean s r \<longrightarrow> (\<forall>c. w = Box c \<longrightarrow> (r, c) \<notin> (inside s)\<^sup>*)"
      using climb.IH [of w] z higher(3) by auto
    ultimately show ?thesis using up higher(1,3) by auto
  qed
qed

lemma query_above_safe:
  assumes "tree_ok s" "getParent s (Box c) = Some z" "r \<noteq> c"
  shows "\<exists>v. query_above s limit r z = Some v \<and> (v = RETURNVALUE_NOERROR \<longrightarrow> clean s r \<longrightarrow> (r, c) \<notin> (inside s)\<^sup>*)"
  using climb_step [OF _ _ assms(3,2)] above_loop_safe [OF assms(1), of limit r]
  by (fastforce simp: query_above_def split: option.splits)

lemma holding_returns:
  assumes "tree_ok s"
  shows "\<exists>n. getItemHoldingCount s c = Some n" "\<exists>n. getContainerHoldingCount s c = Some n"
  using all_items_below [OF assms, of c] by (auto simp: getItemHoldingCount_def getContainerHoldingCount_def)

lemma query_limits_returns: "tree_ok s \<Longrightarrow> \<exists>v. query_limits E s c r = Some v"
proof -
  assume ok: "tree_ok s"
  obtain z where z: "getParent s (Box c) = Some z" using parent_total tree_okD(3) ok by blast
  have "\<exists>t. getTopParentContainer s c = Some t"
  proof (cases z)
    case (Some y)
    obtain w where "top_container_loop s (Box c) y = Some w" using top_container_returns [OF ok] by blast
    then show ?thesis using z Some by (simp add: getTopParentContainer_def)
  qed (use z in \<open>simp add: getTopParentContainer_def\<close>)
  then obtain t where t: "getTopParentContainer s c = Some t" by blast
  show ?thesis
  proof (cases t)
    case (Some q)
    obtain a b m n where "getContainerHoldingCount s q = Some a" "getItemHoldingCount s q = Some b"
        "getContainerHoldingCount s r = Some m" "getItemHoldingCount s r = Some n"
      using holding_returns [OF ok] by metis
    then show ?thesis using t Some by (simp add: query_limits_def)
  qed (simp add: query_limits_def t)
qed

lemma added_count_returns: "tree_ok s \<Longrightarrow> \<exists>n. added_count s c r m = Some n"
  using top_parent_returns [of s r] holding_returns(1) [of s r] by (auto simp: added_count_def)

lemma depot_full_returns:
  assumes "tree_ok s" "boxes s c = Some b" "kind b = DepotChestBox"
  shows "\<exists>v. depot_full T s c b r n flags = Some v"
proof -
  have "\<exists>m. (case item_parent s c of
        Some y \<Rightarrow> (case getContainer y of Some p \<Rightarrow> getItemHoldingCount s p | None \<Rightarrow> None)
      | None \<Rightarrow> getItemHoldingCount s c) = Some m"
  proof (cases "item_parent s c")
    case (Some y)
    have "has_kind {DepotChestBox} s c" using assms(2,3) by (simp add: has_kind_def)
    then obtain p where "y = Box p" using tree_okD(6) [OF assms(1)] Some unfolding chests_stowed_def by blast
    then show ?thesis using Some holding_returns(1) [OF assms(1), of p] by (simp add: getContainer_def)
  qed (use holding_returns(1) [OF assms(1)] in simp)
  then show ?thesis using added_count_returns [OF assms(1)] unfolding depot_full_def Let_def
    by (metis (no_types, lifting) bind.bind_lunit)
qed

lemma Container_query_safe:
  assumes "tree_ok s" "boxes s c = Some b"
    "\<And>y. valid_cyl s y \<Longrightarrow> \<exists>v. ask y (flags OR FLAG_CHILDISOWNER) = Some v"
  shows "\<exists>v. Container_queryAdd ask E T s c b index r flags = Some v \<and>
    (v = RETURNVALUE_NOERROR \<longrightarrow> \<not> hasBitSet FLAG_CHILDISOWNER flags \<longrightarrow> clean s r \<longrightarrow> (r, c) \<notin> (inside s)\<^sup>*)"
proof -
  obtain z where z: "getParent s (Box c) = Some z" using parent_total tree_okD(3) assms(1) by blast
  obtain l where l: "query_limits E s c r = Some l" using query_limits_returns assms(1) by blast
  obtain y where y: "getTopParent s c = Some (Some y)" "valid_cyl s y"
    using top_parent_returns [OF assms(1), of c] assms(2) by auto
  obtain w where w: "ask y (flags OR FLAG_CHILDISOWNER) = Some w" using assms(3) y(2) by blast
  note defs = Container_queryAdd_def Let_def
  show ?thesis
  proof (cases "r = c")
    case True
    then show ?thesis by (simp add: defs)
  next
    case False
    obtain v where v: "query_above s (\<not> hasBitSet FLAG_NOLIMIT flags) r z = Some v"
        "v = RETURNVALUE_NOERROR \<longrightarrow> clean s r \<longrightarrow> (r, c) \<notin> (inside s)\<^sup>*"
      using query_above_safe [OF assms(1) z False] by blast
    then show ?thesis using False z l y w by (simp add: defs)
  qed
qed

text \<open>A question with \<^verbatim>\<open>FLAG_CHILDISOWNER\<close> is answered by every cylinder that exists.\<close>

lemma child_query_returns:
  assumes "tree_ok s" "valid_cyl s y" "hasBitSet FLAG_CHILDISOWNER flags"
  shows "\<exists>v. dispatch_queryAdd ask E T s actor index r n y flags = Some v"
proof (cases y)
  case (Box c)
  then obtain b where b: "boxes s c = Some b" using assms(2) by (auto simp: valid_cyl_def)
  obtain m k where "added_count s c r 0 = Some m" "getItemHoldingCount s c = Some k"
    using added_count_returns holding_returns(1) assms(1) by metis
  then show ?thesis
    using Box b assms(3) depot_full_returns [OF assms(1) b, of T r n flags]
    by (cases "kind b") (auto simp: dispatch_queryAdd_def Container_queryAdd_def Inbox_queryAdd_def Let_def)
qed (simp_all add: dispatch_queryAdd_def)

lemma childisowner_set: "hasBitSet FLAG_CHILDISOWNER (flags OR FLAG_CHILDISOWNER)"
proof -
  have "bit ((flags OR FLAG_CHILDISOWNER) AND FLAG_CHILDISOWNER) 3"
    by (simp add: FLAG_CHILDISOWNER_def bit_simps)
  then show ?thesis unfolding hasBitSet_def by (metis bit_0_eq bot_apply bot_bool_def)
qed

lemma query_safe:
  assumes "tree_ok s" "boxes s c = Some b"
  shows "\<exists>v. queryAdd E T s actor index r n (Box c) flags = Some v \<and>
    (v = RETURNVALUE_NOERROR \<longrightarrow> \<not> hasBitSet FLAG_CHILDISOWNER flags \<longrightarrow> kind b \<noteq> RewardChestBox \<longrightarrow> clean s r \<longrightarrow>
       (r, c) \<notin> (inside s)\<^sup>*)"
proof -
  let ?ask = "dispatch_queryAdd (\<lambda>_ _. None) E T s actor INDEX_WHEREEVER r n"
  have ask: "\<exists>v. ?ask y (flags OR FLAG_CHILDISOWNER) = Some v" if "valid_cyl s y" for y
    using child_query_returns [OF assms(1) that childisowner_set] .
  have hid: "hidden s c \<Longrightarrow> clean s r \<Longrightarrow> (r, c) \<notin> (inside s)\<^sup>*" by (auto simp: clean_def)
  obtain m k where "added_count s c r 0 = Some m" "getItemHoldingCount s c = Some k"
    using added_count_returns holding_returns(1) assms(1) by metis
  then show ?thesis
    using assms(2) depot_full_returns [OF assms, of T r n flags] hid
      Container_query_safe [OF assms, of ?ask flags E T index r, OF ask]
    by (cases "kind b") (auto simp: queryAdd_def dispatch_queryAdd_def Inbox_queryAdd_def hidden_def has_kind_def)
qed

section \<open>Containers in use\<close>

text \<open>
  The calls that change containers, and what their callers see to: an item that is added has no parent
  and does not hold the container, and inboxes, depot chests and rewards only come to stand where they
  belong and are not taken out again; a cylinder that is not a container takes or releases an item that
  is in no container.
\<close>

datatype container_op =
    AddThing nat int nat
  | InternalAddThing nat nat
  | AddItemBack nat nat
  | UpdateThing nat nat u16 u32
  | ReplaceThing nat nat nat
  | RemoveThing nat nat u32
  | Carry nat "Cyl option"

fun container_step :: "ItemTypes \<Rightarrow> container_op \<Rightarrow> Store \<Rightarrow> Store option" where
  "container_step T (AddThing c index r) s = addThing T c index r s"
| "container_step T (InternalAddThing c r) s = internalAddThing T c r s"
| "container_step T (AddItemBack c r) s = addItemBack T c r s"
| "container_step T (UpdateThing c r itemId n) s = updateThing T c r itemId n s"
| "container_step T (ReplaceThing c index r) s = replaceThing T c index r s"
| "container_step T (RemoveThing c r n) s = removeThing T c r n s"
| "container_step T (Carry r y) s = Some (setParent r y s)"

definition may_enter :: "Store \<Rightarrow> nat \<Rightarrow> nat \<Rightarrow> bool" where
  "may_enter s c r \<longleftrightarrow>
     boxes s c \<noteq> None \<and> item_parent s r = None \<and> (r, c) \<notin> (inside s)\<^sup>* \<and> secluded (setParent r (Some (Box c)) s)"

fun container_allowed :: "Store \<Rightarrow> container_op \<Rightarrow> bool" where
  "container_allowed s (AddThing c index r) = may_enter s c r"
| "container_allowed s (InternalAddThing c r) = may_enter s c r"
| "container_allowed s (AddItemBack c r) = may_enter s c r"
| "container_allowed s (UpdateThing c r itemId n) = True"
| "container_allowed s (ReplaceThing c index r) =
     (may_enter s c r \<and> (\<forall>x. getItemByIndex s c index = Some x \<longrightarrow> \<not> hidden s x))"
| "container_allowed s (RemoveThing c r n) = (\<not> hidden s r)"
| "container_allowed s (Carry r y) =
     (outside (item_parent s r) \<and> outside y \<and> (y \<noteq> None \<longrightarrow> \<not> has_kind {DepotChestBox} s r))"

lemma carry_ok:
  assumes "store_ok T s" "container_allowed s (Carry r y)"
  shows "store_ok T (setParent r y s)"
proof -
  have ok: "tree_ok s" using assms(1) by (simp add: store_ok_def)
  note D = tree_okD [OF ok]
  have y: "outside y" "outside (item_parent s r)" "y \<noteq> None \<longrightarrow> \<not> has_kind {DepotChestBox} s r" using assms(2) by auto
  have "counted (setParent r y s) q" for q
    using D(4) [of q] y(1,2) by (auto simp: counted_def outside_def)
  moreover have "chests_stowed (setParent r y s)" using D(6) y(3) by (auto simp: chests_stowed_def)
  moreover have "finite (dom (item_parent (setParent r y s)))"
    using D(7) by (rule finite_subset [rotated, of "insert r (dom (item_parent s))", OF finite.insertI]) (auto split: if_splits)
  ultimately have "tree_ok (setParent r y s)"
    using D(3,5) y(1) by (simp add: tree_ok_def acyclic_leave secluded_leave)
  then show ?thesis using assms(1) by (simp add: store_ok_def deficit_setParent accounted_def)
qed

lemma container_progress:
  "store_ok T s \<Longrightarrow> container_allowed s e \<Longrightarrow> \<exists>s'. container_step T e s = Some s' \<and> store_ok T s'"
  by (cases e) (auto simp: may_enter_def addThing_ok updateThing_ok replaceThing_ok removeThing_ok carry_ok)

interpretation containers: safe_machine "container_step T" container_allowed "store_ok T" for T
  by unfold_locales (rule container_progress)

definition fresh_store :: "Store \<Rightarrow> bool" where
  "fresh_store s \<longleftrightarrow>
     (\<forall>r. item_parent s r = None) \<and> (\<forall>c b. boxes s c = Some b \<longrightarrow> itemlist b = [] \<and> totalWeight b = 0)"

lemma fresh_ok:
  assumes "fresh_store s"
  shows "store_ok T s"
proof -
  have none: "item_parent s r = None" "items_of s c = []" for r c
    using assms by (auto simp: fresh_store_def items_of_def split: option.split)
  then have "tree_ok s"
    by (auto simp: tree_ok_def secluded_def counted_def chests_stowed_def acyclic_def inside_def dom_def)
  moreover have "deficit T s q = 0" for q
    using assms none by (auto simp: deficit_def child_weight_def fresh_store_def split: option.split)
  ultimately show ?thesis by (simp add: store_ok_def)
qed

lemma top_container_nested:
  assumes ok: "tree_ok s"
  shows "\<not> hidden s t \<Longrightarrow> item_parent s t = Some y \<Longrightarrow> y = Box q \<Longrightarrow>
    \<exists>t' q' z. top_container_loop s (Box t) y = Some (Box t') \<and> (t', t) \<in> (inside s)\<^sup>* \<and>
      item_parent s t' = Some (Box q') \<and> getParent s (Box q') = Some z \<and> outside z"
  using ok
proof (induction y arbitrary: t q rule: climb_induct)
  case (climb y)
  have qt: "(q, t) \<in> inside s" using climb.prems by (simp add: inside_def)
  obtain z where z: "getParent s y = Some z" using parent_total tree_okD(3) ok by blast
  show ?case
  proof (cases "outside z")
    case True
    then have "top_container_loop s (Box t) y = Some (Box t)"
      using z by (subst top_container_loop.simps) (auto simp: outside_def split: option.splits Cyl.splits)
    then show ?thesis using climb.prems z True by blast
  next
    case False
    then obtain p where p: "z = Some (Box p)" by (auto simp: outside_def)
    then have q: "\<not> hidden s q" "item_parent s q = Some (Box p)"
      using parent_box [OF ok, of y p] z climb.prems by auto
    then obtain t' q' w where w: "top_container_loop s (Box q) (Box p) = Some (Box t')" "(t', q) \<in> (inside s)\<^sup>*"
        "item_parent s t' = Some (Box q')" "getParent s (Box q') = Some w" "outside w"
      using climb.IH [of "Box p" q p] z p by auto
    have "top_container_loop s (Box t) y = Some (Box t')"
      using z p w(1) climb.prems by (subst top_container_loop.simps) simp
    moreover have "(t', t) \<in> (inside s)\<^sup>*" using w(2) qt by (rule rtrancl_into_rtrancl)
    ultimately show ?thesis using w(3-5) by blast
  qed
qed

text \<open>
  The free slots of a container that holds more items than it has slots, as containers with pages do:
  the difference wraps around.
\<close>

lemma free_slots_flat: "(\<forall>r \<in> set rs. boxes s r = None) \<Longrightarrow> free_slots_loop s rs n = Some n"
  by (induction rs) (subst free_slots_loop.simps, simp)+

lemma free_slots_overfull:
  assumes "boxes s c = Some b" "\<forall>r \<in> set (itemlist b). boxes s r = None"
    "length (itemlist b) = unat (maxSize b) + k" "0 < k" "k < 2 ^ 16"
  shows "\<exists>n. getFreeSlots s c = Some n \<and> unat n = 2 ^ 16 - k"
proof -
  have d: "maxSize b - of_nat (length (itemlist b)) = - of_nat k" using assms(3) by simp
  have "ucast (- (of_nat k :: u32)) = - (of_nat k :: u16)" by transfer (simp add: min_def)
  also have "\<dots> = of_nat (2 ^ 16 - k)" using assms(5) by (simp add: of_nat_diff)
  finally have "own_free_slots b = of_nat (2 ^ 16 - k)" by (simp add: own_free_slots_def d)
  moreover have "unat (of_nat (2 ^ 16 - k) :: u16) = 2 ^ 16 - k" using assms(4) by (simp add: unat_of_nat)
  ultimately show ?thesis using assms(1,2) by (simp add: getFreeSlots_def free_slots_flat)
qed

section \<open>A store in use\<close>

text \<open>A bag (2) in a backpack (1) and a stone (3) in the bag; (4) is another bag, still empty.\<close>

definition demo_types :: ItemTypes where
  "demo_types =
     (\<lambda>_. \<lparr>type_stackable = False, type_fluid = False, type_splash = False, type_charges = 0, type_moveable = True,
        type_pickupable = True, type_weight = 100, type_decayTime = 0, type_decayTo = -1, type_stopTime = False,
        type_quiver = False, type_ammo = False, type_abilities = None\<rparr>)"

definition demo_start :: Store where
  "demo_start =
     \<lparr>things = (\<lambda>_. \<lparr>item_id = 1, item_count = 1, item_attributes = None\<rparr>),
      boxes = [1 \<mapsto> new_container 1 20, 2 \<mapsto> new_container 1 8, 4 \<mapsto> new_container 1 8],
      item_parent = (\<lambda>_. None), person_tile = (\<lambda>_. None), client_notes = []\<rparr>"

definition demo_bag :: Store where
  "demo_bag = the (container_step demo_types (AddThing 1 0 2) demo_start)"

definition demo_stone :: Store where
  "demo_stone = the (container_step demo_types (AddThing 2 0 3) demo_bag)"

lemma leaf_may_enter:
  assumes "tree_ok s" "items_of s r = []" "r \<noteq> c" "boxes s c \<noteq> None" "item_parent s r = None" "\<not> hidden s r"
  shows "may_enter s c r" "clean s r"
proof -
  have leaf: "(r, x) \<in> (inside s)\<^sup>* \<longleftrightarrow> x = r" for x
    using tree_items(2) [OF assms(1), of _ r] assms(2) by (auto elim: converse_rtranclE)
  then show "clean s r" using assms(6) by (simp add: clean_def)
  then show "may_enter s c r"
    using leaf assms(3-5) secluded_enter [OF tree_okD(3) [OF assms(1)]] by (simp add: may_enter_def)
qed

lemma step_reached:
  assumes "reached (container_step T) container_allowed s0 s" "store_ok T s" "container_allowed s e"
  shows "reached (container_step T) container_allowed s0 (the (container_step T e s))"
    "store_ok T (the (container_step T e s))"
  using container_progress [OF assms(2,3)] reached_step [OF assms(1,3)] by auto

lemma demo_fresh: "fresh_store demo_start"
  by (auto simp: fresh_store_def demo_start_def new_container_def split: if_splits)

lemma demo_bag_reached:
  "reached (container_step demo_types) container_allowed demo_start demo_bag" "store_ok demo_types demo_bag"
proof -
  have ok: "store_ok demo_types demo_start" by (rule fresh_ok [OF demo_fresh])
  have "may_enter demo_start 1 2"
    by (rule leaf_may_enter)
      (use ok in \<open>simp_all add: store_ok_def demo_start_def items_of_def new_container_def hidden_def has_kind_def\<close>)
  then have allowed: "container_allowed demo_start (AddThing 1 0 2)" by simp
  show "reached (container_step demo_types) container_allowed demo_start demo_bag" "store_ok demo_types demo_bag"
    unfolding demo_bag_def using step_reached [OF reached_start ok allowed] by auto
qed

lemma demo_bag_values:
  "items_of demo_bag 3 = []" "boxes demo_bag 2 \<noteq> None" "item_parent demo_bag 3 = None" "\<not> hidden demo_bag 3"
  by code_simp+

lemma demo_stone_reached:
  "reached (container_step demo_types) container_allowed demo_start demo_stone" "store_ok demo_types demo_stone"
proof -
  note ok = demo_bag_reached(2)
  have "may_enter demo_bag 2 3"
    by (rule leaf_may_enter) (use ok demo_bag_values in \<open>simp_all add: store_ok_def\<close>)
  then have allowed: "container_allowed demo_bag (AddThing 2 0 3)" by simp
  show "reached (container_step demo_types) container_allowed demo_start demo_stone" "store_ok demo_types demo_stone"
    unfolding demo_stone_def using step_reached [OF demo_bag_reached(1) ok allowed] by auto
qed

lemma demo_stone_values:
  "all_items demo_stone 1 = Some [2, 3]" "\<not> hidden demo_stone 2" "\<not> hidden demo_stone 3" "\<not> hidden demo_stone 4"
  "items_of demo_stone 4 = []" "item_parent demo_stone 4 = None" "item_parent demo_stone 2 = Some (Box 1)"
  "getTopParentContainer demo_stone 2 = Some (Some 2)" "item_weight demo_types (things demo_stone 2) = 100"
  "item_weight demo_types (things demo_stone 3) = 100"
  by code_simp+

lemma demo_stone_boxes:
  "boxes demo_stone 1 = Some ((new_container 1 20)\<lparr>itemlist := [2], totalWeight := 200\<rparr>)"
  "boxes demo_stone 2 = Some ((new_container 1 8)\<lparr>itemlist := [3], totalWeight := 100\<rparr>)"
  by code_simp+

lemma demo_below: "(1, h) \<in> (inside demo_stone)\<^sup>+ \<longleftrightarrow> h = 2 \<or> h = 3"
  using all_items_below [of demo_stone 1] demo_stone_reached(2) demo_stone_values(1) by (auto simp: store_ok_def)

definition demo_carriers :: carriers where
  "demo_carriers =
     \<lparr>MAX_ITEM = 5000, MAX_CONTAINER = 500, carrier_queryAdd = (\<lambda>_ _ _ _ _. RETURNVALUE_NOERROR),
      house_queryRemove = (\<lambda>_ _ _ _ _. None)\<rparr>"

lemma demo_query: "queryAdd demo_carriers demo_types demo_stone None 0 4 1 (Box 2) 0 = Some RETURNVALUE_NOERROR"
  by code_simp

text \<open>
  C11. The iterator over a container, whatever was done to the store, returns, and it gives out every item
  that is inside the container at any depth exactly once.
\<close>

theorem iterator_visits_once:
  assumes "reached (container_step T) container_allowed s0 s" "fresh_store s0"
  shows "\<exists>xs. all_items s c = Some xs \<and> distinct xs \<and> set xs = {r. (c, r) \<in> (inside s)\<^sup>+}"
proof -
  have "tree_ok s" using containers.reached_ok [OF assms(1) fresh_ok [OF assms(2)]] by (simp add: store_ok_def)
  then show ?thesis by (rule all_items_below)
qed

theorem iterator_visits_once_witness:
  "all_items demo_stone 1 = Some [2, 3] \<and> {r. (1, r) \<in> (inside demo_stone)\<^sup>+} = {2, 3}"
  using iterator_visits_once [OF demo_stone_reached(1) demo_fresh, of 1] demo_stone_values(1) by auto







end
