(* ===== verification/Spec2Isabelle.thy ===== *)
theory Spec2Isabelle
  imports Connection WildcardTree Otb Scheduling Party Chat Admission Progress Decay ContainerTree
begin

text \<open>
  Verification of the server in \<^verbatim>\<open>src/src\<close>, an emulator of a multi-player role-playing game.

  \<^bold>\<open>The program.\<close> Clients connect over TCP (\<^verbatim>\<open>server/network\<close>). A \<^verbatim>\<open>Connection\<close> reads a two-byte
  length, then the packet; a \<^verbatim>\<open>Protocol\<close> checks the sequence number or the Adler-32 checksum, decrypts
  with XTEA and hands a \<^verbatim>\<open>NetworkMessage\<close> to the game; answers take the way back through an
  \<^verbatim>\<open>OutputMessage\<close>. Game code runs on one dispatcher thread that executes tasks in order
  (\<^verbatim>\<open>game/scheduling\<close>); a scheduler thread hands delayed events over to it. The game itself keeps
  players, parties, items and the map (\<^verbatim>\<open>game\<close>, \<^verbatim>\<open>creatures\<close>, \<^verbatim>\<open>items\<close>, \<^verbatim>\<open>map\<close>), reads its world from
  node files (\<^verbatim>\<open>io\<close>) and is scripted in Lua (\<^verbatim>\<open>lua\<close>).

  \<^bold>\<open>Theories and sources.\<close>
  \<^item> \<^verbatim>\<open>Prelude\<close>: machine integers, raw memory, little-endian layout, \<^verbatim>\<open>std::map\<close> as sorted association
    lists, and the contracts shared by the components: integer codec, ordered map, invariant kept
    along a run, machine that is never stuck.
  \<^item> \<^verbatim>\<open>Strings\<close>, \<^verbatim>\<open>Digest\<close>, \<^verbatim>\<open>Names\<close>: \<^verbatim>\<open>utils/tools.cpp\<close>. Text helpers, name validation, checksum, SHA-1
    and one-time tokens, enumerations and name tables.
  \<^item> \<^verbatim>\<open>Geometry\<close>: \<^verbatim>\<open>game/movement/position.h\<close>, \<^verbatim>\<open>position.cpp\<close> and the direction helpers of \<^verbatim>\<open>tools.cpp\<close>.
  \<^item> \<^verbatim>\<open>Xtea\<close>: \<^verbatim>\<open>security/xtea.cpp\<close>, both directions, with their loops over raw memory.
  \<^item> \<^verbatim>\<open>NetMessage\<close>: \<^verbatim>\<open>server/network/message\<close>, the buffers and every typed read and write.
  \<^item> \<^verbatim>\<open>Protocol\<close>: \<^verbatim>\<open>server/network/protocol/protocol.cpp\<close>, framing, padding, encryption; the RSA operation
    is a parameter.
  \<^item> \<^verbatim>\<open>Connection\<close>: \<^verbatim>\<open>server/network/connection\<close> and the service lookup of \<^verbatim>\<open>server/server.cpp\<close>, as a state
    machine whose events are the completions of asynchronous operations.
  \<^item> \<^verbatim>\<open>Scheduling\<close>: \<^verbatim>\<open>game/scheduling/scheduler.cpp\<close> and \<^verbatim>\<open>tasks.cpp\<close>, all interleavings of the critical
    sections.
  \<^item> \<^verbatim>\<open>WildcardTree\<close>: \<^verbatim>\<open>utils/wildcardtree.cpp\<close>, the index of online names.
  \<^item> \<^verbatim>\<open>Otb\<close>: \<^verbatim>\<open>io/fileloader.cpp\<close>, the node-file parser and the property streams.
  \<^item> \<^verbatim>\<open>Floats\<close>: rounding to 24 and 53 significant bits, for the few floating point expressions.
  \<^item> \<^verbatim>\<open>Party\<close>: \<^verbatim>\<open>creatures/players/grouping/party.cpp\<close>, the party side of \<^verbatim>\<open>player.cpp\<close> and the party requests
    of \<^verbatim>\<open>game.cpp\<close>.
  \<^item> \<^verbatim>\<open>Chat\<close>: \<^verbatim>\<open>creatures/interactions/chat.cpp\<close> and the channel requests of \<^verbatim>\<open>game.cpp\<close>.
  \<^item> \<^verbatim>\<open>Admission\<close>: \<^verbatim>\<open>creatures/players/management/ban.cpp\<close> and \<^verbatim>\<open>waitlist.cpp\<close>, and the checks that
    \<^verbatim>\<open>ProtocolGame::login\<close> makes before it loads a character.
  \<^item> \<^verbatim>\<open>Progress\<close>: \<^verbatim>\<open>creatures/players/vocations/vocation.cpp\<close> and the operations of \<^verbatim>\<open>player.cpp\<close> on experience,
    skills and magic level, offline training and the losses of a death.
  \<^item> \<^verbatim>\<open>Items\<close>, \<^verbatim>\<open>ItemStream\<close>: \<^verbatim>\<open>items/item.h\<close> and \<^verbatim>\<open>item.cpp\<close>, the attribute store, the accessors of items and
    their serialization into the property streams of \<^verbatim>\<open>Otb\<close>.
  \<^item> \<^verbatim>\<open>Decay\<close>: \<^verbatim>\<open>items/decay/decay.cpp\<close> on top of \<^verbatim>\<open>Items\<close> and \<^verbatim>\<open>Scheduling\<close>.
  \<^item> \<^verbatim>\<open>Containers\<close>, \<^verbatim>\<open>ContainerTree\<close>: \<^verbatim>\<open>items/containers\<close>, a store of items with parent pointers; the operations, the
    queries, the iterator and the derived classes in the first, the theorems about the tree in the second.
  \<^item> This theory: a packet on its way from one end to the other, across \<^verbatim>\<open>NetMessage\<close>, \<^verbatim>\<open>Xtea\<close>,
    \<^verbatim>\<open>Protocol\<close> and \<^verbatim>\<open>Connection\<close>.

  \<^bold>\<open>What the lemmas show.\<close> Packets: what one end writes, the other end reads, through header, padding,
  encryption and the two reads of the connection; reads and writes stay inside the buffer for any
  input; decryption of arbitrary bytes is safe. Connections: no event leads to undefined behaviour,
  messages leave in the order in which they were sent, the handshake accepts exactly the server
  name, a closed connection stays closed. Scheduling: no event fires early, a stopped event never
  fires, tasks run in the order in which they were added. Files: parsing inverts writing, every
  offset the parser records lies inside the file. Names: the tree holds exactly the online names
  and a query returns the unique match or reports that there are several. Parties: the pointers
  between players and parties agree in every reachable state and are never dangling, with the one
  exception that \<^verbatim>\<open>Player::onRemoveCreature\<close> leaves open. Chat: the same for channels, which forget a
  player at logout but not when the player leaves a party. Admission: what passing the checks of a
  login means; the connection limiter never refuses a patient address and never lets a flooding one
  in; places on the waiting list are unique; entries that time out are never removed, and a premium
  client's turn is undefined behaviour. Progress: level and experience agree along every run, advances
  and deaths conserve the tries and the mana they move, with the two places where they do not. Items:
  attributes always hold the member of the union their type calls for, an item that is saved is read
  back with all attributes that are written. Decay: an event is armed as long as an item waits; an item
  that is stopped is not forgotten, and the time left of a decaying item is lost. Containers: the cached
  weight of a container is the weight of everything below it, the iterator gives out each item once, no
  container comes to be inside itself as long as queries are heeded; the limits on items are compared
  with one branch only. Utilities: each equals
  its reference definition, with the inputs on which it does not.

  \<^bold>\<open>Conventions.\<close> A class is a record, an enumeration a datatype (or numbered constants where it is
  large), a \<^verbatim>\<open>uintN_t\<close> a word of that width. Undefined behaviour, failed assertions and exceptions are
  \<^term>\<open>None\<close>. Messages to clients and log entries are lists in the state. Lua scripts, configuration
  values, random numbers, clocks and library calls are parameters. No definition uses fuel:
  loops are recursive functions with a termination proof, and those whose termination depends on the
  input are partial functions in the option monad, with theorems that say when they return:
  \<^verbatim>\<open>replaceString\<close> and \<^verbatim>\<open>explodeString\<close>, which do not for an empty search string, and the walks through
  containers, which do in every reachable store.

  \<^bold>\<open>Not modelled.\<close> The acceptor, signals and threads of \<^verbatim>\<open>server\<close> and the sockets themselves
  (asynchronous library calls); the database layer and \<^verbatim>\<open>io\<close> apart from the node files (SQL); the Lua
  bindings (glue around the operations); logging, dates and random numbers of \<^verbatim>\<open>tools.cpp\<close>. Of the items,
  descriptions, prices and the type table read from data files. Tiles and the map, creatures and combat,
  the inventory, houses, the market and the packets of the game protocols: their operations change the
  map and the creatures on it together and are driven by scripts and random numbers.
\<close>

section \<open>A packet from one end to the other\<close>

lemma wire_shape:
  assumes "padding_fits m" "encryptionEnabled p" "\<not> rawMessages p" "compactCrypt p \<or> checksumEnabled p"
  shows "\<exists>m' p' c. onSendMessage m p = Some (m', p')
     \<and> xtea_encrypt (plain_body m) 6 NETWORKMESSAGE_MAXSIZE (enc_length m) (xtea_key p) = Some c
     \<and> length (wire_bytes m') = enc_length m + 6
     \<and> take 2 (wire_bytes m') = word_bytes 2 (of_nat (enc_length m + 4) :: u16)
     \<and> (\<forall>i. 6 \<le> i \<and> i < 6 + enc_length m \<longrightarrow> wire_bytes m' ! i = c i)"
proof -
  obtain m' p' c h where s: "onSendMessage m p = Some (m', p')" "outputBufferStart m' = 0"
    "unat (msg_length m') = enc_length m + 6"
    "xtea_encrypt (plain_body m) 6 NETWORKMESSAGE_MAXSIZE (enc_length m) (xtea_key p) = Some c"
    and b: "msg_buffer m' = mem_write (mem_write c 2 (word_bytes 4 (h :: u32))) 0
         (word_bytes 2 (of_nat (enc_length m + 4) :: u16))"
    using send_packet [OF assms] by blast
  have w: "wire_bytes m' = mem_read (msg_buffer m') 0 2 @ mem_read (msg_buffer m') 2 (enc_length m + 4)"
    using mem_read_append [of "msg_buffer m'" 0 2 "enc_length m + 4"] s(2,3)
    by (simp add: wire_bytes_def add.commute numeral_2_eq_2)
  have "take 2 (wire_bytes m') = word_bytes 2 (of_nat (enc_length m + 4) :: u16)"
    unfolding w by (simp add: b mem_laws)
  moreover have "wire_bytes m' ! i = c i" if "6 \<le> i" "i < 6 + enc_length m" for i
    using that s(2,3) by (simp add: wire_bytes_def b mem_write_def)
  ultimately show ?thesis using s by (auto simp: wire_bytes_def)
qed

lemma enc_length_accepted:
  "padding_fits m \<Longrightarrow> enc_length m + 4 < NETWORKMESSAGE_MAXSIZE - 16"
  using padding_less [of "unat (msg_length m) + 2"]
  by (auto simp: enc_length_def Let_def padding_fits_def well_built_def canAdd_def size_defs)

text \<open>The two header bytes are the length that \<^verbatim>\<open>getLengthHeader\<close> reads.\<close>

lemma low_byte: "(of_nat (unat (v::u16) mod 256) :: u8) = ucast v"
  by (simp add: word_unat_eq_iff unsigned_ucast_eq unat_of_nat take_bit_eq_mod)

lemma high_byte: "(of_nat (unat (v::u16) div 256 mod 256) :: u8) = ucast (drop_bit 8 v)"
proof -
  have "unat (drop_bit 8 v) = unat v div 256"
    using unsigned_less [of v, where ?'a = nat]
    by (simp only: unsigned_drop_bit_eq) (simp add: drop_bit_eq_div take_bit_nat_eq_self)
  then show ?thesis
    unfolding word_unat_eq_iff unsigned_ucast_eq by (simp only:) (simp add: unat_of_nat take_bit_eq_mod)
qed

lemma header_of_bytes:
  "ucast (ucast (ucast v :: u8) OR push_bit 8 (ucast (ucast (drop_bit 8 v) :: u8)) :: u32) = (v :: u16)"
  (is "?x = v")
proof (rule bit_word_eqI)
  fix n
  assume "n < LENGTH(16)"
  then consider "n < 8" | "8 \<le> n" "n < 16" by fastforce
  then show "bit ?x n = bit v n" by cases (auto simp: bit_simps)
qed

lemma getLengthHeader_read:
  assumes "mem_read (msg_buffer m) 0 2 = word_bytes 2 v"
  shows "getLengthHeader m = v"
proof -
  have "mem_read (msg_buffer m) 0 2 = [msg_buffer m 0, msg_buffer m 1]"
    by (simp add: mem_read_def upt_rec numeral_2_eq_2)
  then have "msg_buffer m 0 = ucast v" "msg_buffer m 1 = ucast (drop_bit 8 v)"
    using assms by (simp_all add: word_bytes_def le_bytes_2 low_byte high_byte)
  then show ?thesis by (simp only: getLengthHeader_def header_of_bytes)
qed

text \<open>The receiving connection is past its first packet and under its packet limit.\<close>

definition receiving :: "environment \<Rightarrow> int \<Rightarrow> protocol \<Rightarrow> connection \<Rightarrow> bool" where
  "receiving env now q c \<longleftrightarrow> connectionState c = CONNECTION_STATE_GAME \<and> receivedFirst c
     \<and> receivedLastChar c \<and> conn_protocol c = Some q \<and> pending_read c = Some (ReadHeader HEADER_LENGTH)
     \<and> \<not> (packetsSent c + 1) div timePassed now c > MAX_PACKETS_PER_SECOND env"

lemma get_keeps_buffer: "msg_buffer (snd (get n m :: u32 \<times> netmsg)) = msg_buffer m"
  by (simp add: get_def canRead_def)

lemma header_step:
  assumes "receiving env now q c" and "hd2 = word_bytes 2 (v :: u16)" and "0 < unat v"
    and "unat v < NETWORKMESSAGE_MAXSIZE - 16"
  shows "\<exists>c1. exec env (HeaderRead hd2 now False False) c = Some c1
     \<and> pending_read c1 = Some (ReadBody (unat v)) \<and> connectionState c1 = CONNECTION_STATE_GAME
     \<and> receivedFirst c1 \<and> conn_protocol c1 = Some q
     \<and> msg_position (conn_msg c1) = 2 \<and> unat (msg_length (conn_msg c1)) = unat v + 2
     \<and> mem_read (msg_buffer (conn_msg c1)) 0 2 = hd2"
proof -
  have len: "unat (v + 2) = unat v + 2"
    using unat_plus_of_nat [of v 2] assms(4) by (simp add: size_defs)
  have "v \<noteq> 0" using assms(3) by auto
  moreover have "getLengthHeader (conn_msg (deliver 0 hd2 c)) = v"
    by (rule getLengthHeader_read) (simp add: deliver_def assms(2) mem_laws)
  ultimately show ?thesis
    using assms(1,2,4) len
    by (auto simp: receiving_def parseHeader_def read_size_def Let_def deliver_def start_read_def timePassed_def
        getBodyBuffer_def setLength_def HEADER_LENGTH_def mem_laws)
qed

lemma body_step:
  assumes "connectionState c1 = CONNECTION_STATE_GAME" "receivedFirst c1" "conn_protocol c1 = Some q"
    and "encryptionEnabled q" and "msg_position (conn_msg c1) = 2"
    and "XTEA_decrypt (xtea_key q) (snd (get 4 (conn_msg (deliver HEADER_LENGTH bs c1)) :: u32 \<times> netmsg)) = Some (True, r)"
  shows "\<exists>cx. exec env (BodyRead bs False False) c1 =
     map_option (start_read False (ReadHeader HEADER_LENGTH)) (handle_with (protocol_parsePacket env) r q cx)"
proof -
  let ?c = "(deliver HEADER_LENGTH bs c1)"
  let ?c1 = "?c\<lparr>readTimer := False, conn_msg := snd (get 4 (conn_msg ?c) :: u32 \<times> netmsg)\<rparr>"
  have "dispatch_next env ?c1 = handle_with (protocol_parsePacket env) r q ?c1"
    using assms(3,4,6) by (simp add: dispatch_next_def onRecvMessage_def deliver_def)
  moreover have "\<not> rejected_first env ?c1" using assms(2) by (simp add: rejected_first_def deliver_def)
  moreover have "connectionState ?c \<noteq> CONNECTION_STATE_DISCONNECTED" "receivedFirst ?c"
    using assms(1,2) by (simp_all add: deliver_def)
  ultimately show ?thesis
    by (intro exI [of _ ?c1]) (simp add: parsePacket_def Let_def split: option.split)
qed

text \<open>
  C1. End to end: a message built by the server's \<^verbatim>\<open>add\<close> calls, encoded by \<^verbatim>\<open>onSendMessage\<close> (inner
  length, padding, XTEA, checksum or sequence number, outer length) and carried as bytes over the
  wire, is accepted by a peer running the same connection code with the same key: the header read
  asks for exactly the bytes that follow, decryption accepts the packet, and the protocol's
  \<^verbatim>\<open>parsePacket\<close> is called with a message of the original length, positioned at its start, whose body
  is the original body. This holds for every content, for lengths up to the largest that leave room
  for padding, with either kind of crypto header.
\<close>

theorem packet_delivered:
  assumes "padding_fits m" and "encryptionEnabled p" and "\<not> rawMessages p"
    and "compactCrypt p \<or> checksumEnabled p" and "receiving env now q c"
    and "encryptionEnabled q" and "xtea_key q = xtea_key p"
  shows "\<exists>m' p' c1 r cx. onSendMessage m p = Some (m', p')
    \<and> exec env (HeaderRead (take 2 (wire_bytes m')) now False False) c = Some c1
    \<and> pending_read c1 = Some (ReadBody (length (drop 2 (wire_bytes m'))))
    \<and> exec env (BodyRead (drop 2 (wire_bytes m')) False False) c1 =
        map_option (start_read False (ReadHeader HEADER_LENGTH))
          (handle_with (protocol_parsePacket env) r q cx)
    \<and> msg_length r = msg_length m \<and> msg_position r = 8
    \<and> mem_read (msg_buffer r) 8 (unat (msg_length m)) = mem_read (msg_buffer m) 8 (unat (msg_length m))"
proof -
  obtain m' p' ct where s: "onSendMessage m p = Some (m', p')"
    and ct: "xtea_encrypt (plain_body m) 6 NETWORKMESSAGE_MAXSIZE (enc_length m) (xtea_key p) = Some ct"
    and len: "length (wire_bytes m') = enc_length m + 6"
    and hd2: "take 2 (wire_bytes m') = word_bytes 2 (of_nat (enc_length m + 4) :: u16)"
    and body: "\<forall>i. 6 \<le> i \<and> i < 6 + enc_length m \<longrightarrow> wire_bytes m' ! i = ct i"
    using wire_shape [OF assms(1-4)] by blast
  let ?v = "of_nat (enc_length m + 4) :: u16" and ?bs = "drop 2 (wire_bytes m')"
  have v: "unat ?v = enc_length m + 4"
    using enc_length_accepted [OF assms(1)] by (intro unat_16) (simp add: size_defs)
  obtain c1 where c1: "exec env (HeaderRead (take 2 (wire_bytes m')) now False False) c = Some c1"
    "pending_read c1 = Some (ReadBody (enc_length m + 4))" "connectionState c1 = CONNECTION_STATE_GAME"
    "receivedFirst c1" "conn_protocol c1 = Some q" "msg_position (conn_msg c1) = 2"
    "unat (msg_length (conn_msg c1)) = enc_length m + 4 + 2"
    using header_step [OF assms(5) hd2] enc_length_accepted [OF assms(1)] unfolding v by auto
  let ?msg = "conn_msg (deliver HEADER_LENGTH ?bs c1)"
  let ?r = "snd (get 4 ?msg :: u32 \<times> netmsg)"
  have buf: "msg_buffer ?msg = mem_write (msg_buffer (conn_msg c1)) 2 ?bs"
    by (simp add: deliver_def HEADER_LENGTH_def)
  have pos: "msg_position ?msg = 2" "msg_length ?msg = msg_length (conn_msg c1)"
    using c1(6) by (simp_all add: deliver_def)
  have at: "?bs ! (i - 2) = wire_bytes m' ! i" if "6 \<le> i" "i < 6 + enc_length m" for i
    using that len le_add_diff_inverse [of 2 i] by (simp del: le_add_diff_inverse)
  have "msg_buffer ?r = msg_buffer ?msg" by (rule get_keeps_buffer)
  then have "agree 6 (6 + enc_length m) ct (msg_buffer ?r)"
    using body len unfolding agree_def buf by (simp add: mem_write_def at del: nth_drop)
  then obtain r where r: "XTEA_decrypt (xtea_key p) ?r = Some (True, r)" "msg_length r = msg_length m"
    "msg_position r = 8"
    "mem_read (msg_buffer r) 8 (unat (msg_length m)) = mem_read (msg_buffer m) 8 (unat (msg_length m))"
    using receive_packet [OF assms(1) ct, of ?r] get_checksum [OF pos(1)] pos(2) c1(7) by auto
  from body_step [OF c1(3-5) assms(6) c1(6), of ?bs r env] r(1) assms(7)
  obtain cx where "exec env (BodyRead ?bs False False) c1 =
      map_option (start_read False (ReadHeader HEADER_LENGTH)) (handle_with (protocol_parsePacket env) r q cx)"
    by auto
  with s c1(1,2) r len show ?thesis by auto
qed

theorem packet_delivered_witness:
  "\<exists>m' p' c1. onSendMessage (new_output (\<lambda>_. 7)) (enableXTEAEncryption (new_protocol (1, 2, 3, 4))) = Some (m', p')
    \<and> exec quiet_env (HeaderRead (take 2 (wire_bytes m')) 0 False False)
        (idle_connection\<lparr>connectionState := CONNECTION_STATE_GAME, receivedFirst := True, receivedLastChar := True,
           conn_protocol := Some (enableXTEAEncryption (new_protocol (1, 2, 3, 4)))\<rparr>) = Some c1
    \<and> pending_read c1 = Some (ReadBody (length (drop 2 (wire_bytes m'))))"
proof -
  let ?p = "enableXTEAEncryption (new_protocol (1, 2, 3, 4))"
  let ?c = "idle_connection\<lparr>connectionState := CONNECTION_STATE_GAME, receivedFirst := True,
      receivedLastChar := True, conn_protocol := Some ?p\<rparr>"
  have "padding_fits (new_output (\<lambda>_. 7))"
    by (simp add: padding_fits_def well_built_new)
      (simp add: canAdd_def new_output_def INITIAL_BUFFER_POSITION_def size_defs)
  moreover have "receiving quiet_env 0 ?p ?c"
    by (simp add: receiving_def idle_connection_def accept_protocol_def accept_def start_read_def
        new_connection_def timePassed_def quiet_env_def Let_def)
  moreover have "encryptionEnabled ?p" "\<not> rawMessages ?p" "checksumEnabled ?p"
    by (simp_all add: enableXTEAEncryption_def new_protocol_def)
  ultimately show ?thesis
    using packet_delivered [of "new_output (\<lambda>_. 7)" ?p quiet_env 0 ?p ?c] by auto
qed

end
